(* ===== verification/LNC_Prelude.thy ===== *)
theory LNC_Prelude
  imports Main "HOL-Library.Word" "HOL-Library.Monad_Syntax" "HOL-Library.Sublist"
begin

unbundle bit_operations_syntax

section \<open>Shared types, sequence numbers and byte encodings\<close>

text \<open>
  What the components share: the names of Go's machine types, Go's panic as a value, the
  contract of a wire format, sequence numbers modulo \<open>s\<close> held in a \<^verbatim>\<open>uint8\<close>, and
  the big-endian integers of \<^verbatim>\<open>encoding/binary\<close>.
  \<^item> \<open>u8\<close>, \<open>u16\<close>, \<open>u32\<close>, \<open>u64\<close> are Go's unsigned integers: \<open>+\<close> and \<open>-\<close> wrap,
    \<open>mod\<close> is \<^verbatim>\<open>%\<close> on unsigned operands.
  \<^item> A function that may panic (an index out of range, a division by zero, a nil
    dereference) returns an option; \<open>None\<close> is the panic, which takes the process down.
  \<^item> \<open>time\<close> counts nanoseconds from Go's zero \<^verbatim>\<open>time.Time\<close>, \<open>duration\<close> is a
    \<^verbatim>\<open>time.Duration\<close>, an \<^verbatim>\<open>int64\<close> count of nanoseconds.
\<close>

type_synonym u8 = "8 word"
type_synonym u16 = "16 word"
type_synonym u32 = "32 word"
type_synonym u64 = "64 word"
type_synonym bytes = "8 word list"
type_synonym time = int
type_synonym duration = int

named_theorems seq_arith \<open>facts on sequence numbers modulo s\<close>
named_theorems wire \<open>facts on byte encodings\<close>

subsection \<open>Go's integers\<close>

text \<open>\<open>go_mod\<close> is \<^verbatim>\<open>a % b\<close> on unsigned operands: a zero divisor panics.\<close>

definition go_mod :: "u8 \<Rightarrow> u8 \<Rightarrow> u8 option" where
  "go_mod a b = (if b = 0 then None else Some (a mod b))"

lemma go_mod_Some [simp]: "b \<noteq> 0 \<Longrightarrow> go_mod a b = Some (a mod b)"
  by (simp add: go_mod_def)

lemma go_mod_zero [simp]: "go_mod a 0 = None"
  by (simp add: go_mod_def)

text \<open>The signed 64-bit value that an integer result wraps to.\<close>

definition int64 :: "int \<Rightarrow> int" where
  "int64 x = (x + 2 ^ 63) mod 2 ^ 64 - 2 ^ 63"

abbreviation MaxInt64 :: int where
  "MaxInt64 \<equiv> 9223372036854775807"

abbreviation MinInt64 :: int where
  "MinInt64 \<equiv> - 9223372036854775808"

lemma int64_id: "MinInt64 \<le> x \<Longrightarrow> x \<le> MaxInt64 \<Longrightarrow> int64 x = x"
  by (simp add: int64_def)

lemma int64_range: "MinInt64 \<le> int64 x \<and> int64 x \<le> MaxInt64"
proof -
  have "0 \<le> (x + 2 ^ 63) mod 2 ^ 64" and "(x + 2 ^ 63) mod 2 ^ 64 < 2 ^ 64"
    by simp_all
  then show ?thesis by (simp add: int64_def)
qed

text \<open>\<^verbatim>\<open>t.Sub(u)\<close> of package time: the difference, saturated to an int64.\<close>

definition time_sub :: "time \<Rightarrow> time \<Rightarrow> duration" where
  "time_sub t u = max MinInt64 (min MaxInt64 (t - u))"

text \<open>The zero \<^verbatim>\<open>time.Time\<close>.\<close>

abbreviation (input) zero_time :: time where
  "zero_time \<equiv> 0"

subsection \<open>Wire formats\<close>

text \<open>
  The contract of a wire format: decoding an encoded message gives the message back. The
  lemmas every client of such a format needs are proved once here.
\<close>

locale wire_format =
  fixes enc :: "'m \<Rightarrow> bytes"
    and dec :: "bytes \<Rightarrow> 'e + 'm"
    and valid :: "'m \<Rightarrow> bool"
  assumes dec_enc: "valid m \<Longrightarrow> dec (enc m) = Inr m"
begin

lemma enc_inject: "valid m \<Longrightarrow> valid m' \<Longrightarrow> enc m = enc m' \<Longrightarrow> m = m'"
  using dec_enc by (metis sum.inject(2))

lemma inj_on_enc: "inj_on enc (Collect valid)"
  by (auto intro!: inj_onI enc_inject)

lemma dec_map_enc: "\<forall>m \<in> set ms. valid m \<Longrightarrow> map (dec \<circ> enc) ms = map Inr ms"
  by (simp add: dec_enc)

end

subsection \<open>Big-endian integers\<close>

text \<open>
  \<^verbatim>\<open>binary.BigEndian.PutUint16\<close>, \<^verbatim>\<open>PutUint32\<close> and their readers, on lists of bytes.
\<close>

definition put_u16 :: "u16 \<Rightarrow> bytes" where
  "put_u16 x = [ucast (drop_bit 8 x), ucast x]"

definition get_u16 :: "bytes \<Rightarrow> u16" where
  "get_u16 b = push_bit 8 (ucast (b ! 0)) OR ucast (b ! 1)"

definition put_u32 :: "u32 \<Rightarrow> bytes" where
  "put_u32 x = [ucast (drop_bit 24 x), ucast (drop_bit 16 x), ucast (drop_bit 8 x), ucast x]"

definition get_u32 :: "bytes \<Rightarrow> u32" where
  "get_u32 b = push_bit 24 (ucast (b ! 0)) OR push_bit 16 (ucast (b ! 1))
             OR push_bit 8 (ucast (b ! 2)) OR ucast (b ! 3)"

lemma length_put_u16 [simp]: "length (put_u16 x) = 2"
  by (simp add: put_u16_def)

lemma length_put_u32 [simp]: "length (put_u32 x) = 4"
  by (simp add: put_u32_def)

lemma get_put_u16 [simp, wire]: "get_u16 (put_u16 x @ r) = x"
  unfolding get_u16_def put_u16_def
  by (rule bit_word_eqI) (auto simp: bit_simps not_less)

lemma get_put_u32 [simp, wire]: "get_u32 (put_u32 x @ r) = x"
proof (rule bit_word_eqI)
  fix n assume "n < LENGTH(32)"
  then have n: "n < 32" by simp
  consider "n < 8" | "8 \<le> n" "n < 16" | "16 \<le> n" "n < 24" | "24 \<le> n" "n < 32"
    using n by linarith
  then show "bit (get_u32 (put_u32 x @ r)) n = bit x n"
    by cases (auto simp: get_u32_def put_u32_def bit_simps)
qed

subsection \<open>Sequence numbers\<close>

text \<open>
  Packets are numbered \<open>0, 1, 2, \<dots>\<close>; the wire carries the number modulo \<open>s\<close> in a
  byte. \<open>seqno s i\<close> is the label of packet \<open>i\<close>.
\<close>

definition seqno :: "u8 \<Rightarrow> nat \<Rightarrow> u8" where
  "seqno s i = of_nat (i mod unat s)"

lemma unat_u8_pos [simp]: "s \<noteq> 0 \<Longrightarrow> 0 < unat (s :: u8)"
  by (simp add: unat_gt_0)

lemma unat_u8_less [simp]: "unat (s :: u8) < 256"
  using unsigned_less [of s] by simp

lemma unat_seqno [simp, seq_arith]: "s \<noteq> 0 \<Longrightarrow> unat (seqno s i) = i mod unat s"
proof -
  assume "s \<noteq> 0"
  then have "i mod unat s < 256"
    by (meson mod_less_divisor unat_u8_less unat_u8_pos order_less_trans)
  then show ?thesis
    by (simp add: seqno_def unat_of_nat take_bit_eq_mod)
qed

lemma seqno_0 [simp, seq_arith]: "seqno s 0 = 0"
  by (simp add: seqno_def)

lemma seqno_less [simp, seq_arith]: "s \<noteq> 0 \<Longrightarrow> seqno s i < s"
  by (simp add: word_less_nat_alt)

lemma unat_Suc_mod: "(s :: u8) \<noteq> 0 \<Longrightarrow> a < s \<Longrightarrow> unat ((a + 1) mod s) = Suc (unat a) mod unat s"
proof -
  assume "s \<noteq> 0" and "a < s"
  then have "Suc (unat a) < 256"
    using unat_u8_less [of s] unfolding word_less_nat_alt by linarith
  then have "unat (a + 1) = Suc (unat a)"
    by (simp add: unat_word_ariths)
  then show ?thesis by (simp add: unat_mod_distrib)
qed

lemma seqno_Suc [seq_arith]: "s \<noteq> 0 \<Longrightarrow> (seqno s i + 1) mod s = seqno s (Suc i)"
  by (rule word_unat_eq_iff [THEN iffD2]) (simp add: unat_Suc_mod mod_Suc_eq)

lemma seqno_eq_iff:
  "s \<noteq> 0 \<Longrightarrow> seqno s i = seqno s j \<longleftrightarrow> i mod unat s = j mod unat s"
  by (auto simp: word_unat_eq_iff)

lemma mod_eq_window:
  fixes i j m :: nat
  assumes "i mod m = j mod m" and "i \<le> j" and "j < i + m"
  shows "i = j"
proof -
  have "m dvd j - i" using mod_eq_dvd_iff_nat [OF assms(2), of m] assms(1) by simp
  moreover have "j - i < m" using assms(2,3) by linarith
  ultimately have "j - i = 0" using nat_dvd_not_less [of "j - i" m] by auto
  with assms(2) show ?thesis by simp
qed

text \<open>Inside a window shorter than \<open>s\<close>, a label names one packet only.\<close>

lemma seqno_window [seq_arith]:
  "s \<noteq> 0 \<Longrightarrow> i \<le> j \<Longrightarrow> j < i + unat s \<Longrightarrow> seqno s i = seqno s j \<longleftrightarrow> i = j"
  by (auto simp: seqno_eq_iff dest: mod_eq_window)

lemma seqno_window' [seq_arith]:
  "s \<noteq> 0 \<Longrightarrow> i < j + unat s \<Longrightarrow> j < i + unat s \<Longrightarrow> seqno s i = seqno s j \<longleftrightarrow> i = j"
  using seqno_window [of s i j] seqno_window [of s j i]
  by (metis nat_le_linear)

lemma seqno_unat [simp]: "a < s \<Longrightarrow> seqno s (unat a) = a"
  by (simp add: seqno_def word_less_nat_alt)

lemma seqno_add_period [simp]: "seqno s (i + unat s) = seqno s i"
  by (simp add: seqno_def)

end
