(* ===== verification/GBN_Messages.thy ===== *)
theory GBN_Messages
  imports LNC_Prelude
begin

section \<open>The packets of the Go-Back-N layer (gbn/messages.go)\<close>

text \<open>
  The six packet types, \<^verbatim>\<open>Serialize\<close> of each and \<^verbatim>\<open>Deserialize\<close>. The writes to a
  \<^verbatim>\<open>bytes.Buffer\<close> never fail, so \<^verbatim>\<open>Serialize\<close> has no error branch; every parse error
  of \<^verbatim>\<open>Deserialize\<close> is \<^verbatim>\<open>io.EOF\<close>.
\<close>

subsection \<open>Data\<close>

abbreviation (input) SYN :: u8 where "SYN \<equiv> 0x01"
abbreviation (input) DATA :: u8 where "DATA \<equiv> 0x02"
abbreviation (input) ACK :: u8 where "ACK \<equiv> 0x03"
abbreviation (input) NACK :: u8 where "NACK \<equiv> 0x04"
abbreviation (input) FIN :: u8 where "FIN \<equiv> 0x05"
abbreviation (input) SYNACK :: u8 where "SYNACK \<equiv> 0x06"
abbreviation (input) FALSE :: u8 where "FALSE \<equiv> 0x00"
abbreviation (input) TRUE :: u8 where "TRUE \<equiv> 0x01"

record PacketData =
  Seq :: u8
  FinalChunk :: bool
  IsPing :: bool
  Payload :: bytes

datatype Message =
    Data PacketData
  | PacketACK u8
  | PacketSYN u8
  | PacketNACK u8
  | PacketFIN
  | PacketSYNACK

datatype parse_error = EOF

subsection \<open>Serialize and Deserialize\<close>

definition flag :: "bool \<Rightarrow> u8" where
  "flag b = (if b then TRUE else FALSE)"

fun Serialize :: "Message \<Rightarrow> bytes" where
  "Serialize (Data m) = [DATA, Seq m, flag (FinalChunk m), flag (IsPing m)] @ Payload m"
| "Serialize (PacketACK seq) = [ACK, seq]"
| "Serialize (PacketSYN n) = [SYN, n]"
| "Serialize (PacketNACK seq) = [NACK, seq]"
| "Serialize PacketFIN = [FIN]"
| "Serialize PacketSYNACK = [SYNACK]"

definition Deserialize :: "bytes \<Rightarrow> parse_error + Message" where
  "Deserialize b =
     (if length b < 1 then Inl EOF
      else if b ! 0 = DATA then
        (if length b < 4 then Inl EOF
         else Inr (Data \<lparr>Seq = b ! 1, FinalChunk = (b ! 2 = TRUE), IsPing = (b ! 3 = TRUE),
                         Payload = drop 4 b\<rparr>))
      else if b ! 0 = ACK then
        (if length b < 2 then Inl EOF else Inr (PacketACK (b ! 1)))
      else if b ! 0 = NACK then
        (if length b < 2 then Inl EOF else Inr (PacketNACK (b ! 1)))
      else if b ! 0 = SYN then
        (if length b < 2 then Inl EOF else Inr (PacketSYN (b ! 1)))
      else if b ! 0 = FIN then
        (if length b < 1 then Inl EOF else Inr PacketFIN)
      else if b ! 0 = SYNACK then
        (if length b < 1 then Inl EOF else Inr PacketSYNACK)
      else Inl EOF)"

subsection \<open>The wire format\<close>

lemma flag_TRUE [simp]: "flag b = TRUE \<longleftrightarrow> b"
  by (simp add: flag_def)

lemma Deserialize_Serialize [simp, wire]: "Deserialize (Serialize m) = Inr m"
  by (cases m) (simp_all add: Deserialize_def)

interpretation gbn_wire: wire_format Serialize Deserialize "\<lambda>_. True"
  by unfold_locales simp

lemma inj_Serialize: "inj Serialize"
  using gbn_wire.inj_on_enc by simp

text \<open>The messages of the handshake.\<close>

definition handshake_msg :: "Message \<Rightarrow> bool" where
  "handshake_msg m \<longleftrightarrow> (case m of PacketSYN _ \<Rightarrow> True | PacketSYNACK \<Rightarrow> True | _ \<Rightarrow> False)"

lemma handshake_msg_simps [simp]:
  "handshake_msg (PacketSYN n)" "handshake_msg PacketSYNACK" "\<not> handshake_msg (Data p)"
  "\<not> handshake_msg (PacketACK x)" "\<not> handshake_msg (PacketNACK x)" "\<not> handshake_msg PacketFIN"
  by (simp_all add: handshake_msg_def)

lemma handshake_msg_only: "handshake_msg m \<Longrightarrow> (\<exists>n. m = PacketSYN n) \<or> m = PacketSYNACK"
  by (cases m) auto

text \<open>The shortest input that each packet type accepts.\<close>

fun min_length :: "u8 \<Rightarrow> nat option" where
  "min_length t =
     (if t = DATA then Some 4
      else if t = ACK \<or> t = NACK \<or> t = SYN then Some 2
      else if t = FIN \<or> t = SYNACK then Some 1
      else None)"

lemma Deserialize_Inl_iff:
  "Deserialize b = Inl e \<longleftrightarrow>
     b = [] \<or> (case min_length (hd b) of None \<Rightarrow> True | Some k \<Rightarrow> length b < k)"
  by (cases b; cases e) (auto simp: Deserialize_def)

text \<open>
  The bytes a parsed packet stands for: the packet's own encoding, up to the two flag
  bytes (any byte other than 1 reads as false) and what follows a fixed-length packet.
\<close>

lemma Deserialize_Data_bytes:
  assumes "Deserialize b = Inr (Data m)"
  shows "b = [DATA, Seq m, b ! 2, b ! 3] @ Payload m"
proof -
  from assms have "4 \<le> length b" and "b ! 0 = DATA" and "b ! 1 = Seq m" and "drop 4 b = Payload m"
    by (auto simp: Deserialize_def split: if_splits)
  moreover from \<open>4 \<le> length b\<close> obtain w x y z r where "b = w # x # y # z # r"
    by (auto simp: numeral_eq_Suc Suc_le_length_iff)
  ultimately show ?thesis by simp
qed

text \<open>
  C17: the wire format of the packets loses nothing and rejects exactly what is too short.
  Parsing the bytes of a packet returns the packet, different packets have different bytes,
  and parsing fails iff the type byte is missing or unknown or the bytes are fewer than the
  type's fixed part.
\<close>

theorem gbn_wire_correct:
  "Deserialize (Serialize m) = Inr m \<and> (Serialize m = Serialize m' \<longleftrightarrow> m = m') \<and>
   (Deserialize b = Inl e \<longleftrightarrow>
      b = [] \<or> (case min_length (hd b) of None \<Rightarrow> True | Some k \<Rightarrow> length b < k))"
  by (intro conjI Deserialize_Serialize inj_eq [OF inj_Serialize] Deserialize_Inl_iff)

end
