(* ===== verification/Go_Float.thy ===== *)
theory Go_Float
  imports LNC_Prelude "HOL-Library.Log_Nat"
begin

section \<open>Go's floating point, as the timeouts use it\<close>

text \<open>
  The timeout arithmetic of gbn/timeout\_manager.go goes through \<^verbatim>\<open>float32\<close> and
  \<^verbatim>\<open>float64\<close>. A finite value is a pair \<open>(m, e)\<close> that stands for \<open>m * 2 ^ e\<close>; every
  operation is exact and then rounded to \<open>p\<close> significant bits, half to even
  (\<open>p = 24\<close> for \<^verbatim>\<open>float32\<close>, \<open>p = 53\<close> for \<^verbatim>\<open>float64\<close>). The exponent is
  unbounded: the timeouts are below \<open>2 ^ 63\<close>, far from overflow and from subnormals. A
  conversion to an integer truncates towards zero; out of the range of an \<^verbatim>\<open>int64\<close> it
  yields the least \<^verbatim>\<open>int64\<close>, as on amd64.
\<close>

type_synonym fl = "int \<times> int"

definition rshift_rne :: "nat \<Rightarrow> nat \<Rightarrow> nat" where
  "rshift_rne m k =
     (let q = m div 2 ^ k; r = 2 * (m mod 2 ^ k)
      in if r > 2 ^ k \<or> (r = 2 ^ k \<and> odd q) then q + 1 else q)"

definition fl_round :: "nat \<Rightarrow> fl \<Rightarrow> fl" where
  "fl_round p x =
     (let k = floorlog 2 (nat \<bar>fst x\<bar>) - p
      in (sgn (fst x) * int (rshift_rne (nat \<bar>fst x\<bar>) k), snd x + int k))"

definition fl_of_int :: "nat \<Rightarrow> int \<Rightarrow> fl" where
  "fl_of_int p i = fl_round p (i, 0)"

definition fl_mul :: "nat \<Rightarrow> fl \<Rightarrow> fl \<Rightarrow> fl" where
  "fl_mul p x y = fl_round p (fst x * fst y, snd x + snd y)"

definition fl_add :: "nat \<Rightarrow> fl \<Rightarrow> fl \<Rightarrow> fl" where
  "fl_add p x y =
     (let e = min (snd x) (snd y)
      in fl_round p (fst x * 2 ^ nat (snd x - e) + fst y * 2 ^ nat (snd y - e), e))"

definition fl_trunc :: "fl \<Rightarrow> int" where
  "fl_trunc x =
     (if 0 \<le> snd x then fst x * 2 ^ nat (snd x)
      else sgn (fst x) * (\<bar>fst x\<bar> div 2 ^ nat (- snd x)))"

definition fl_to_int64 :: "fl \<Rightarrow> int" where
  "fl_to_int64 x =
     (let i = fl_trunc x in if MinInt64 \<le> i \<and> i \<le> MaxInt64 then i else MinInt64)"

abbreviation float32 :: nat where "float32 \<equiv> 24"
abbreviation float64 :: nat where "float64 \<equiv> 53"

subsection \<open>Rounding\<close>

lemma rshift_rne_0 [simp]: "rshift_rne m 0 = m"
  by (simp add: rshift_rne_def)

lemma rshift_rne_zero [simp]: "rshift_rne 0 k = 0"
  by (simp add: rshift_rne_def)

lemma floorlog_less: "m < 2 ^ p \<Longrightarrow> floorlog 2 m \<le> p"
  by (simp add: floorlog_leI)

lemma fl_round_exact: "\<bar>fst x\<bar> < 2 ^ p \<Longrightarrow> fl_round p x = x"
proof -
  assume "\<bar>fst x\<bar> < 2 ^ p"
  then have "nat \<bar>fst x\<bar> < 2 ^ p" by (simp add: nat_less_iff)
  then have "floorlog 2 (nat \<bar>fst x\<bar>) - p = 0" by (simp add: floorlog_less)
  then show ?thesis by (simp add: fl_round_def sgn_mult_abs)
qed

lemma fl_round_zero [simp]: "fl_round p (0, e) = (0, e)"
  by (simp add: fl_round_exact)

lemma fst_fl_round_nonneg: "0 \<le> fst x \<Longrightarrow> 0 \<le> fst (fl_round p x)"
  by (simp add: fl_round_def Let_def sgn_if)

lemma fl_trunc_nonneg: "0 \<le> fst x \<Longrightarrow> 0 \<le> fl_trunc x"
  by (simp add: fl_trunc_def sgn_if pos_imp_zdiv_nonneg_iff)

lemma rshift_rne_mono:
  assumes "m \<le> m'"
  shows "rshift_rne m k \<le> rshift_rne m' k"
proof -
  define d where "d = (2 :: nat) ^ k"
  have d: "0 < d" by (simp add: d_def)
  have le: "m div d \<le> m' div d" using assms by (rule div_le_mono)
  show ?thesis
  proof (cases "m div d = m' div d")
    case True
    have "m mod d \<le> m' mod d"
      using assms True div_mult_mod_eq [of m d] div_mult_mod_eq [of m' d]
      by (metis add_le_cancel_left)
    with True show ?thesis
      by (auto simp: rshift_rne_def Let_def d_def)
  next
    case False
    with le have "m div d + 1 \<le> m' div d" by linarith
    then show ?thesis by (auto simp: rshift_rne_def Let_def d_def)
  qed
qed

text \<open>The integer that a mantissa \<open>m\<close> is rounded to, and its order.\<close>

definition rnd :: "nat \<Rightarrow> nat \<Rightarrow> nat" where
  "rnd p m = (let k = floorlog 2 m - p in rshift_rne m k * 2 ^ k)"

lemma rnd_upper:
  assumes "m < 2 ^ b" and "floorlog 2 m \<le> b"
  shows "rnd p m \<le> 2 ^ b"
proof -
  define k where "k = floorlog 2 m - p"
  have "k \<le> b" using assms(2) by (simp add: k_def)
  have "rshift_rne m k \<le> rshift_rne (2 ^ b) k"
    using assms(1) by (simp add: rshift_rne_mono)
  also have "rshift_rne (2 ^ b) k = 2 ^ (b - k)"
    using \<open>k \<le> b\<close> by (simp add: rshift_rne_def power_diff mod_eq_0_iff_dvd le_imp_power_dvd)
  finally have "rshift_rne m k * 2 ^ k \<le> 2 ^ (b - k) * 2 ^ k" by simp
  also have "\<dots> = 2 ^ b" using \<open>k \<le> b\<close> by (simp flip: power_add)
  finally show ?thesis by (simp add: rnd_def k_def Let_def)
qed

lemma rnd_lower:
  assumes "2 ^ b \<le> m" and "floorlog 2 m = Suc b" and "0 < p"
  shows "2 ^ b \<le> rnd p m"
proof -
  define k where "k = floorlog 2 m - p"
  have "k \<le> b" using assms(2,3) by (simp add: k_def)
  have "2 ^ b = (2::nat) ^ (b - k) * 2 ^ k" using \<open>k \<le> b\<close> by (simp flip: power_add)
  also have "(2::nat) ^ (b - k) = rshift_rne (2 ^ b) k"
    using \<open>k \<le> b\<close> by (simp add: rshift_rne_def power_diff mod_eq_0_iff_dvd le_imp_power_dvd)
  also have "\<dots> * 2 ^ k \<le> rshift_rne m k * 2 ^ k"
    using assms(1) by (simp add: rshift_rne_mono)
  finally show ?thesis by (simp add: rnd_def k_def Let_def)
qed

lemma rnd_mono:
  assumes "m \<le> m'" and "0 < p"
  shows "rnd p m \<le> rnd p m'"
proof (cases "m = 0 \<or> floorlog 2 m = floorlog 2 m'")
  case True
  then show ?thesis
    using assms(1) by (auto simp: rnd_def Let_def rshift_rne_mono)
next
  case False
  then have "0 < m" and "0 < m'" and ne: "floorlog 2 m \<noteq> floorlog 2 m'"
    using assms(1) by auto
  define b where "b = floorlog 2 m' - 1"
  have b': "floorlog 2 m' = Suc b" and lo: "2 ^ b \<le> m'"
    using floorlog_bounds [of m' 2] \<open>0 < m'\<close> by (auto simp: b_def floorlog_def)
  have hi: "floorlog 2 m \<le> b"
    using floorlog_mono [OF assms(1), of 2] ne b' by linarith
  moreover have "m < 2 ^ floorlog 2 m"
    using floorlog_bounds [of m 2] \<open>0 < m\<close> by simp
  then have "m < 2 ^ b"
    using hi by (meson order_less_le_trans power_increasing one_le_numeral)
  ultimately have "rnd p m \<le> 2 ^ b" by (intro rnd_upper)
  also have "\<dots> \<le> rnd p m'" using lo b' assms(2) by (rule rnd_lower)
  finally show ?thesis .
qed

lemma fl_trunc_round:
  assumes "0 \<le> m"
  shows "fl_trunc (fl_round p (m, e)) =
    (if 0 \<le> e then int (rnd p (nat m)) * 2 ^ nat e else int (rnd p (nat m) div 2 ^ nat (- e)))"
proof -
  define k where "k = floorlog 2 (nat m) - p"
  define r where "r = rshift_rne (nat m) k"
  have rd: "fl_round p (m, e) = (int r, e + int k)"
    using assms by (cases "m = 0") (simp_all add: fl_round_def k_def r_def Let_def)
  have rn: "rnd p (nat m) = r * 2 ^ k"
    by (simp add: rnd_def k_def r_def Let_def)
  consider "0 \<le> e" | "e < 0" "0 \<le> e + int k" | "e + int k < 0" by linarith
  then show ?thesis
  proof cases
    case 1
    then have "nat (e + int k) = nat e + k" by (simp add: nat_add_distrib)
    with 1 show ?thesis by (simp add: rd rn fl_trunc_def power_add)
  next
    case 2
    then have k: "k = nat (e + int k) + nat (- e)" by linarith
    have "r * 2 ^ k div 2 ^ nat (- e) = r * 2 ^ nat (e + int k)"
      by (subst k) (simp add: power_add flip: mult.assoc)
    with 2 show ?thesis by (simp add: rd rn fl_trunc_def)
  next
    case 3
    then have k: "nat (- e) = k + nat (- (e + int k))" by linarith
    have "r * 2 ^ k div 2 ^ nat (- e) = r div 2 ^ nat (- (e + int k))"
      by (subst k) (simp add: power_add mult.commute)
    with 3 show ?thesis by (cases "r = 0") (simp_all add: rd rn fl_trunc_def zdiv_int del: minus_add_distrib)
  qed
qed

lemma fl_trunc_round_mono:
  assumes "0 \<le> m" and "m \<le> m'" and "0 < p"
  shows "fl_trunc (fl_round p (m, e)) \<le> fl_trunc (fl_round p (m', e))"
proof -
  have "rnd p (nat m) \<le> rnd p (nat m')"
    using assms by (intro rnd_mono) auto
  then show ?thesis
    using assms by (simp add: fl_trunc_round div_le_mono)
qed

end
