(* ===== verification/GBN_Timeout.thy ===== *)
theory GBN_Timeout
  imports Go_Float GBN_Messages
begin

section \<open>Timeouts (gbn/timeout\_manager.go, gbn/config.go, gbn/backoff\_wait.go)\<close>

text \<open>
  \<^verbatim>\<open>TimeoutBooster\<close> and \<^verbatim>\<open>TimeoutManager\<close> as records, one function per method;
  \<^verbatim>\<open>time.Now()\<close> is the argument \<open>now\<close>. The mutexes make each method one step, so
  they leave no trace here. The functional options of config.go are the functions
  \<open>With\<dots>\<close> on the manager.
\<close>

subsection \<open>TimeoutBooster\<close>

abbreviation Millisecond :: duration where "Millisecond \<equiv> 1000000"
abbreviation Second :: duration where "Second \<equiv> 1000000000"

definition defaultHandshakeTimeout :: duration where
  "defaultHandshakeTimeout = 1000 * Millisecond"
definition defaultResendTimeout :: duration where
  "defaultResendTimeout = 1000 * Millisecond"
definition minimumResendTimeout :: duration where
  "minimumResendTimeout = 1000 * Millisecond"
definition defaultFinSendTimeout :: duration where
  "defaultFinSendTimeout = 1000 * Millisecond"
definition defaultResendMultiplier :: int where
  "defaultResendMultiplier = 5"
definition defaultTimeoutUpdateFrequency :: int where
  "defaultTimeoutUpdateFrequency = 100"
definition defaultBoostPercent :: fl where
  "defaultBoostPercent = (1, - 1)"
definition DefaultSendTimeout :: duration where
  "DefaultSendTimeout = MaxInt64"
definition DefaultRecvTimeout :: duration where
  "DefaultRecvTimeout = MaxInt64"
definition defaultPongMultiplier :: int where
  "defaultPongMultiplier = 3"
definition defaultMaxPongTime :: duration where
  "defaultMaxPongTime = 15 * Second"

lemmas timeout_defaults =
  defaultHandshakeTimeout_def defaultResendTimeout_def minimumResendTimeout_def
  defaultFinSendTimeout_def defaultResendMultiplier_def defaultTimeoutUpdateFrequency_def
  defaultBoostPercent_def DefaultSendTimeout_def DefaultRecvTimeout_def
  defaultPongMultiplier_def defaultMaxPongTime_def

record TimeoutBooster =
  boostPercent :: fl
  boostCount :: int
  originalTimeout :: duration
  withBoostFrequencyLimit :: bool
  lastBoost :: time

definition NewTimeoutBooster :: "duration \<Rightarrow> fl \<Rightarrow> bool \<Rightarrow> TimeoutBooster" where
  "NewTimeoutBooster orig pct limit =
     \<lparr>boostPercent = pct, boostCount = 0, originalTimeout = orig,
      withBoostFrequencyLimit = limit, lastBoost = zero_time\<rparr>"

definition Boost :: "time \<Rightarrow> TimeoutBooster \<Rightarrow> TimeoutBooster" where
  "Boost now b =
     (if withBoostFrequencyLimit b \<and> time_sub now (lastBoost b) < originalTimeout b then b
      else b\<lparr>lastBoost := now, boostCount := boostCount b + 1\<rparr>)"

definition Reset :: "time \<Rightarrow> duration \<Rightarrow> TimeoutBooster \<Rightarrow> TimeoutBooster" where
  "Reset now newTimeout b =
     (let b' = b\<lparr>boostCount := 0, originalTimeout := newTimeout\<rparr>
      in if withBoostFrequencyLimit b' then b'\<lparr>lastBoost := now\<rparr> else b')"

definition boost_increase :: "TimeoutBooster \<Rightarrow> duration" where
  "boost_increase b =
     fl_to_int64 (fl_mul float32
       (fl_mul float32 (fl_of_int float32 (originalTimeout b)) (boostPercent b))
       (fl_of_int float32 (boostCount b)))"

definition GetCurrentTimeout :: "TimeoutBooster \<Rightarrow> duration" where
  "GetCurrentTimeout b = int64 (originalTimeout b + boost_increase b)"

subsection \<open>TimeoutManager\<close>

record TimeoutManager =
  useStaticTimeout :: bool
  hasSetDynamicTimeout :: bool
  resendTimeout :: duration
  resendMultiplier :: int
  latestSentSYNTime :: time
  resendBooster :: TimeoutBooster
  resendBoostPercent :: fl
  handshakeBooster :: TimeoutBooster
  handshakeBoostPercent :: fl
  handshakeTimeout :: duration
  finSendTimeout :: duration
  sendTimeout :: duration
  recvTimeout :: duration
  pingTime :: duration
  pongTime :: duration
  dynamicPongTime :: bool
  pongMultiplier :: int
  maxPongTime :: duration
  smoothedRTT :: duration
  rttInitialized :: bool
  responseCounter :: int
  timeoutUpdateFrequency :: int
  sentTimes :: "u8 \<rightharpoonup> time"

subsection \<open>The options of config.go\<close>

definition WithStaticResendTimeout :: "duration \<Rightarrow> TimeoutManager \<Rightarrow> TimeoutManager" where
  "WithStaticResendTimeout timeout m = m\<lparr>useStaticTimeout := True, resendTimeout := timeout\<rparr>"

definition WithResendMultiplier :: "int \<Rightarrow> TimeoutManager \<Rightarrow> TimeoutManager" where
  "WithResendMultiplier multiplier m =
     (if multiplier > 0 then m\<lparr>resendMultiplier := multiplier\<rparr> else m)"

definition WithTimeoutUpdateFrequency :: "int \<Rightarrow> TimeoutManager \<Rightarrow> TimeoutManager" where
  "WithTimeoutUpdateFrequency frequency m =
     (if frequency > 0 then m\<lparr>timeoutUpdateFrequency := frequency\<rparr> else m)"

definition WithHandshakeTimeout :: "duration \<Rightarrow> TimeoutManager \<Rightarrow> TimeoutManager" where
  "WithHandshakeTimeout timeout m = m\<lparr>handshakeTimeout := timeout\<rparr>"

definition WithKeepalivePing :: "duration \<Rightarrow> duration \<Rightarrow> TimeoutManager \<Rightarrow> TimeoutManager" where
  "WithKeepalivePing ping pong m = m\<lparr>pingTime := ping, pongTime := pong\<rparr>"

definition WithBoostPercent :: "fl \<Rightarrow> TimeoutManager \<Rightarrow> TimeoutManager" where
  "WithBoostPercent pct m =
     (if fst pct > 0 then m\<lparr>resendBoostPercent := pct, handshakeBoostPercent := pct\<rparr> else m)"

definition WithDynamicPongTimeout :: "int \<Rightarrow> duration \<Rightarrow> TimeoutManager \<Rightarrow> TimeoutManager" where
  "WithDynamicPongTimeout mult maxPong m =
     (let m1 = m\<lparr>dynamicPongTime := True\<rparr>;
          m2 = (if mult > 0 then m1\<lparr>pongMultiplier := mult\<rparr> else m1)
      in if maxPong > 0 then m2\<lparr>maxPongTime := maxPong\<rparr> else m2)"

text \<open>
  The manager as \<^verbatim>\<open>NewTimeOutManager\<close> fills it before it applies the options. The two
  boosters are nil pointers there and are built after the options have run; no option
  reads them.
\<close>

definition default_manager :: TimeoutManager where
  "default_manager =
     \<lparr>useStaticTimeout = False, hasSetDynamicTimeout = False,
      resendTimeout = defaultResendTimeout, resendMultiplier = defaultResendMultiplier,
      latestSentSYNTime = zero_time,
      resendBooster = NewTimeoutBooster 0 (0, 0) False,
      resendBoostPercent = defaultBoostPercent,
      handshakeBooster = NewTimeoutBooster 0 (0, 0) False,
      handshakeBoostPercent = defaultBoostPercent,
      handshakeTimeout = defaultHandshakeTimeout,
      finSendTimeout = defaultFinSendTimeout,
      sendTimeout = DefaultSendTimeout, recvTimeout = DefaultRecvTimeout,
      pingTime = 0, pongTime = 0, dynamicPongTime = False,
      pongMultiplier = defaultPongMultiplier, maxPongTime = defaultMaxPongTime,
      smoothedRTT = 0, rttInitialized = False, responseCounter = 0,
      timeoutUpdateFrequency = defaultTimeoutUpdateFrequency,
      sentTimes = Map.empty\<rparr>"

definition NewTimeOutManager :: "(TimeoutManager \<Rightarrow> TimeoutManager) list \<Rightarrow> TimeoutManager" where
  "NewTimeOutManager opts =
     (let m = fold (\<lambda>opt m. opt m) opts default_manager
      in m\<lparr>resendBooster := NewTimeoutBooster (resendTimeout m) (resendBoostPercent m) True,
           handshakeBooster :=
             NewTimeoutBooster (handshakeTimeout m) (handshakeBoostPercent m) False\<rparr>)"

subsection \<open>Sent and Received\<close>

definition Sent :: "time \<Rightarrow> Message \<Rightarrow> bool \<Rightarrow> TimeoutManager \<Rightarrow> TimeoutManager" where
  "Sent now msg resent m =
     (if useStaticTimeout m then m
      else case msg of
        PacketSYN n \<Rightarrow>
          (if \<not> resent then m\<lparr>latestSentSYNTime := now\<rparr>
           else m\<lparr>latestSentSYNTime := zero_time,
                  handshakeBooster := Boost now (handshakeBooster m)\<rparr>)
      | Data p \<Rightarrow>
          (if resent then
             m\<lparr>sentTimes := (sentTimes m)(Seq p := None),
               resendBooster := Boost now (resendBooster m)\<rparr>
           else m\<lparr>sentTimes := (sentTimes m)(Seq p \<mapsto> now)\<rparr>)
      | _ \<Rightarrow> m)"

definition updateSmoothedRTT :: "duration \<Rightarrow> TimeoutManager \<Rightarrow> TimeoutManager" where
  "updateSmoothedRTT rtt m =
     (if \<not> rttInitialized m then m\<lparr>smoothedRTT := rtt, rttInitialized := True\<rparr>
      else m\<lparr>smoothedRTT := fl_to_int64 (fl_add float64
               (fl_mul float64 (1, - 2) (fl_of_int float64 rtt))
               (fl_mul float64 (3, - 2) (fl_of_int float64 (smoothedRTT m))))\<rparr>)"

definition updateResendTimeoutUnsafe ::
    "time \<Rightarrow> duration \<Rightarrow> TimeoutManager \<Rightarrow> TimeoutManager" where
  "updateResendTimeoutUnsafe now responseTime m =
     (let multiplied = int64 (resendMultiplier m * responseTime);
          multipliedTimeout =
            (if multiplied < minimumResendTimeout then minimumResendTimeout else multiplied)
      in m\<lparr>hasSetDynamicTimeout := True, resendTimeout := multipliedTimeout,
           resendBooster := Reset now multipliedTimeout (resendBooster m)\<rparr>)"

definition received_syn :: "time \<Rightarrow> TimeoutManager \<Rightarrow> TimeoutManager" where
  "received_syn now m =
     (if latestSentSYNTime m = zero_time then m
      else let responseTime = time_sub now (latestSentSYNTime m)
           in updateResendTimeoutUnsafe now responseTime
                (updateSmoothedRTT responseTime (m\<lparr>latestSentSYNTime := zero_time\<rparr>)))"

definition received_ack :: "time \<Rightarrow> u8 \<Rightarrow> TimeoutManager \<Rightarrow> TimeoutManager" where
  "received_ack now seq m =
     (case sentTimes m seq of
        None \<Rightarrow> m
      | Some sentTime \<Rightarrow>
          let responseTime = time_sub now sentTime;
              m1 = updateSmoothedRTT responseTime (m\<lparr>sentTimes := (sentTimes m)(seq := None)\<rparr>);
              m2 = m1\<lparr>responseCounter := responseCounter m1 + 1\<rparr>;
              reachedFrequency = (responseCounter m2 mod timeoutUpdateFrequency m2 = 0)
          in if \<not> hasSetDynamicTimeout m2 \<or> reachedFrequency then
               updateResendTimeoutUnsafe now responseTime (m2\<lparr>responseCounter := 0\<rparr>)
             else m2)"

definition Received :: "time \<Rightarrow> Message \<Rightarrow> TimeoutManager \<Rightarrow> TimeoutManager" where
  "Received now msg m =
     (if useStaticTimeout m then m
      else case msg of
        PacketSYN n \<Rightarrow> received_syn now m
      | PacketSYNACK \<Rightarrow> received_syn now m
      | PacketACK seq \<Rightarrow> received_ack now seq m
      | _ \<Rightarrow> m)"

subsection \<open>The getters and setters\<close>

definition GetResendTimeout :: "TimeoutManager \<Rightarrow> duration" where
  "GetResendTimeout m = GetCurrentTimeout (resendBooster m)"

definition GetHandshakeTimeout :: "TimeoutManager \<Rightarrow> duration" where
  "GetHandshakeTimeout m = GetCurrentTimeout (handshakeBooster m)"

definition GetFinSendTimeout :: "TimeoutManager \<Rightarrow> duration" where
  "GetFinSendTimeout m = finSendTimeout m"

definition GetSendTimeout :: "TimeoutManager \<Rightarrow> duration" where
  "GetSendTimeout m = sendTimeout m"

definition GetRecvTimeout :: "TimeoutManager \<Rightarrow> duration" where
  "GetRecvTimeout m = recvTimeout m"

definition GetPingTime :: "TimeoutManager \<Rightarrow> duration" where
  "GetPingTime m = (if pingTime m = 0 then MaxInt64 else pingTime m)"

definition GetPongTime :: "TimeoutManager \<Rightarrow> duration" where
  "GetPongTime m =
     (if pongTime m = 0 then MaxInt64
      else if \<not> dynamicPongTime m \<or> \<not> rttInitialized m then pongTime m
      else
        let d0 = int64 (pongMultiplier m * smoothedRTT m);
            d1 = (if d0 < pongTime m then pongTime m else d0);
            d2 = (if maxPongTime m > 0 \<and> d1 > maxPongTime m then maxPongTime m else d1)
        in if pingTime m > 0 \<and> d2 > pingTime m then pingTime m else d2)"

definition GetSmoothedRTT :: "TimeoutManager \<Rightarrow> duration" where
  "GetSmoothedRTT m = smoothedRTT m"

definition GetLatestRTT :: "TimeoutManager \<Rightarrow> duration" where
  "GetLatestRTT m = GetSmoothedRTT m"

definition SetSendTimeout :: "duration \<Rightarrow> TimeoutManager \<Rightarrow> TimeoutManager" where
  "SetSendTimeout timeout m = m\<lparr>sendTimeout := timeout\<rparr>"

definition SetRecvTimeout :: "duration \<Rightarrow> TimeoutManager \<Rightarrow> TimeoutManager" where
  "SetRecvTimeout timeout m = m\<lparr>recvTimeout := timeout\<rparr>"

subsection \<open>BackoffWaiter\<close>

record BackoffWaiter =
  currentBackoff :: duration
  minBackoff :: duration
  maxBackoff :: duration

definition NewBackoffWaiter :: "duration \<Rightarrow> duration \<Rightarrow> duration \<Rightarrow> BackoffWaiter" where
  "NewBackoffWaiter init lo hi = \<lparr>currentBackoff = init, minBackoff = lo, maxBackoff = hi\<rparr>"

text \<open>\<^verbatim>\<open>Wait\<close> sleeps for the current backoff (the first component) and computes the next.\<close>

definition Wait :: "BackoffWaiter \<Rightarrow> duration \<times> BackoffWaiter" where
  "Wait b =
     (currentBackoff b,
      if currentBackoff b < minBackoff b then b\<lparr>currentBackoff := minBackoff b\<rparr>
      else if currentBackoff b < maxBackoff b then
        (let c = int64 (currentBackoff b * 2)
         in b\<lparr>currentBackoff := (if c > maxBackoff b then maxBackoff b else c)\<rparr>)
      else b)"

subsection \<open>The boosted timeout\<close>

lemma boost_increase_no_boost [simp]: "boostCount b = 0 \<Longrightarrow> boost_increase b = 0"
  by (simp add: boost_increase_def fl_of_int_def fl_mul_def fl_to_int64_def fl_trunc_def)

lemma fl_of_int_nonneg: "0 \<le> i \<Longrightarrow> 0 \<le> fst (fl_of_int p i)"
  by (simp add: fl_of_int_def fst_fl_round_nonneg)

lemma fl_mul_nonneg: "0 \<le> fst x \<Longrightarrow> 0 \<le> fst y \<Longrightarrow> 0 \<le> fst (fl_mul p x y)"
  by (simp add: fl_mul_def fst_fl_round_nonneg)

text \<open>
  The increase before its conversion to an \<^verbatim>\<open>int64\<close>: with at most \<open>2 ^ 24\<close> boosts the
  count is exact, so the increase is the truncated, rounded multiple of a fixed step.
\<close>

definition boost_step :: "TimeoutBooster \<Rightarrow> fl" where
  "boost_step b = fl_mul float32 (fl_of_int float32 (originalTimeout b)) (boostPercent b)"

definition boost_raw :: "TimeoutBooster \<Rightarrow> int \<Rightarrow> int" where
  "boost_raw b k = fl_trunc (fl_round float32 (fst (boost_step b) * k, snd (boost_step b)))"

lemma boost_increase_raw:
  assumes "0 \<le> boostCount b" and "boostCount b < 2 ^ 24"
  shows "boost_increase b =
    (if MinInt64 \<le> boost_raw b (boostCount b) \<and> boost_raw b (boostCount b) \<le> MaxInt64
     then boost_raw b (boostCount b) else MinInt64)"
proof -
  have "fl_of_int float32 (boostCount b) = (boostCount b, 0)"
    using assms by (simp add: fl_of_int_def fl_round_exact)
  then show ?thesis
    by (simp add: boost_increase_def boost_raw_def boost_step_def fl_mul_def fl_to_int64_def Let_def)
qed

lemma boost_step_nonneg:
  "0 \<le> originalTimeout b \<Longrightarrow> 0 \<le> fst (boostPercent b) \<Longrightarrow> 0 \<le> fst (boost_step b)"
  by (simp add: boost_step_def fl_mul_nonneg fl_of_int_nonneg)

lemma boost_raw_mono:
  assumes "0 \<le> fst (boost_step b)" and "0 \<le> k" and "k \<le> k'"
  shows "boost_raw b k \<le> boost_raw b k'"
  using assms unfolding boost_raw_def
  by (intro fl_trunc_round_mono) (auto intro: mult_left_mono)

lemma boost_raw_0 [simp]: "boost_raw b 0 = 0"
  by (simp add: boost_raw_def fl_trunc_def)

lemma boost_raw_nonneg: "0 \<le> fst (boost_step b) \<Longrightarrow> 0 \<le> k \<Longrightarrow> 0 \<le> boost_raw b k"
  using boost_raw_mono [of b 0 k] by simp

definition boost_in_range :: "TimeoutBooster \<Rightarrow> int \<Rightarrow> bool" where
  "boost_in_range b k \<longleftrightarrow>
     0 \<le> originalTimeout b \<and> 0 \<le> fst (boostPercent b) \<and> 0 \<le> k \<and> k < 2 ^ 24 \<and>
     originalTimeout b + boost_raw b k \<le> MaxInt64"

lemma GetCurrentTimeout_in_range:
  assumes "boost_in_range b (boostCount b)"
  shows "GetCurrentTimeout b = originalTimeout b + boost_raw b (boostCount b)"
proof -
  have "0 \<le> boost_raw b (boostCount b)"
    using assms by (auto simp: boost_in_range_def intro: boost_raw_nonneg boost_step_nonneg)
  then show ?thesis
    using assms by (simp add: GetCurrentTimeout_def boost_increase_raw boost_in_range_def int64_id)
qed

lemma boost_raw_count [simp]:
  "boost_raw (b\<lparr>boostCount := c\<rparr>) k = boost_raw b k"
  "boost_raw (b\<lparr>lastBoost := t\<rparr>) k = boost_raw b k"
  by (simp_all add: boost_raw_def boost_step_def)

lemma GetCurrentTimeout_ge_original:
  "boost_in_range b (boostCount b) \<Longrightarrow> originalTimeout b \<le> GetCurrentTimeout b"
  by (simp add: GetCurrentTimeout_in_range)
     (auto simp: boost_in_range_def intro: boost_raw_nonneg boost_step_nonneg)

lemma GetCurrentTimeout_Boost_le:
  assumes "boost_in_range b (boostCount b + 1)" and "0 \<le> boostCount b"
  shows "boost_in_range b (boostCount b) \<and> GetCurrentTimeout b \<le> GetCurrentTimeout (Boost now b)"
proof -
  have mono: "boost_raw b (boostCount b) \<le> boost_raw b (boostCount b + 1)"
    using assms by (auto simp: boost_in_range_def intro: boost_raw_mono boost_step_nonneg)
  then have r: "boost_in_range b (boostCount b)"
    using assms by (auto simp: boost_in_range_def)
  have r': "boost_in_range (b\<lparr>lastBoost := now, boostCount := boostCount b + 1\<rparr>) (boostCount b + 1)"
    using assms by (simp add: boost_in_range_def)
  show ?thesis
    using r GetCurrentTimeout_in_range [OF r] mono
      GetCurrentTimeout_in_range [of "b\<lparr>lastBoost := now, boostCount := boostCount b + 1\<rparr>"] r'
    by (simp add: Boost_def)
qed

text \<open>
  A boost never shortens a timeout, although the boost is computed in \<^verbatim>\<open>float32\<close>
  with rounding; the timeout is never below the original one and equals it when no boost
  was applied. (In range: fewer than \<open>2 ^ 24\<close> boosts and no \<^verbatim>\<open>int64\<close> overflow.)
\<close>

theorem Boost_mono:
  assumes "boost_in_range b (boostCount b + 1)" and "0 \<le> boostCount b"
  shows "originalTimeout b \<le> GetCurrentTimeout b \<and>
         GetCurrentTimeout b \<le> GetCurrentTimeout (Boost now b) \<and>
         GetCurrentTimeout (Reset now d b) = int64 d"
proof -
  have "GetCurrentTimeout (Reset now d b) = int64 d"
    by (simp add: GetCurrentTimeout_def Reset_def Let_def)
  with GetCurrentTimeout_Boost_le [OF assms] show ?thesis
    by (auto intro: GetCurrentTimeout_ge_original)
qed

lemma Boost_recent:
  assumes "withBoostFrequencyLimit b" and "lastBoost b \<le> now" and "now - lastBoost b < originalTimeout b"
    and "originalTimeout b \<le> MaxInt64"
  shows "Boost now b = b"
  using assms by (auto simp: Boost_def time_sub_def)

lemma fold_Boost_recent:
  assumes "withBoostFrequencyLimit b" and "originalTimeout b \<le> MaxInt64"
    and "\<forall>t \<in> set ts. lastBoost b \<le> t \<and> t - lastBoost b < originalTimeout b"
  shows "fold Boost ts b = b"
  using assms(3) by (induction ts) (simp_all add: Boost_recent assms(1,2))

text \<open>
  With the frequency limit, the boosts of a resent range count once: any number of
  calls within one original timeout raise the boost count by at most one.
\<close>

theorem Boost_once_per_timeout:
  assumes "withBoostFrequencyLimit b" and "originalTimeout b \<le> MaxInt64"
    and "sorted ts" and "\<forall>t \<in> set ts. t0 \<le> t \<and> t - t0 < originalTimeout b"
  shows "boostCount (fold Boost ts b) \<le> boostCount b + 1"
  using assms(3,4)
proof (induction ts)
  case Nil
  then show ?case by simp
next
  case (Cons t ts)
  show ?case
  proof (cases "Boost t b = b")
    case True
    with Cons show ?thesis by simp
  next
    case False
    then have eq: "Boost t b = b\<lparr>lastBoost := t, boostCount := boostCount b + 1\<rparr>"
      by (auto simp: Boost_def)
    have "fold Boost ts (Boost t b) = Boost t b"
      using Cons.prems assms(1,2) by (intro fold_Boost_recent) (auto simp: eq)
    then show ?thesis by (simp add: eq)
  qed
qed

subsection \<open>The manager's invariant\<close>

text \<open>
  What every call keeps: the counters are in range, the resend booster boosts the current
  resend timeout, and that timeout is at least the minimum.
\<close>

definition manager_core :: "TimeoutManager \<Rightarrow> bool" where
  "manager_core m \<longleftrightarrow>
     0 < timeoutUpdateFrequency m \<and> 0 < resendMultiplier m \<and> 0 < pongMultiplier m \<and>
     0 \<le> responseCounter m \<and> responseCounter m < timeoutUpdateFrequency m \<and>
     0 \<le> fst (boostPercent (resendBooster m)) \<and> withBoostFrequencyLimit (resendBooster m)"

definition manager_inv :: "TimeoutManager \<Rightarrow> bool" where
  "manager_inv m \<longleftrightarrow> manager_core m \<and>
     originalTimeout (resendBooster m) = resendTimeout m \<and>
     minimumResendTimeout \<le> resendTimeout m \<and> resendTimeout m \<le> MaxInt64 \<and>
     0 \<le> boostCount (resendBooster m)"

lemma Boost_fields [simp]:
  "originalTimeout (Boost now b) = originalTimeout b"
  "boostPercent (Boost now b) = boostPercent b"
  "withBoostFrequencyLimit (Boost now b) = withBoostFrequencyLimit b"
  by (simp_all add: Boost_def)

lemma Boost_count: "boostCount (Boost now b) \<in> {boostCount b, boostCount b + 1}"
  by (simp add: Boost_def)

lemma Boost_count_nonneg: "0 \<le> boostCount b \<Longrightarrow> 0 \<le> boostCount (Boost now b)"
  by (simp add: Boost_def)

lemma Reset_fields [simp]:
  "originalTimeout (Reset now d b) = d"
  "boostPercent (Reset now d b) = boostPercent b"
  "boostCount (Reset now d b) = 0"
  "withBoostFrequencyLimit (Reset now d b) = withBoostFrequencyLimit b"
  by (simp_all add: Reset_def Let_def)

lemma Sent_inv: "manager_inv m \<Longrightarrow> manager_inv (Sent now msg resent m)"
  by (auto simp: Sent_def manager_inv_def manager_core_def Boost_count_nonneg split: Message.splits)

lemma updateSmoothedRTT_inv [simp]: "manager_inv (updateSmoothedRTT rtt m) = manager_inv m"
  by (simp add: updateSmoothedRTT_def manager_inv_def manager_core_def)

lemma updateSmoothedRTT_fields [simp]:
  "responseCounter (updateSmoothedRTT rtt m) = responseCounter m"
  "timeoutUpdateFrequency (updateSmoothedRTT rtt m) = timeoutUpdateFrequency m"
  "hasSetDynamicTimeout (updateSmoothedRTT rtt m) = hasSetDynamicTimeout m"
  "useStaticTimeout (updateSmoothedRTT rtt m) = useStaticTimeout m"
  "sentTimes (updateSmoothedRTT rtt m) = sentTimes m"
  by (simp_all add: updateSmoothedRTT_def)

lemma updateSmoothedRTT_core [simp]: "manager_core (updateSmoothedRTT rtt m) = manager_core m"
  by (simp add: updateSmoothedRTT_def manager_core_def)

lemma updateResendTimeoutUnsafe_inv:
  "manager_core m \<Longrightarrow> manager_inv (updateResendTimeoutUnsafe now d m)"
  using int64_range [of "resendMultiplier m * d"]
  by (auto simp: updateResendTimeoutUnsafe_def manager_inv_def manager_core_def Let_def
      minimumResendTimeout_def)

lemma received_syn_inv: "manager_inv m \<Longrightarrow> manager_inv (received_syn now m)"
  unfolding received_syn_def Let_def
  by (auto intro!: updateResendTimeoutUnsafe_inv) (auto simp: manager_inv_def manager_core_def)

lemma received_ack_inv:
  assumes "manager_inv m"
  shows "manager_inv (received_ack now seq m)"
proof (cases "sentTimes m seq")
  case None
  with assms show ?thesis by (simp add: received_ack_def)
next
  case (Some t)
  have "responseCounter m + 1 < timeoutUpdateFrequency m"
    if "(responseCounter m + 1) mod timeoutUpdateFrequency m \<noteq> 0"
  proof (rule ccontr)
    assume "\<not> ?thesis"
    with assms have "responseCounter m + 1 = timeoutUpdateFrequency m"
      by (auto simp: manager_inv_def manager_core_def)
    with that show False by simp
  qed
  with assms Some show ?thesis
    unfolding received_ack_def Let_def
    by (auto intro!: updateResendTimeoutUnsafe_inv)
       (auto simp: manager_inv_def manager_core_def updateSmoothedRTT_def)
qed

lemma Received_inv: "manager_inv m \<Longrightarrow> manager_inv (Received now msg m)"
  by (auto simp: Received_def received_syn_inv received_ack_inv split: Message.splits)

subsection \<open>Runs of the manager\<close>

datatype manager_call = CallSent time Message bool | CallReceived time Message

fun manager_calls :: "manager_call list \<Rightarrow> TimeoutManager \<Rightarrow> TimeoutManager" where
  "manager_calls [] m = m"
| "manager_calls (CallSent now msg resent # cs) m = manager_calls cs (Sent now msg resent m)"
| "manager_calls (CallReceived now msg # cs) m = manager_calls cs (Received now msg m)"

lemma manager_calls_inv: "manager_inv m \<Longrightarrow> manager_inv (manager_calls cs m)"
  by (induction cs m rule: manager_calls.induct) (simp_all add: Sent_inv Received_inv)

text \<open>
  The options a caller can pass, except \<^verbatim>\<open>WithStaticResendTimeout\<close>, which switches the
  dynamic timeout off.
\<close>

inductive dynamic_option :: "(TimeoutManager \<Rightarrow> TimeoutManager) \<Rightarrow> bool" where
  "dynamic_option (WithResendMultiplier k)"
| "dynamic_option (WithTimeoutUpdateFrequency k)"
| "dynamic_option (WithHandshakeTimeout d)"
| "dynamic_option (WithKeepalivePing d d')"
| "dynamic_option (WithBoostPercent pct)"
| "dynamic_option (WithDynamicPongTimeout k d)"

lemmas timeout_options =
  WithResendMultiplier_def WithTimeoutUpdateFrequency_def WithHandshakeTimeout_def
  WithKeepalivePing_def WithBoostPercent_def WithDynamicPongTimeout_def
  WithStaticResendTimeout_def

definition options_ok :: "TimeoutManager \<Rightarrow> bool" where
  "options_ok m \<longleftrightarrow>
     0 < timeoutUpdateFrequency m \<and> 0 < resendMultiplier m \<and> 0 < pongMultiplier m \<and>
     responseCounter m = 0 \<and> resendTimeout m = defaultResendTimeout \<and>
     0 < fst (resendBoostPercent m) \<and> \<not> useStaticTimeout m"

lemma dynamic_option_ok: "dynamic_option opt \<Longrightarrow> options_ok m \<Longrightarrow> options_ok (opt m)"
  by (induction rule: dynamic_option.induct) (auto simp: options_ok_def timeout_options Let_def)

lemma fold_options_ok:
  "\<forall>opt \<in> set opts. dynamic_option opt \<Longrightarrow> options_ok m \<Longrightarrow> options_ok (fold (\<lambda>opt m. opt m) opts m)"
  by (induction opts arbitrary: m) (auto simp: dynamic_option_ok)

lemma default_manager_ok: "options_ok default_manager"
  by (simp add: options_ok_def default_manager_def timeout_defaults)

lemma NewTimeOutManager_inv:
  assumes "\<forall>opt \<in> set opts. dynamic_option opt"
  shows "manager_inv (NewTimeOutManager opts)"
  using fold_options_ok [OF assms default_manager_ok]
  by (auto simp: NewTimeOutManager_def manager_inv_def manager_core_def options_ok_def Let_def
      NewTimeoutBooster_def timeout_defaults)

text \<open>
  C29: whatever dynamic options are set and whatever packets are then sent and received,
  the resend timeout never falls below the minimum of one second, the response counter
  stays below the update frequency, and the booster works on the current timeout.
\<close>

theorem resend_timeout_floor:
  assumes "\<forall>opt \<in> set opts. dynamic_option opt"
    and "m = manager_calls cs (NewTimeOutManager opts)"
  shows "minimumResendTimeout \<le> resendTimeout m \<and>
         originalTimeout (resendBooster m) = resendTimeout m \<and>
         0 \<le> responseCounter m \<and> responseCounter m < timeoutUpdateFrequency m \<and>
         (boost_in_range (resendBooster m) (boostCount (resendBooster m)) \<longrightarrow>
            minimumResendTimeout \<le> GetResendTimeout m)"
proof -
  have inv: "manager_inv m"
    using assms by (simp add: manager_calls_inv NewTimeOutManager_inv)
  then have "minimumResendTimeout \<le> GetResendTimeout m"
    if "boost_in_range (resendBooster m) (boostCount (resendBooster m))"
    using GetCurrentTimeout_ge_original [OF that] by (simp add: GetResendTimeout_def manager_inv_def)
  with inv show ?thesis by (simp add: manager_inv_def manager_core_def)
qed

theorem resend_timeout_floor_witness:
  "resendTimeout (manager_calls
       [CallSent 1 (PacketSYN 20) False, CallReceived (2 * Second + 1) (PacketSYN 20)]
       (NewTimeOutManager [WithResendMultiplier 5])) = 10 * Second \<and>
   minimumResendTimeout \<le> resendTimeout (manager_calls
       [CallSent 1 (PacketSYN 20) False, CallReceived (2 * Second + 1) (PacketSYN 20)]
       (NewTimeOutManager [WithResendMultiplier 5]))"
proof -
  have "\<forall>opt \<in> set [WithResendMultiplier 5]. dynamic_option opt"
    by (simp add: dynamic_option.intros)
  from resend_timeout_floor [OF this refl,
      of "[CallSent 1 (PacketSYN 20) False, CallReceived (2 * Second + 1) (PacketSYN 20)]"]
  show ?thesis
    by (simp add: NewTimeOutManager_def default_manager_def timeout_defaults timeout_options
        Sent_def Received_def received_syn_def updateSmoothedRTT_def updateResendTimeoutUnsafe_def
        time_sub_def int64_def Let_def)
qed

subsection \<open>Karn's rule\<close>

text \<open>The calls that record a new send time for a sequence number.\<close>

fun fresh_send :: "u8 \<Rightarrow> manager_call \<Rightarrow> bool" where
  "fresh_send seq (CallSent now (Data p) False) = (Seq p = seq)"
| "fresh_send seq c = False"

lemma sentTimes_updates [simp]:
  "sentTimes (updateResendTimeoutUnsafe now d m) = sentTimes m"
  "sentTimes (received_syn now m) = sentTimes m"
  by (simp_all add: updateResendTimeoutUnsafe_def received_syn_def Let_def)

lemma Received_no_sent_time:
  "sentTimes m seq = None \<Longrightarrow> sentTimes (Received now msg m) seq = None"
  by (cases msg) (auto simp: Received_def received_ack_def Let_def split: option.splits)

lemma Sent_no_sent_time:
  "sentTimes m seq = None \<Longrightarrow> \<not> fresh_send seq (CallSent now msg resent) \<Longrightarrow>
     sentTimes (Sent now msg resent m) seq = None"
  by (cases msg; cases resent) (auto simp: Sent_def)

lemma manager_calls_no_sent_time:
  "sentTimes m seq = None \<Longrightarrow> \<forall>c \<in> set cs. \<not> fresh_send seq c \<Longrightarrow>
     sentTimes (manager_calls cs m) seq = None"
  by (induction cs m rule: manager_calls.induct)
     (simp_all add: Received_no_sent_time Sent_no_sent_time)

text \<open>
  An acknowledgement of a packet that was resent is never measured: it changes nothing,
  however much later it arrives, until the sequence number is used for a new packet. The
  same holds for the answer to a resent SYN.
\<close>

theorem resent_not_measured:
  assumes "\<not> useStaticTimeout m"
    and "\<forall>c \<in> set cs. \<not> fresh_send (Seq p) c"
    and "m' = manager_calls cs (Sent now (Data p) True m)"
  shows "Received now' (PacketACK (Seq p)) m' = m' \<and>
         Received now' (PacketSYN n') (Sent now (PacketSYN n) True m) = Sent now (PacketSYN n) True m \<and>
         Received now' PacketSYNACK (Sent now (PacketSYN n) True m) = Sent now (PacketSYN n) True m"
proof -
  have "sentTimes m' (Seq p) = None"
    using assms by (simp add: manager_calls_no_sent_time Sent_def)
  then show ?thesis
    using assms(1) by (auto simp: Received_def received_ack_def Sent_def received_syn_def)
qed

subsection \<open>The smoothed round-trip time and the pong timeout\<close>

lemma fl_round53_exact: "0 \<le> i \<Longrightarrow> i < 2 ^ 53 \<Longrightarrow> fl_round float64 (i, e) = (i, e)"
  by (simp add: fl_round_exact)

text \<open>
  The smoothed round-trip time is the exponentially weighted average with weight 1/4,
  rounded down: the \<^verbatim>\<open>float64\<close> computation is exact for any round trip below
  \<open>2 ^ 51\<close> nanoseconds (26 days). It therefore stays between the old value and the sample.
\<close>

theorem smoothedRTT_ewma:
  assumes "rttInitialized m" and "0 \<le> rtt" and "rtt < 2 ^ 51"
    and "0 \<le> smoothedRTT m" and "smoothedRTT m < 2 ^ 51"
  shows "smoothedRTT (updateSmoothedRTT rtt m) = (rtt + 3 * smoothedRTT m) div 4 \<and>
         min rtt (smoothedRTT m) \<le> smoothedRTT (updateSmoothedRTT rtt m) \<and>
         smoothedRTT (updateSmoothedRTT rtt m) \<le> max rtt (smoothedRTT m)"
proof -
  have s: "rtt + 3 * smoothedRTT m < 2 ^ 53" using assms by simp
  have "fl_add float64 (rtt, - 2) (3 * smoothedRTT m, - 2) = (rtt + 3 * smoothedRTT m, - 2)"
    using assms s by (simp add: fl_add_def fl_round53_exact)
  then have "smoothedRTT (updateSmoothedRTT rtt m) = fl_to_int64 (rtt + 3 * smoothedRTT m, - 2)"
    using assms by (simp add: updateSmoothedRTT_def fl_mul_def fl_of_int_def fl_round53_exact)
  also have "\<dots> = (rtt + 3 * smoothedRTT m) div 4"
    using assms s by (auto simp: fl_to_int64_def fl_trunc_def sgn_if Let_def)
  finally show ?thesis by auto
qed

text \<open>
  C30: the dynamic pong timeout. Once a round trip has been measured it lies between the
  smallest of the base pong time, the maximum and the ping interval, and the ping interval:
  the next ping cannot restart the pong timer before it fires. Without a base pong time the
  timer is disabled (the largest duration).
\<close>

theorem pong_time_bounds:
  assumes "dynamicPongTime m" and "rttInitialized m" and "0 < pongTime m"
    and "0 < pingTime m" and "0 < maxPongTime m"
  shows "GetPongTime m = min (pingTime m) (min (maxPongTime m)
           (max (pongTime m) (int64 (pongMultiplier m * smoothedRTT m)))) \<and>
         GetPongTime m \<le> GetPingTime m \<and>
         min (pongTime m) (min (maxPongTime m) (pingTime m)) \<le> GetPongTime m \<and>
         GetPongTime (m\<lparr>pongTime := 0\<rparr>) = MaxInt64"
  using assms by (auto simp: GetPongTime_def GetPingTime_def Let_def)

theorem pong_time_bounds_witness:
  "GetPongTime ((NewTimeOutManager [WithKeepalivePing (10 * Second) (5 * Second),
      WithDynamicPongTimeout 3 (10 * Second)])\<lparr>rttInitialized := True, smoothedRTT := 9 * Second\<rparr>)
    = 10 * Second"
proof -
  let ?m = "(NewTimeOutManager [WithKeepalivePing (10 * Second) (5 * Second),
      WithDynamicPongTimeout 3 (10 * Second)])\<lparr>rttInitialized := True, smoothedRTT := 9 * Second\<rparr>"
  have "GetPongTime ?m = min (pingTime ?m) (min (maxPongTime ?m)
           (max (pongTime ?m) (int64 (pongMultiplier ?m * smoothedRTT ?m))))"
    using pong_time_bounds [of ?m]
    by (simp add: NewTimeOutManager_def default_manager_def timeout_options Let_def)
  then show ?thesis
    by (simp add: NewTimeOutManager_def default_manager_def timeout_options Let_def int64_def)
qed

lemma static_timeout_fixed:
  "useStaticTimeout m \<Longrightarrow> manager_calls cs m = m"
  by (induction cs m rule: manager_calls.induct) (simp_all add: Sent_def Received_def)

subsection \<open>Backoff\<close>

text \<open>
  After the first wait the backoff stays between the minimum and the maximum, and it
  never shrinks.
\<close>

theorem Wait_bounds:
  assumes "0 \<le> currentBackoff b" and "0 \<le> minBackoff b" and "minBackoff b \<le> maxBackoff b"
    and "currentBackoff b \<le> maxBackoff b" and "2 * maxBackoff b \<le> MaxInt64"
    and "(slept, b') = Wait b"
  shows "slept = currentBackoff b \<and> currentBackoff b \<le> currentBackoff b' \<and>
         minBackoff b \<le> currentBackoff b' \<and> currentBackoff b' \<le> maxBackoff b \<and>
         minBackoff b' = minBackoff b \<and> maxBackoff b' = maxBackoff b"
proof -
  have "int64 (currentBackoff b * 2) = currentBackoff b * 2"
    using assms by (intro int64_id) auto
  with assms show ?thesis by (auto simp: Wait_def Let_def split: if_splits)
qed

end
