(* ===== verification/GBN_Syncer.thy ===== *)
theory GBN_Syncer
  imports GBN_Timeout
begin

section \<open>The syncer (gbn/syncer.go)\<close>

text \<open>
  After a resend the sender waits in \<^verbatim>\<open>waitForSync\<close> until the two parties agree. The
  syncer is shared by three kinds of goroutines: the sender (\<^verbatim>\<open>initResendUpTo\<close>,
  \<^verbatim>\<open>waitForSync\<close>), the receiver (\<^verbatim>\<open>processACK\<close>, \<^verbatim>\<open>processNACK\<close>) and the
  \<^verbatim>\<open>proceedAfterTime\<close> goroutines that \<^verbatim>\<open>processACK\<close> starts. The mutex makes each
  method body one step. The channel \<^verbatim>\<open>cancel\<close> is unbuffered and every send on it is a
  \<^verbatim>\<open>select\<close> with a \<^verbatim>\<open>default\<close>, so a send reaches a goroutine that stands in its
  receiving \<^verbatim>\<open>select\<close> at that moment or nobody. Which goroutine receives, when several
  stand there, is the runtime's choice, the argument of type \<open>receiver\<close>.
\<close>

subsection \<open>State\<close>

datatype syncState = syncStateIdle | syncStateResending

text \<open>Where the sender stands in \<^verbatim>\<open>waitForSync\<close>.\<close>

datatype wait_pc =
    NotWaiting
  | InSelect \<comment> \<open>in the select over quit, cancel and the timer\<close>
  | Resetting \<comment> \<open>past the select, before the call of reset\<close>

record syncer =
  sync_s :: u8
  sync_state :: syncState
  expectedACK :: u8
  expectedNACK :: u8
  sync_quit :: bool
  waiter :: wait_pc
  proceeding :: nat \<comment> \<open>proceedAfterTime goroutines in their select\<close>
  resetting :: nat \<comment> \<open>those that received on cancel and are about to call reset\<close>

datatype receiver = Waiter | Proceeder

definition newSyncer :: "u8 \<Rightarrow> syncer" where
  "newSyncer s = \<lparr>sync_s = s, sync_state = syncStateIdle, expectedACK = 0, expectedNACK = 0,
                  sync_quit = False, waiter = NotWaiting, proceeding = 0, resetting = 0\<rparr>"

subsection \<open>Operations\<close>

text \<open>The non-blocking send on \<^verbatim>\<open>cancel\<close>.\<close>

definition try_cancel :: "receiver \<Rightarrow> syncer \<Rightarrow> syncer" where
  "try_cancel r c =
     (if waiter c = InSelect \<and> (r = Waiter \<or> proceeding c = 0) then c\<lparr>waiter := Resetting\<rparr>
      else if 0 < proceeding c then
        c\<lparr>proceeding := proceeding c - 1, resetting := resetting c + 1\<rparr>
      else c)"

definition resetUnsafe :: "receiver \<Rightarrow> syncer \<Rightarrow> syncer" where
  "resetUnsafe r c = try_cancel r (c\<lparr>sync_state := syncStateIdle\<rparr>)"

definition sync_reset :: "receiver \<Rightarrow> syncer \<Rightarrow> syncer" where
  "sync_reset r c = resetUnsafe r c"

text \<open>
  \<^verbatim>\<open>initResendUpTo\<close>. Draining \<^verbatim>\<open>cancel\<close> does nothing: no goroutine ever blocks
  sending on it. The sum \<open>s + top - 1\<close> is computed in a byte.
\<close>

definition initResendUpTo :: "u8 \<Rightarrow> syncer \<Rightarrow> syncer option" where
  "initResendUpTo topSeq c =
     do { e \<leftarrow> go_mod (sync_s c + topSeq - 1) (sync_s c);
          Some (c\<lparr>sync_state := syncStateResending, expectedACK := e, expectedNACK := topSeq\<rparr>) }"

definition getState :: "syncer \<Rightarrow> syncState" where
  "getState c = sync_state c"

definition sync_processACK :: "u8 \<Rightarrow> syncer \<Rightarrow> syncer" where
  "sync_processACK seq c =
     (if sync_state c \<noteq> syncStateResending then c
      else if seq \<noteq> expectedACK c then c
      else c\<lparr>proceeding := proceeding c + 1\<rparr>)"

definition sync_processNACK :: "receiver \<Rightarrow> u8 \<Rightarrow> syncer \<Rightarrow> syncer" where
  "sync_processNACK r seq c =
     (if sync_state c \<noteq> syncStateResending then c
      else if seq \<noteq> expectedNACK c then c
      else resetUnsafe r c)"

text \<open>
  How long \<^verbatim>\<open>waitForSync\<close> waits, and a \<^verbatim>\<open>proceedAfterTime\<close> goroutine.
\<close>

definition awaitingTimeoutMultiplier :: int where
  "awaitingTimeoutMultiplier = 3"

definition waitForSync_timeout :: "TimeoutManager \<Rightarrow> duration" where
  "waitForSync_timeout m = int64 (GetResendTimeout m * awaitingTimeoutMultiplier)"

text \<open>The timer branch of \<^verbatim>\<open>proceedAfterTime\<close>; the goroutine ends.\<close>

definition proceed_timeout :: "receiver \<Rightarrow> syncer \<Rightarrow> syncer" where
  "proceed_timeout r c =
     (let c' = c\<lparr>proceeding := proceeding c - 1\<rparr>
      in if sync_state c' \<noteq> syncStateResending then c' else resetUnsafe r c')"

text \<open>
  The steps of the goroutines that share the syncer. \<open>wait_*\<close> are the steps of
  \<^verbatim>\<open>waitForSync\<close>, \<open>proceed_*\<close> those of a \<^verbatim>\<open>proceedAfterTime\<close> goroutine.
\<close>

inductive sync_step :: "syncer \<Rightarrow> syncer \<Rightarrow> bool" where
  ss_init: "waiter c = NotWaiting \<Longrightarrow> initResendUpTo topSeq c = Some c' \<Longrightarrow> sync_step c c'"
| ss_wait: "waiter c = NotWaiting \<Longrightarrow> sync_step c (c\<lparr>waiter := InSelect\<rparr>)"
| ss_wait_timeout: "waiter c = InSelect \<Longrightarrow> sync_step c (c\<lparr>waiter := Resetting\<rparr>)"
| ss_wait_quit: "waiter c = InSelect \<Longrightarrow> sync_quit c \<Longrightarrow> sync_step c (c\<lparr>waiter := NotWaiting\<rparr>)"
| ss_wait_reset: "waiter c = Resetting \<Longrightarrow> sync_step c (sync_reset r (c\<lparr>waiter := NotWaiting\<rparr>))"
| ss_ack: "sync_step c (sync_processACK seq c)"
| ss_nack: "sync_step c (sync_processNACK r seq c)"
| ss_proceed_quit: "0 < proceeding c \<Longrightarrow> sync_quit c \<Longrightarrow>
     sync_step c (c\<lparr>proceeding := proceeding c - 1\<rparr>)"
| ss_proceed_timeout: "0 < proceeding c \<Longrightarrow> sync_step c (proceed_timeout r c)"
| ss_proceed_reset: "0 < resetting c \<Longrightarrow>
     sync_step c (sync_reset r (c\<lparr>resetting := resetting c - 1\<rparr>))"
| ss_quit: "sync_step c (c\<lparr>sync_quit := True\<rparr>)"

lemmas syncer_ops = newSyncer_def try_cancel_def resetUnsafe_def sync_reset_def
  initResendUpTo_def sync_processACK_def sync_processNACK_def proceed_timeout_def

subsection \<open>The expected acknowledgement\<close>

lemma initResendUpTo_Some:
  "initResendUpTo topSeq c = Some c' \<longleftrightarrow> sync_s c \<noteq> 0 \<and>
     c' = c\<lparr>sync_state := syncStateResending, expectedACK := (sync_s c + topSeq - 1) mod sync_s c,
            expectedNACK := topSeq\<rparr>"
  by (auto simp: initResendUpTo_def go_mod_def)

lemma expectedACK_value:
  fixes s topSeq :: u8
  assumes "s \<noteq> 0" and "unat s + unat topSeq \<le> 256"
  shows "(s + topSeq - 1) mod s = seqno s (unat s + unat topSeq - 1)"
proof -
  have "unat (s + topSeq - 1) = unat s + unat topSeq - 1"
  proof -
    have "0 < unat s" using assms(1) by simp
    then have "s + topSeq - 1 = of_nat (unat s + unat topSeq - 1)"
      by (simp add: of_nat_diff)
    also have "unat \<dots> = unat s + unat topSeq - 1"
      using assms \<open>0 < unat s\<close> by (simp add: unat_of_nat take_bit_eq_mod)
    finally show ?thesis .
  qed
  then show ?thesis
    using assms(1) by (simp add: word_unat_eq_iff unat_mod_distrib)
qed

text \<open>
  When the window is small enough that \<open>s + top - 1\<close> fits a byte (any \<open>n\<close> up to
  127, so also the default 20), the syncer waits for the acknowledgement of the last
  packet of the resent queue: it is the label just before \<open>top\<close>.
\<close>

theorem expectedACK_correct:
  assumes "initResendUpTo (seqno (sync_s c) t) c = Some c'" and "0 < t"
    and "unat (sync_s c) \<le> 128"
  shows "expectedACK c' = seqno (sync_s c) (t - 1) \<and> expectedNACK c' = seqno (sync_s c) t"
proof -
  let ?s = "sync_s c"
  from assms(1) have s: "?s \<noteq> 0" and c': "expectedNACK c' = seqno ?s t"
    and e: "expectedACK c' = (?s + seqno ?s t - 1) mod ?s"
    by (auto simp: initResendUpTo_Some)
  have "t mod unat ?s < unat ?s" using s by simp
  then have "unat ?s + t mod unat ?s \<le> 256" using assms(3) by linarith
  then have "expectedACK c' = seqno ?s (unat ?s + t mod unat ?s - 1)"
    using s by (simp add: e expectedACK_value)
  also have "\<dots> = seqno ?s (t - 1)"
    using s assms(2) by (cases t) (auto simp: seqno_eq_iff mod_Suc)
  finally show ?thesis using c' by simp
qed

text \<open>
  For larger windows the sum overflows the byte and the syncer waits for the wrong
  acknowledgement: with \<open>n = 199\<close> (\<open>s = 200\<close>) and \<open>top = 100\<close> it expects 43 and not
  99, so the acknowledgement of the last resent packet is swallowed.
\<close>

theorem expectedACK_overflow:
  "\<exists>c'. initResendUpTo 100 (newSyncer 200) = Some c' \<and> expectedACK c' = 43 \<and>
        (expectedACK c' + 1) mod 200 \<noteq> 100 \<and> sync_processACK 99 c' = c'"
  by (simp add: initResendUpTo_def newSyncer_def sync_processACK_def)

subsection \<open>Waking the waiting sender\<close>

text \<open>
  The property the wake-ups keep: a sender that stands in the select of
  \<^verbatim>\<open>waitForSync\<close> while the sync is already complete still has a goroutine on its way to
  wake it.
\<close>

definition wakeup_inv :: "syncer \<Rightarrow> bool" where
  "wakeup_inv c \<longleftrightarrow>
     (waiter c = InSelect \<and> sync_state c = syncStateIdle \<longrightarrow> 0 < resetting c)"

lemma resetUnsafe_wakeup: "wakeup_inv (resetUnsafe r c)"
  by (auto simp: wakeup_inv_def resetUnsafe_def try_cancel_def)

lemma sync_step_wakeup:
  assumes "sync_step c c'" and "wakeup_inv c"
    and "waiter c = NotWaiting \<Longrightarrow> waiter c' = InSelect \<Longrightarrow> sync_state c = syncStateResending"
  shows "wakeup_inv c'"
  using assms
proof (induction rule: sync_step.induct)
  case (ss_ack c seq)
  then show ?case by (auto simp: wakeup_inv_def sync_processACK_def)
next
  case (ss_nack c r seq)
  then show ?case by (simp add: sync_processNACK_def resetUnsafe_wakeup)
next
  case (ss_proceed_timeout c r)
  then show ?case
    by (simp add: proceed_timeout_def resetUnsafe_wakeup Let_def) (simp add: wakeup_inv_def)
next
  case (ss_wait_reset c r)
  show ?case unfolding sync_reset_def by (rule resetUnsafe_wakeup)
next
  case (ss_proceed_reset c r)
  show ?case unfolding sync_reset_def by (rule resetUnsafe_wakeup)
qed (auto simp: wakeup_inv_def initResendUpTo_Some)

text \<open>
  The goroutines that received on \<^verbatim>\<open>cancel\<close> call \<^verbatim>\<open>reset\<close> one after the other; each
  call passes the signal on. \<open>run_resets\<close> lets them run, with the runtime's choices,
  until the sender is woken.
\<close>

fun run_resets :: "receiver list \<Rightarrow> syncer \<Rightarrow> syncer" where
  "run_resets [] c = c"
| "run_resets (r # rs) c =
     (if waiter c = InSelect \<and> 0 < resetting c
      then run_resets rs (sync_reset r (c\<lparr>resetting := resetting c - 1\<rparr>)) else c)"

lemma run_resets_awake: "waiter c \<noteq> InSelect \<Longrightarrow> run_resets rs c = c"
  by (cases rs) auto

lemma run_resets_wakes:
  assumes "wakeup_inv c" and "waiter c = InSelect" and "sync_state c = syncStateIdle"
    and "proceeding c + resetting c \<le> length rs"
  shows "waiter (run_resets rs c) = Resetting \<and> sync_state (run_resets rs c) = syncStateIdle"
  using assms
proof (induction rs arbitrary: c)
  case Nil
  then show ?case by (simp add: wakeup_inv_def)
next
  case (Cons r rs)
  let ?c = "sync_reset r (c\<lparr>resetting := resetting c - 1\<rparr>)"
  have pos: "0 < resetting c" using Cons.prems by (simp add: wakeup_inv_def)
  have idle: "sync_state ?c = syncStateIdle" by (simp add: syncer_ops)
  show ?case
  proof (cases "waiter ?c = InSelect")
    case False
    then have "waiter ?c = Resetting"
      using Cons.prems by (auto simp: syncer_ops split: if_splits)
    with pos idle Cons.prems False show ?thesis by (simp add: run_resets_awake)
  next
    case True
    have "proceeding ?c + resetting ?c \<le> length rs"
      using True Cons.prems pos by (auto simp: syncer_ops split: if_splits)
    moreover have "wakeup_inv ?c" by (simp add: sync_reset_def resetUnsafe_wakeup)
    ultimately show ?thesis
      using Cons.IH [of ?c] True idle pos Cons.prems by simp
  qed
qed

text \<open>
  C28: the expected NACK wakes a sender that stands in the select of \<^verbatim>\<open>waitForSync\<close>.
  Even when the signal on \<^verbatim>\<open>cancel\<close> is taken by a \<^verbatim>\<open>proceedAfterTime\<close> goroutine,
  that goroutine passes it on, and after at most one hand-over per goroutine the sender
  leaves the select; the sync is then complete.
\<close>

theorem expected_NACK_wakes:
  assumes "waiter c = InSelect" and "sync_state c = syncStateResending"
    and "proceeding c + resetting c \<le> length rs"
  shows "waiter (run_resets rs (sync_processNACK r (expectedNACK c) c)) = Resetting \<and>
         sync_state (run_resets rs (sync_processNACK r (expectedNACK c) c)) = syncStateIdle"
proof -
  let ?c = "resetUnsafe r c"
  have idle: "sync_state ?c = syncStateIdle" by (simp add: syncer_ops)
  have le: "proceeding ?c + resetting ?c \<le> length rs"
    using assms(3) by (auto simp: syncer_ops)
  have "waiter ?c = InSelect \<or> waiter ?c = Resetting"
    using assms(1) by (auto simp: syncer_ops)
  then show ?thesis
    using run_resets_wakes [OF resetUnsafe_wakeup _ idle le] idle assms(2)
    by (auto simp: sync_processNACK_def run_resets_awake)
qed

theorem expected_NACK_wakes_witness:
  "waiter (run_resets [Proceeder, Proceeder]
     (sync_processNACK Proceeder 5 ((newSyncer 21)\<lparr>sync_state := syncStateResending,
        expectedNACK := 5, waiter := InSelect, proceeding := 2\<rparr>))) = Resetting"
  using expected_NACK_wakes [of "(newSyncer 21)\<lparr>sync_state := syncStateResending,
        expectedNACK := 5, waiter := InSelect, proceeding := 2\<rparr>" "[Proceeder, Proceeder]" Proceeder]
  by (simp add: newSyncer_def)

definition only_timer_left :: "syncer \<Rightarrow> bool" where
  "only_timer_left c \<longleftrightarrow> waiter c = InSelect \<and> sync_state c = syncStateIdle \<and>
     proceeding c = 0 \<and> resetting c = 0 \<and>
     (\<forall>c'. sync_step c c' \<longrightarrow>
        c' = c \<or> c' = c\<lparr>sync_quit := True\<rparr> \<or> c' = c\<lparr>waiter := Resetting\<rparr>)"

text \<open>
  C36: a wake-up can be lost. When the expected NACK arrives after \<^verbatim>\<open>initResendUpTo\<close>
  but before the sender has entered the select of \<^verbatim>\<open>waitForSync\<close>, the signal on
  \<^verbatim>\<open>cancel\<close> reaches nobody. The sender then enters the select with the sync complete,
  and no acknowledgement, NACK or goroutine releases it any more: only its own timer (three
  resend timeouts) or the shutdown does.
\<close>

theorem lost_wakeup:
  "\<exists>c1 c2. initResendUpTo 5 (newSyncer 21) = Some c1 \<and> sync_step (newSyncer 21) c1 \<and>
     c2 = sync_processNACK r (expectedNACK c1) c1 \<and> sync_step c1 c2 \<and>
     sync_step c2 (c2\<lparr>waiter := InSelect\<rparr>) \<and> only_timer_left (c2\<lparr>waiter := InSelect\<rparr>)"
proof -
  define c1 where "c1 = (newSyncer 21)\<lparr>sync_state := syncStateResending,
     expectedACK := 4, expectedNACK := 5\<rparr>"
  define c2 where "c2 = sync_processNACK r (expectedNACK c1) c1"
  have i: "initResendUpTo 5 (newSyncer 21) = Some c1"
    by (simp add: initResendUpTo_def newSyncer_def c1_def)
  have c2: "c2 = c1\<lparr>sync_state := syncStateIdle\<rparr>"
    by (simp add: c2_def c1_def syncer_ops)
  have "only_timer_left (c2\<lparr>waiter := InSelect\<rparr>)"
    unfolding only_timer_left_def c2 c1_def newSyncer_def
    by (auto elim!: sync_step.cases simp: sync_processACK_def sync_processNACK_def)
  moreover have "sync_step (newSyncer 21) c1"
    by (rule ss_init [OF _ i]) (simp add: newSyncer_def)
  moreover have "sync_step c1 c2" unfolding c2_def by (rule ss_nack)
  moreover have "sync_step c2 (c2\<lparr>waiter := InSelect\<rparr>)"
    by (rule ss_wait) (simp add: c2 c1_def newSyncer_def)
  ultimately show ?thesis using i c2_def by blast
qed

end
