(* ===== verification/GBN_Queue.thy ===== *)
theory GBN_Queue
  imports GBN_Messages GBN_Syncer
begin

section \<open>The send queue (gbn/queue.go)\<close>

text \<open>
  The sender keeps the packets that are not acknowledged yet in a ring of \<open>s = n + 1\<close>
  slots with a base and a top. The first part translates the operations. The second part
  states the contract of a go-back-N send window (locale \<open>send_window\<close>): the packets are
  numbered \<open>0, 1, 2, \<dots>\<close>, the window is a segment \<open>[b, t)\<close> of them, an acknowledgement or
  a NACK moves \<open>b\<close>. The interpretation \<open>ring\<close> shows that the ring implements it.
\<close>

subsection \<open>State\<close>

text \<open>
  \<open>q_syncer\<close> carries the quit channel, which queue and syncer share. A slot that is nil is
  \<open>None\<close>.
\<close>

record queue =
  q_s :: u8
  content :: "PacketData option list"
  sequenceBase :: u8
  sequenceTop :: u8
  q_syncer :: syncer
  lastResend :: time

definition newQueue :: "u8 \<Rightarrow> queue" where
  "newQueue s = \<lparr>q_s = s, content = replicate (unat s) None, sequenceBase = 0, sequenceTop = 0,
                 q_syncer = newSyncer s, lastResend = zero_time\<rparr>"

subsection \<open>Operations\<close>

text \<open>Closing the quit channel a second time panics.\<close>

definition stop_queue :: "queue \<Rightarrow> queue option" where
  "stop_queue q =
     (if sync_quit (q_syncer q) then None
      else Some (q\<lparr>q_syncer := (q_syncer q)\<lparr>sync_quit := True\<rparr>\<rparr>))"

definition queue_size :: "queue \<Rightarrow> u8" where
  "queue_size q =
     (if sequenceBase q \<le> sequenceTop q then sequenceTop q - sequenceBase q
      else sequenceTop q + (q_s q - sequenceBase q))"

text \<open>
  \<^verbatim>\<open>addPacket\<close> writes the label into the packet; the labelled packet is returned beside
  the queue, because the caller transmits it.
\<close>

definition addPacket :: "PacketData \<Rightarrow> queue \<Rightarrow> (PacketData \<times> queue) option" where
  "addPacket packet q =
     (let p = packet\<lparr>Seq := sequenceTop q\<rparr>; i = unat (sequenceTop q)
      in if i < length (content q) then
           do { t \<leftarrow> go_mod (sequenceTop q + 1) (q_s q);
                Some (p, q\<lparr>content := (content q)[i := Some p], sequenceTop := t\<rparr>) }
         else None)"

definition containsSequence :: "u8 \<Rightarrow> u8 \<Rightarrow> u8 \<Rightarrow> bool" where
  "containsSequence base topSeq seq =
     (if base = topSeq then False
      else if base < topSeq then (if base \<le> seq \<and> seq < topSeq then True else False)
      else if seq < topSeq \<or> base \<le> seq then True
      else False)"

definition processACK :: "u8 \<Rightarrow> queue \<Rightarrow> (bool \<times> queue) option" where
  "processACK seq q0 =
     (if queue_size q0 = 0 then Some (False, q0)
      else let q = q0\<lparr>q_syncer := sync_processACK seq (q_syncer q0)\<rparr>
      in if seq = sequenceBase q then
           do { b \<leftarrow> go_mod (sequenceBase q + 1) (q_s q); Some (True, q\<lparr>sequenceBase := b\<rparr>) }
         else if containsSequence (sequenceBase q) (sequenceTop q) seq then
           do { b \<leftarrow> go_mod (seq + 1) (q_s q); Some (True, q\<lparr>sequenceBase := b\<rparr>) }
         else Some (False, q))"

text \<open>The pair of booleans is (should resend, bumped).\<close>

definition processNACK :: "receiver \<Rightarrow> u8 \<Rightarrow> queue \<Rightarrow> (bool \<times> bool) \<times> queue" where
  "processNACK r seq q0 =
     (let q = q0\<lparr>q_syncer := sync_processNACK r seq (q_syncer q0)\<rparr>
      in if seq = sequenceTop q then ((False, True), q\<lparr>sequenceBase := sequenceTop q\<rparr>)
         else if \<not> containsSequence (sequenceBase q) (sequenceTop q) seq then ((False, False), q)
         else ((True, sequenceBase q \<noteq> seq), q\<lparr>sequenceBase := seq\<rparr>))"

text \<open>
  \<^verbatim>\<open>resend\<close> runs in the sender's goroutine and lets the receiver's goroutine move the
  base meanwhile. Its pieces, between which the other goroutine may run:
  \<^item> \<open>resend_begin\<close>: the checks on the last resend and on the size (\<open>now\<close> is the clock
    at the first, \<open>now'\<close> at the assignment of \<^verbatim>\<open>lastResend\<close>);
  \<^item> \<open>resend_snapshot\<close>: base and top are read and the syncer is prepared. Only the sender
    moves the top, so that reading both at once is exact;
  \<^item> \<open>resend_fetch\<close>: one iteration of the loop up to the call of \<^verbatim>\<open>sendPkt\<close>; a nil
    packet panics in \<^verbatim>\<open>Serialize\<close>;
  \<^item> \<open>resend_advance\<close>: the next base of the loop.
\<close>

definition resend_begin :: "time \<Rightarrow> time \<Rightarrow> TimeoutManager \<Rightarrow> queue \<Rightarrow> bool \<times> queue" where
  "resend_begin now now' m q =
     (if time_sub now (lastResend q) < GetHandshakeTimeout m then (False, q)
      else if queue_size q = 0 then (False, q)
      else (True, q\<lparr>lastResend := now'\<rparr>))"

definition resend_snapshot :: "queue \<Rightarrow> ((u8 \<times> u8) option \<times> queue) option" where
  "resend_snapshot q =
     (if sequenceBase q = sequenceTop q then Some (None, q)
      else do { c \<leftarrow> initResendUpTo (sequenceTop q) (q_syncer q);
                Some (Some (sequenceBase q, sequenceTop q), q\<lparr>q_syncer := c\<rparr>) })"

definition resend_fetch :: "u8 \<Rightarrow> queue \<Rightarrow> PacketData option" where
  "resend_fetch base q =
     (if unat base < length (content q) then content q ! unat base else None)"

definition resend_advance :: "u8 \<Rightarrow> queue \<Rightarrow> u8 option" where
  "resend_advance base q = go_mod (base + 1) (q_s q)"

text \<open>
  The loop of \<^verbatim>\<open>resend\<close> when nothing interleaves. \<open>sendPkt\<close> returns an error or the
  new state of the stream. \<open>None\<close> is a panic or the end of the fuel.
\<close>

fun resend_loop :: "nat \<Rightarrow> (PacketData \<Rightarrow> 'st \<Rightarrow> 'e + 'st) \<Rightarrow> u8 \<Rightarrow> u8 \<Rightarrow> queue \<Rightarrow> 'st \<Rightarrow>
    ('e + 'st) option" where
  "resend_loop 0 sendPkt base topSeq q st = None"
| "resend_loop (Suc fuel) sendPkt base topSeq q st =
     (if base = topSeq then Some (Inr st)
      else do { packet \<leftarrow> resend_fetch base q;
                case sendPkt packet st of
                  Inl e \<Rightarrow> Some (Inl e)
                | Inr st' \<Rightarrow> do { base' \<leftarrow> resend_advance base q;
                                 resend_loop fuel sendPkt base' topSeq q st' } })"

text \<open>
  \<^verbatim>\<open>resend\<close> up to the call of \<^verbatim>\<open>waitForSync\<close>; the boolean says whether it is called.
  The ring has at most 255 slots, so 256 rounds of fuel suffice (\<open>resend_loop_total\<close>).
\<close>

definition resend :: "time \<Rightarrow> time \<Rightarrow> TimeoutManager \<Rightarrow> (PacketData \<Rightarrow> 'st \<Rightarrow> 'e + 'st) \<Rightarrow>
    queue \<Rightarrow> 'st \<Rightarrow> (('e + bool \<times> 'st) \<times> queue) option" where
  "resend now now' m sendPkt q0 st =
     (let (go, q1) = resend_begin now now' m q0
      in if \<not> go then Some (Inr (False, st), q1)
         else do { (snap, q) \<leftarrow> resend_snapshot q1;
                   case snap of
                     None \<Rightarrow> Some (Inr (False, st), q)
                   | Some (base, topSeq) \<Rightarrow>
                       do { res \<leftarrow> resend_loop 256 sendPkt base topSeq q st;
                            Some (case res of Inl e \<Rightarrow> Inl e | Inr st' \<Rightarrow> Inr (True, st'), q) } })"

subsection \<open>The contract of a send window\<close>

text \<open>
  \<open>rel q h b\<close>: \<open>q\<close> has been given the packets \<open>h\<close> and holds those from number \<open>b\<close> on.
  The client's lemmas follow from the laws of the single operations.
\<close>

locale send_window =
  fixes label :: "nat \<Rightarrow> u8"
    and n :: nat
    and rel :: "'q \<Rightarrow> 'p list \<Rightarrow> nat \<Rightarrow> bool"
    and stamp :: "nat \<Rightarrow> 'p \<Rightarrow> 'p"
    and size_of :: "'q \<Rightarrow> nat"
    and add :: "'p \<Rightarrow> 'q \<Rightarrow> ('p \<times> 'q) option"
    and ack :: "u8 \<Rightarrow> 'q \<Rightarrow> (bool \<times> 'q) option"
    and nack :: "u8 \<Rightarrow> 'q \<Rightarrow> 'q"
    and fetch :: "u8 \<Rightarrow> 'q \<Rightarrow> 'p option"
  assumes rel_bounds: "rel q h b \<Longrightarrow> b \<le> length h \<and> length h \<le> b + n"
    and size_law: "rel q h b \<Longrightarrow> size_of q = length h - b"
    and add_law: "rel q h b \<Longrightarrow> length h < b + n \<Longrightarrow>
      \<exists>q'. add p q = Some (stamp (length h) p, q') \<and> rel q' (h @ [stamp (length h) p]) b"
    and ack_law: "rel q h b \<Longrightarrow> b \<le> i \<Longrightarrow> i < length h \<Longrightarrow>
      \<exists>q'. ack (label i) q = Some (True, q') \<and> rel q' h (Suc i)"
    and ack_old_law: "rel q h b \<Longrightarrow> i < b \<Longrightarrow> length h \<le> i + n + 1 \<Longrightarrow>
      \<exists>q'. ack (label i) q = Some (False, q') \<and> rel q' h b"
    and nack_law: "rel q h b \<Longrightarrow> b \<le> i \<Longrightarrow> i \<le> length h \<Longrightarrow> rel (nack (label i) q) h i"
    and fetch_law: "rel q h b \<Longrightarrow> i < length h \<Longrightarrow> length h \<le> i + n + 1 \<Longrightarrow>
      fetch (label i) q = Some (h ! i)"
begin

lemma window_size: "rel q h b \<Longrightarrow> size_of q \<le> n"
  using rel_bounds size_law by fastforce

lemma has_room: "rel q h b \<Longrightarrow> size_of q < n \<Longrightarrow> length h < b + n"
  using rel_bounds size_law by fastforce

lemma ack_cumulative:
  assumes "rel q h b" and "b \<le> v" and "v \<le> length h" and "0 < v"
  shows "\<exists>q'. ack (label (v - 1)) q = Some (b < v, q') \<and> rel q' h v"
proof (cases "b < v")
  case True
  then show ?thesis using ack_law [OF assms(1), of "v - 1"] assms by auto
next
  case False
  then show ?thesis
    using ack_old_law [OF assms(1), of "v - 1"] rel_bounds [OF assms(1)] assms by auto
qed

text \<open>A run of adds that fits into the window appends all packets, each with its number.\<close>

primrec add_all :: "'p list \<Rightarrow> 'q \<Rightarrow> 'q option" where
  "add_all [] q = Some q"
| "add_all (p # ps) q = do { (p', q') \<leftarrow> add p q; add_all ps q' }"

primrec stamp_from :: "nat \<Rightarrow> 'p list \<Rightarrow> 'p list" where
  "stamp_from i [] = []"
| "stamp_from i (p # ps) = stamp i p # stamp_from (Suc i) ps"

lemma length_stamp_from [simp]: "length (stamp_from i ps) = length ps"
  by (induction ps arbitrary: i) auto

lemma add_all_rel:
  "rel q h b \<Longrightarrow> length h + length ps \<le> b + n \<Longrightarrow>
   \<exists>q'. add_all ps q = Some q' \<and> rel q' (h @ stamp_from (length h) ps) b"
proof (induction ps arbitrary: q h)
  case (Cons p ps)
  from Cons.prems obtain q1 where q1: "add p q = Some (stamp (length h) p, q1)"
    and r1: "rel q1 (h @ [stamp (length h) p]) b"
    using add_law [OF Cons.prems(1), of p] by auto
  show ?case using Cons.IH [OF r1] Cons.prems(2) q1 by auto
qed simp

text \<open>Cumulative feedback: the base ends at the last value.\<close>

primrec ack_all :: "nat list \<Rightarrow> 'q \<Rightarrow> 'q option" where
  "ack_all [] q = Some q"
| "ack_all (v # vs) q = do { (_, q') \<leftarrow> ack (label (v - 1)) q; ack_all vs q' }"

lemma ack_all_rel:
  "rel q h b \<Longrightarrow> sorted (b # vs) \<Longrightarrow> \<forall>v \<in> set vs. 0 < v \<and> v \<le> length h \<Longrightarrow>
   \<exists>q'. ack_all vs q = Some q' \<and> rel q' h (last (b # vs))"
proof (induction vs arbitrary: q b)
  case (Cons v vs)
  obtain q1 where "ack (label (v - 1)) q = Some (b < v, q1)" and r1: "rel q1 h v"
    using ack_cumulative [OF Cons.prems(1), of v] Cons.prems by auto
  then show ?case using Cons.IH [OF r1] Cons.prems by (cases vs) auto
qed simp

lemma fetch_window:
  "rel q h b \<Longrightarrow> map (\<lambda>i. fetch (label i) q) [b..<length h] = map Some (drop b h)"
  using fetch_law rel_bounds by (intro nth_equalityI) (fastforce simp: nth_append)+

end

subsection \<open>The ring\<close>

definition ring_rel :: "u8 \<Rightarrow> queue \<Rightarrow> PacketData list \<Rightarrow> nat \<Rightarrow> bool" where
  "ring_rel s q h b \<longleftrightarrow> s \<noteq> 0 \<and> q_s q = s \<and> sync_s (q_syncer q) = s \<and>
     length (content q) = unat s \<and>
     sequenceBase q = seqno s b \<and> sequenceTop q = seqno s (length h) \<and>
     b \<le> length h \<and> length h < b + unat s \<and>
     (\<forall>i < length h. Seq (h ! i) = seqno s i \<and>
        (length h \<le> i + unat s \<longrightarrow> content q ! (i mod unat s) = Some (h ! i)))"

definition stamp_seq :: "u8 \<Rightarrow> nat \<Rightarrow> PacketData \<Rightarrow> PacketData" where
  "stamp_seq s i p = p\<lparr>Seq := seqno s i\<rparr>"

lemma mod_add_window:
  fixes b d s :: nat
  assumes "d < s"
  shows "(b + d) mod s = (if b mod s + d < s then b mod s + d else b mod s + d - s)"
proof -
  have s: "0 < s" using assms by simp
  have "(b + d) mod s = (b mod s + d) mod s" by (simp add: mod_add_left_eq)
  moreover have "b mod s + d - s < s" using s assms mod_less_divisor [OF s, of b] by linarith
  ultimately show ?thesis by (simp add: le_mod_geq)
qed

lemma queue_size_window:
  assumes "s \<noteq> 0" and "b \<le> t" and "t < b + unat s"
    and "sequenceBase q = seqno s b" and "sequenceTop q = seqno s t" and "q_s q = s"
  shows "unat (queue_size q) = t - b"
proof -
  define d where "d = t - b"
  have d: "t = b + d" "d < unat s" using assms(2,3) by (auto simp: d_def)
  have m: "t mod unat s = (if b mod unat s + d < unat s then b mod unat s + d
                           else b mod unat s + d - unat s)"
    unfolding d(1) by (rule mod_add_window [OF d(2)])
  have bs: "b mod unat s < unat s" using assms(1) by simp
  show ?thesis
  proof (cases "b mod unat s + d < unat s")
    case True
    then show ?thesis using assms m
      by (simp add: queue_size_def word_le_nat_alt unat_sub d(1))
  next
    case False
    then have lt: "t mod unat s < b mod unat s" using m bs d(2) by simp
    have sub: "unat (s - seqno s b) = unat s - b mod unat s"
      using assms(1) bs by (simp add: unat_sub word_le_nat_alt)
    have "t mod unat s + (unat s - b mod unat s) = d" using False m bs by simp
    moreover have "d < 256" using d(2) unat_u8_less [of s] by linarith
    ultimately have "unat (seqno s t + (s - seqno s b)) = d"
      using assms(1) by (subst unat_word_ariths(1)) (simp add: sub)
    then show ?thesis using assms lt
      by (simp add: queue_size_def word_le_nat_alt d(1))
  qed
qed

lemma window_offsets:
  fixes B X d n :: nat
  assumes "B < n" and "X < n"
  shows "(\<exists>k<d. X = (if B + k < n then B + k else B + k - n)) \<longleftrightarrow> B \<le> X \<and> X < B + d \<or> X + n < B + d"
proof
  assume "B \<le> X \<and> X < B + d \<or> X + n < B + d"
  then show "\<exists>k<d. X = (if B + k < n then B + k else B + k - n)"
  proof
    assume "B \<le> X \<and> X < B + d"
    then show ?thesis using assms by (intro exI [of _ "X - B"]) auto
  next
    assume "X + n < B + d"
    then show ?thesis using assms by (intro exI [of _ "X + n - B"]) auto
  qed
next
  assume "\<exists>k<d. X = (if B + k < n then B + k else B + k - n)"
  then obtain k where "k < d" and "X = (if B + k < n then B + k else B + k - n)"
    by blast
  then show "B \<le> X \<and> X < B + d \<or> X + n < B + d"
    using assms by (cases "B + k < n") auto
qed

lemma containsSequence_window:
  assumes "s \<noteq> 0" and "b \<le> t" and "t < b + unat s" and "x < s"
  shows "containsSequence (seqno s b) (seqno s t) x \<longleftrightarrow> (\<exists>i. b \<le> i \<and> i < t \<and> x = seqno s i)"
proof -
  define d B X where "d = t - b" and "B = b mod unat s" and "X = unat x"
  have d: "t = b + d" "d < unat s" using assms(2,3) by (auto simp: d_def)
  have BX: "B < unat s" "X < unat s"
    using assms(1,4) by (auto simp: B_def X_def word_less_nat_alt)
  have m: "(b + k) mod unat s = (if B + k < unat s then B + k else B + k - unat s)"
    if "k < unat s" for k
    unfolding B_def by (rule mod_add_window [OF that])
  have "(\<exists>i. b \<le> i \<and> i < t \<and> x = seqno s i) \<longleftrightarrow> (\<exists>k<d. X = (b + k) mod unat s)"
  proof
    assume "\<exists>i. b \<le> i \<and> i < t \<and> x = seqno s i"
    then obtain i where "b \<le> i" "i < t" "x = seqno s i" by blast
    then show "\<exists>k<d. X = (b + k) mod unat s"
      using assms(1) by (intro exI [of _ "i - b"]) (auto simp: X_def d_def)
  next
    assume "\<exists>k<d. X = (b + k) mod unat s"
    then obtain k where "k < d" "X = (b + k) mod unat s" by blast
    then show "\<exists>i. b \<le> i \<and> i < t \<and> x = seqno s i"
      using assms(1) by (intro exI [of _ "b + k"]) (auto simp: X_def d(1) word_unat_eq_iff)
  qed
  also have "\<dots> \<longleftrightarrow> (\<exists>k<d. X = (if B + k < unat s then B + k else B + k - unat s))"
    using m d(2) by (intro ex_cong1 conj_cong refl) (simp add: m)
  also have "\<dots> \<longleftrightarrow> (B \<le> X \<and> X < B + d \<or> X + unat s < B + d)"
    by (rule window_offsets [OF BX])
  also have "\<dots> \<longleftrightarrow> containsSequence (seqno s b) (seqno s t) x"
  proof -
    have nat: "containsSequence (seqno s b) (seqno s t) x \<longleftrightarrow>
        (let T = t mod unat s in B \<noteq> T \<and> (if B < T then B \<le> X \<and> X < T else X < T \<or> B \<le> X))"
      using assms(1)
      by (simp add: containsSequence_def word_unat_eq_iff word_less_nat_alt word_le_nat_alt
          B_def X_def Let_def)
    show ?thesis
      unfolding nat using m [OF d(2)] BX d(2)
      by (cases "B + d < unat s") (auto simp: d(1) Let_def)
  qed
  finally show ?thesis by simp
qed

lemma ring_rel_size: "ring_rel s q h b \<Longrightarrow> unat (queue_size q) = length h - b"
  by (rule queue_size_window) (auto simp: ring_rel_def)

lemma ring_rel_newQueue: "s \<noteq> 0 \<Longrightarrow> ring_rel s (newQueue s) [] 0"
  by (simp add: ring_rel_def newQueue_def newSyncer_def)

lemma addPacket_ring:
  assumes "ring_rel s q h b" and "length h < b + (unat s - 1)"
  shows "\<exists>q'. addPacket p q = Some (stamp_seq s (length h) p, q') \<and>
              ring_rel s q' (h @ [stamp_seq s (length h) p]) b"
proof -
  let ?t = "length h" and ?p = "stamp_seq s (length h) p"
  from assms(1) have s: "s \<noteq> 0" "q_s q = s" and len: "length (content q) = unat s"
    and top_q: "sequenceTop q = seqno s ?t"
    and slots: "\<And>i. i < ?t \<Longrightarrow> ?t \<le> i + unat s \<Longrightarrow> content q ! (i mod unat s) = Some (h ! i)"
    by (auto simp: ring_rel_def)
  have lt: "?t mod unat s < unat s" using s by simp
  let ?q = "q\<lparr>content := (content q)[?t mod unat s := Some ?p], sequenceTop := seqno s (Suc ?t)\<rparr>"
  have "addPacket p q = Some (?p, ?q)"
    using s len top_q lt seqno_Suc [OF s(1), of ?t]
    by (simp add: addPacket_def Let_def stamp_seq_def)
  moreover have "content ?q ! (i mod unat s) = Some ((h @ [?p]) ! i)"
    if "i < Suc ?t" "Suc ?t \<le> i + unat s" for i
  proof (cases "i = ?t")
    case False
    then have "i mod unat s \<noteq> ?t mod unat s"
      using mod_eq_window [of i "unat s" ?t] that by auto
    then show ?thesis using slots [of i] that False by (simp add: nth_append)
  qed (use len lt in simp)
  then have "ring_rel s ?q (h @ [?p]) b"
    using assms by (auto simp: ring_rel_def nth_append stamp_seq_def less_Suc_eq)
  ultimately show ?thesis by blast
qed

text \<open>Changes of the syncer and of the resend time do not touch the window.\<close>

lemma ring_rel_syncer [simp]:
  "sync_s c = sync_s (q_syncer q) \<Longrightarrow> ring_rel s (q\<lparr>q_syncer := c\<rparr>) h b \<longleftrightarrow> ring_rel s q h b"
  by (simp add: ring_rel_def)

lemma ring_rel_lastResend [simp]: "ring_rel s (q\<lparr>lastResend := t\<rparr>) h b \<longleftrightarrow> ring_rel s q h b"
  by (simp add: ring_rel_def)

lemma ring_rel_move:
  "ring_rel s q h b \<Longrightarrow> b \<le> v \<Longrightarrow> v \<le> length h \<Longrightarrow> ring_rel s (q\<lparr>sequenceBase := seqno s v\<rparr>) h v"
  by (auto simp: ring_rel_def)

lemma sync_s_ops [simp]:
  "sync_s (sync_processACK x c) = sync_s c"
  "sync_s (resetUnsafe r c) = sync_s c"
  "sync_s (sync_processNACK r x c) = sync_s c"
  by (simp_all add: syncer_ops)

text \<open>
  Every label below \<open>s\<close> that \<^verbatim>\<open>containsSequence\<close> accepts belongs to one packet of the
  window.
\<close>

lemma containsSequence_ring:
  assumes "ring_rel s q h b" and "x < s"
  shows "containsSequence (sequenceBase q) (sequenceTop q) x \<longleftrightarrow>
         (\<exists>i. b \<le> i \<and> i < length h \<and> x = seqno s i)"
  using assms containsSequence_window [of s b "length h" x] by (simp add: ring_rel_def)

lemma seqno_in_window:
  assumes "ring_rel s q h b" and "b \<le> i" and "i \<le> length h" and "b \<le> j" and "j \<le> length h"
  shows "seqno s i = seqno s j \<longleftrightarrow> i = j"
  using assms by (intro seqno_window') (auto simp: ring_rel_def)

lemma processACK_ring:
  assumes rel: "ring_rel s q h b" and i: "b \<le> i" "i < length h"
  shows "\<exists>q'. processACK (seqno s i) q = Some (True, q') \<and> ring_rel s q' h (Suc i)"
proof -
  let ?q = "q\<lparr>q_syncer := sync_processACK (seqno s i) (q_syncer q)\<rparr>"
  have rel': "ring_rel s ?q h b" using rel by simp
  have s: "s \<noteq> 0" "q_s q = s" "sequenceBase q = seqno s b" using rel by (auto simp: ring_rel_def)
  have "queue_size q \<noteq> 0" using ring_rel_size [OF rel] i by auto
  moreover have "containsSequence (sequenceBase q) (sequenceTop q) (seqno s i)"
    using containsSequence_ring [OF rel] s i by auto
  moreover have "seqno s i = seqno s b \<longleftrightarrow> i = b" using seqno_in_window [OF rel] i by simp
  ultimately have "processACK (seqno s i) q = Some (True, ?q\<lparr>sequenceBase := seqno s (Suc i)\<rparr>)"
    using s by (auto simp: processACK_def Let_def seqno_Suc)
  then show ?thesis using ring_rel_move [OF rel', of "Suc i"] i by auto
qed

lemma processACK_ignored:
  assumes rel: "ring_rel s q h b" and "x < s" and "\<forall>i. b \<le> i \<and> i < length h \<longrightarrow> x \<noteq> seqno s i"
  shows "\<exists>c. processACK x q = Some (False, q\<lparr>q_syncer := c\<rparr>) \<and> sync_s c = sync_s (q_syncer q)"
proof (cases "queue_size q = 0")
  case True
  then show ?thesis by (intro exI [of _ "q_syncer q"]) (simp add: processACK_def)
next
  case False
  then have "b < length h" using ring_rel_size [OF rel] by (simp add: word_unat_eq_iff)
  then have "x \<noteq> sequenceBase q" using assms rel by (auto simp: ring_rel_def)
  moreover have "\<not> containsSequence (sequenceBase q) (sequenceTop q) x"
    using containsSequence_ring [OF rel \<open>x < s\<close>] assms(3) by blast
  ultimately show ?thesis using False
    by (intro exI [of _ "sync_processACK x (q_syncer q)"]) (simp add: processACK_def Let_def)
qed

lemma processACK_old:
  assumes rel: "ring_rel s q h b" and "i < b" and "length h \<le> i + unat s"
  shows "\<exists>q'. processACK (seqno s i) q = Some (False, q') \<and> ring_rel s q' h b"
proof -
  have "s \<noteq> 0" using rel by (simp add: ring_rel_def)
  moreover have "\<forall>j. b \<le> j \<and> j < length h \<longrightarrow> seqno s i \<noteq> seqno s j"
    using assms(2,3) by (auto simp: seqno_window [OF \<open>s \<noteq> 0\<close>])
  ultimately obtain c where "processACK (seqno s i) q = Some (False, q\<lparr>q_syncer := c\<rparr>)"
    and "sync_s c = sync_s (q_syncer q)"
    using processACK_ignored [OF rel, of "seqno s i"] by auto
  then show ?thesis using rel by auto
qed

lemma processNACK_eq:
  assumes rel: "ring_rel s q h b" and i: "b \<le> i" "i \<le> length h"
  shows "\<exists>c. sync_s c = s \<and> processNACK r (seqno s i) q =
     ((i < length h, i = length h \<or> b < i), q\<lparr>q_syncer := c, sequenceBase := seqno s i\<rparr>)"
proof -
  have s: "s \<noteq> 0" "sequenceBase q = seqno s b" "sequenceTop q = seqno s (length h)"
    "b \<le> length h" "sync_s (q_syncer q) = s"
    using rel by (auto simp: ring_rel_def)
  have eqs: "seqno s i = sequenceTop q \<longleftrightarrow> i = length h" "sequenceBase q = seqno s i \<longleftrightarrow> b = i"
    using seqno_in_window [OF rel] s i by auto
  have "containsSequence (sequenceBase q) (sequenceTop q) (seqno s i) \<longleftrightarrow> i < length h"
    using containsSequence_ring [OF rel, of "seqno s i"] s i
    by (metis eqs(1) containsSequence_ring le_neq_implies_less rel seqno_less nat_less_le seqno_in_window)
  then show ?thesis using eqs i s
    by (intro exI [of _ "sync_processNACK r (seqno s i) (q_syncer q)"])
       (auto simp: processNACK_def Let_def)
qed

lemma processNACK_ring:
  assumes "ring_rel s q h b" and "b \<le> i" and "i \<le> length h"
  shows "ring_rel s (snd (processNACK r (seqno s i) q)) h i"
  using processNACK_eq [OF assms, of r] ring_rel_move [OF assms] assms(1)
  by (auto simp: ring_rel_def)

lemma resend_fetch_ring:
  "ring_rel s q h b \<Longrightarrow> i < length h \<Longrightarrow> length h \<le> i + unat s \<Longrightarrow>
   resend_fetch (seqno s i) q = Some (h ! i)"
  by (simp add: ring_rel_def resend_fetch_def)

text \<open>The ring implements the send window with \<open>n = s - 1\<close>.\<close>

interpretation ring: send_window "seqno s" "unat s - 1" "ring_rel s" "stamp_seq s"
    "\<lambda>q. unat (queue_size q)" addPacket processACK "\<lambda>x q. snd (processNACK r x q)" resend_fetch
  for s :: u8 and r :: receiver
proof unfold_locales
  fix q :: queue and h b assume rel: "ring_rel s q h b"
  then have s: "0 < unat s" by (simp add: ring_rel_def)
  from rel show "b \<le> length h \<and> length h \<le> b + (unat s - 1)" by (auto simp: ring_rel_def)
  from rel show "unat (queue_size q) = length h - b" by (rule ring_rel_size)
  { fix p assume "length h < b + (unat s - 1)"
    with rel show "\<exists>q'. addPacket p q = Some (stamp_seq s (length h) p, q') \<and>
      ring_rel s q' (h @ [stamp_seq s (length h) p]) b" by (rule addPacket_ring) }
  { fix i assume "b \<le> i" "i < length h"
    with rel show "\<exists>q'. processACK (seqno s i) q = Some (True, q') \<and> ring_rel s q' h (Suc i)"
      by (rule processACK_ring) }
  { fix i assume "i < b" "length h \<le> i + (unat s - 1) + 1"
    with rel s show "\<exists>q'. processACK (seqno s i) q = Some (False, q') \<and> ring_rel s q' h b"
      by (intro processACK_old) auto }
  { fix i assume "b \<le> i" "i \<le> length h"
    with rel show "ring_rel s (snd (processNACK r (seqno s i) q)) h i"
      by (rule processNACK_ring) }
  { fix i assume "i < length h" "length h \<le> i + (unat s - 1) + 1"
    with rel s show "resend_fetch (seqno s i) q = Some (h ! i)"
      by (intro resend_fetch_ring) auto }
qed

subsection \<open>Properties\<close>

text \<open>
  Adding a packet while fewer than \<open>n\<close> packets are outstanding never panics, gives
  the packet the label of its number and puts it behind the window, and leaves the packets
  already in the window as they are.
\<close>

theorem addPacket_spec:
  assumes "ring_rel s q h b" and "unat (queue_size q) < unat s - 1"
  shows "\<exists>q'. addPacket p q = Some (p\<lparr>Seq := seqno s (length h)\<rparr>, q') \<and>
              ring_rel s q' (h @ [p\<lparr>Seq := seqno s (length h)\<rparr>]) b \<and>
              unat (queue_size q') = Suc (unat (queue_size q))"
proof -
  note room = ring.has_room [OF assms]
  obtain q' where "addPacket p q = Some (stamp_seq s (length h) p, q')"
    and rel: "ring_rel s q' (h @ [stamp_seq s (length h) p]) b"
    using ring.add_law [OF assms(1) room] by blast
  moreover have "unat (queue_size q') = Suc (unat (queue_size q))"
    using ring.size_law [OF rel] ring.size_law [OF assms(1)] ring.rel_bounds [OF assms(1)]
    by (simp add: Suc_diff_le)
  ultimately show ?thesis by (auto simp: stamp_seq_def)
qed

abbreviation pkt :: "u8 \<Rightarrow> bytes \<Rightarrow> PacketData" where
  "pkt x d \<equiv> \<lparr>Seq = x, FinalChunk = True, IsPing = False, Payload = d\<rparr>"

text \<open>
  A ring with two outstanding packets around the wrap, for the witnesses: \<open>s = 3\<close>, packets
  0 and 1 acknowledged, packets 2 and 3 (label 0) in the window.
\<close>

definition ring_example :: queue where
  "ring_example = \<lparr>q_s = 3, content = [Some (pkt 0 [30]), Some (pkt 1 [10]), Some (pkt 2 [20])],
     sequenceBase = 2, sequenceTop = 1, q_syncer = newSyncer 3, lastResend = 0\<rparr>"

lemma ring_example_rel:
  "ring_rel 3 ring_example [pkt 0 [0], pkt 1 [10], pkt 2 [20], pkt 0 [30]] 2"
  by (simp add: ring_rel_def ring_example_def newSyncer_def seqno_def All_less_Suc)

text \<open>
  C14: acknowledgements are cumulative. When packets \<open>b, \<dots>, t - 1\<close> are outstanding, the
  acknowledgement of any of them moves the base just behind it, the repeated
  acknowledgement of packet \<open>b - 1\<close> changes nothing, and the result says which it was.
\<close>

theorem processACK_cumulative:
  assumes "ring_rel s q h b" and "b \<le> v" and "v \<le> length h" and "0 < v"
  shows "\<exists>q'. processACK (seqno s (v - 1)) q = Some (b < v, q') \<and> ring_rel s q' h v"
  by (rule ring.ack_cumulative [OF assms])

theorem processACK_cumulative_witness:
  "\<exists>q'. processACK 0 ring_example = Some (True, q') \<and>
        ring_rel 3 q' [pkt 0 [0], pkt 1 [10], pkt 2 [20], pkt 0 [30]] 4"
  using processACK_cumulative [OF ring_example_rel, of 4] by (simp add: seqno_def)

text \<open>
  An acknowledgement whose label is that of no outstanding packet is ignored: base, top
  and content of the queue stay as they are.
\<close>

theorem processACK_not_outstanding:
  assumes "ring_rel s q h b" and "x < s" and "\<forall>i. b \<le> i \<and> i < length h \<longrightarrow> x \<noteq> seqno s i"
  shows "\<exists>q'. processACK x q = Some (False, q') \<and> sequenceBase q' = sequenceBase q \<and>
              sequenceTop q' = sequenceTop q \<and> content q' = content q"
  using processACK_ignored [OF assms] by auto

text \<open>
  C15: a NACK for number \<open>v\<close> of the window acknowledges everything before \<open>v\<close>. The queue
  is to be resent iff something is left of it, and a NACK at the top empties it.
\<close>

theorem processNACK_spec:
  assumes "ring_rel s q h b" and "b \<le> v" and "v \<le> length h"
  shows "\<exists>q'. processNACK r (seqno s v) q = ((v < length h, v = length h \<or> b < v), q') \<and>
              ring_rel s q' h v \<and> (v = length h \<longrightarrow> queue_size q' = 0)"
proof -
  obtain q' where q': "processNACK r (seqno s v) q = ((v < length h, v = length h \<or> b < v), q')"
    using processNACK_eq [OF assms, of r] by blast
  have rel: "ring_rel s q' h v" using ring.nack_law [OF assms, of r] q' by simp
  then show ?thesis using q' ring_rel_size [OF rel] by (simp add: word_unat_eq_iff)
qed

theorem processNACK_spec_witness:
  "\<exists>q'. processNACK Waiter 1 ring_example = ((False, True), q') \<and> queue_size q' = 0"
  using processNACK_spec [OF ring_example_rel, of 4 Waiter] by (auto simp: seqno_def)

text \<open>The packets of a list handed to \<^verbatim>\<open>sendPkt\<close> one after the other, up to the first error.\<close>

fun send_seq :: "(PacketData \<Rightarrow> 'st \<Rightarrow> 'e + 'st) \<Rightarrow> PacketData list \<Rightarrow> 'st \<Rightarrow> 'e + 'st" where
  "send_seq f [] st = Inr st"
| "send_seq f (p # ps) st = (case f p st of Inl e \<Rightarrow> Inl e | Inr st' \<Rightarrow> send_seq f ps st')"

lemma resend_loop_total:
  assumes "ring_rel s q h b" and "i \<le> length h" and "length h < i + unat s"
    and "length h - i < fuel"
  shows "resend_loop fuel f (seqno s i) (seqno s (length h)) q st = Some (send_seq f (drop i h) st)"
  using assms(2-)
proof (induction fuel arbitrary: i st)
  case (Suc fuel)
  have s: "s \<noteq> 0" "q_s q = s" using assms(1) by (auto simp: ring_rel_def)
  have eq: "seqno s i = seqno s (length h) \<longleftrightarrow> i = length h"
    using Suc.prems s by (auto simp: seqno_window)
  show ?case
  proof (cases "i = length h")
    case False
    then have i: "i < length h" using Suc.prems by simp
    have "resend_fetch (seqno s i) q = Some (h ! i)"
      using resend_fetch_ring [OF assms(1) i] Suc.prems by simp
    moreover have "resend_advance (seqno s i) q = Some (seqno s (Suc i))"
      using s by (simp add: resend_advance_def seqno_Suc)
    moreover have "drop i h = h ! i # drop (Suc i) h"
      using i by (simp add: Cons_nth_drop_Suc)
    ultimately show ?thesis
      using Suc.IH [of "Suc i"] Suc.prems i eq False by (auto split: sum.split)
  qed (simp add: eq)
qed simp

text \<open>
  C13: a resend that the back-off admits terminates without a panic. It transmits exactly
  the outstanding packets, oldest first (up to the first error of the stream), keeps the
  queue, and leaves the syncer waiting for the other side to report the label of the top.
\<close>

theorem resend_spec:
  assumes "ring_rel s q h b" and "b < length h"
    and "GetHandshakeTimeout m \<le> time_sub now (lastResend q)"
  shows "\<exists>q'. resend now now' m f q st =
           Some (case send_seq f (drop b h) st of Inl e \<Rightarrow> Inl e | Inr st' \<Rightarrow> Inr (True, st'), q') \<and>
         ring_rel s q' h b \<and> lastResend q' = now' \<and>
         sync_state (q_syncer q') = syncStateResending \<and>
         expectedNACK (q_syncer q') = seqno s (length h)"
proof -
  have s: "s \<noteq> 0" "q_s q = s" "sync_s (q_syncer q) = s" "sequenceBase q = seqno s b"
    "sequenceTop q = seqno s (length h)" "length h < b + unat s"
    using assms(1) by (auto simp: ring_rel_def)
  have ne: "seqno s b \<noteq> seqno s (length h)" using assms(2) s by (simp add: seqno_window)
  have size: "queue_size q \<noteq> 0" using ring_rel_size [OF assms(1)] assms(2) by auto
  obtain c where c: "initResendUpTo (seqno s (length h)) (q_syncer q) = Some c"
    and cs: "sync_s c = s" "sync_state c = syncStateResending" "expectedNACK c = seqno s (length h)"
    using s by (simp add: initResendUpTo_def)
  let ?q = "q\<lparr>lastResend := now', q_syncer := c\<rparr>"
  have rel: "ring_rel s ?q h b"
    using assms(1) cs(1) by (simp add: ring_rel_def)
  have "length h - b < 256" using s(6) unat_u8_less [of s] by linarith
  then have "resend_loop 256 f (seqno s b) (seqno s (length h)) ?q st
      = Some (send_seq f (drop b h) st)"
    using resend_loop_total [OF rel, of b] assms(2) s(6) by simp
  then have "resend now now' m f q st =
      Some (case send_seq f (drop b h) st of Inl e \<Rightarrow> Inl e | Inr st' \<Rightarrow> Inr (True, st'), ?q)"
    using assms(3) size ne s c
    by (simp add: resend_def resend_begin_def resend_snapshot_def split: sum.split)
  then show ?thesis using rel cs by auto
qed

lemma handshake_timeout_default: "GetHandshakeTimeout (NewTimeOutManager []) = Second"
  by (simp add: GetHandshakeTimeout_def NewTimeOutManager_def default_manager_def
      GetCurrentTimeout_def NewTimeoutBooster_def timeout_defaults int64_def)

theorem resend_spec_witness:
  "\<exists>q'. resend 5000000000 5000000001 (NewTimeOutManager []) (\<lambda>p st. Inr (st @ [p]) :: unit + _)
       ring_example [] = Some (Inr (True, [pkt 2 [20], pkt 0 [30]]), q') \<and> lastResend q' = 5000000001"
proof -
  have "GetHandshakeTimeout (NewTimeOutManager []) \<le> time_sub 5000000000 (lastResend ring_example)"
    by (simp add: handshake_timeout_default ring_example_def time_sub_def)
  then show ?thesis
    using resend_spec [OF ring_example_rel, of "NewTimeOutManager []" 5000000000 5000000001
        "\<lambda>p st. Inr (st @ [p])" "[]"]
    by auto
qed

lemma resend_loop_panic:
  "base \<noteq> topSeq \<Longrightarrow> resend_fetch base q = None \<Longrightarrow> resend_loop fuel f base topSeq q st = None"
  by (cases fuel) auto

text \<open>
  Labels are not validated. A NACK whose label is no label at all (not below \<open>s\<close>) is
  taken to be in the window whenever the window wraps; the base then leaves the ring and the
  next resend panics with an index out of range.
\<close>

theorem processNACK_out_of_range:
  "\<exists>q'. processNACK r 200 ring_example = ((True, True), q') \<and> sequenceBase q' = 200 \<and>
        resend 5000000000 now' (NewTimeOutManager []) f q' st = None"
proof -
  let ?q = "ring_example\<lparr>sequenceBase := 200\<rparr>"
  have "processNACK r 200 ring_example = ((True, True), ?q)"
    by (simp add: processNACK_def ring_example_def containsSequence_def sync_processNACK_def
        newSyncer_def)
  moreover have "resend 5000000000 now' (NewTimeOutManager []) f ?q st = None"
  proof -
    have "\<not> time_sub 5000000000 0 < GetHandshakeTimeout (NewTimeOutManager [])"
      by (simp add: handshake_timeout_default time_sub_def)
    moreover have "resend_fetch 200 (?q\<lparr>lastResend := now', q_syncer := c\<rparr>) = None" for c
      by (simp add: resend_fetch_def ring_example_def)
    ultimately show ?thesis
      by (simp add: resend_def resend_begin_def resend_snapshot_def queue_size_def
          initResendUpTo_def resend_loop_panic ring_example_def newSyncer_def)
  qed
  ultimately show ?thesis by simp
qed

end
