(* ===== verification/GBN_Ticker.thy ===== *)
theory GBN_Ticker
  imports LNC_Prelude
begin

section \<open>The interval-aware ticker (gbn/ticker.go)\<close>

text \<open>
  \<^verbatim>\<open>IntervalAwareForceTicker\<close>: a clock ticker whose ticks a goroutine forwards to the
  unbuffered channel \<^verbatim>\<open>Force\<close> while the ticker is active. The connection uses one for its
  pings and one for its pong timeout. The goroutine's place is part of the state, because
  \<^verbatim>\<open>Pause\<close> can only drop a tick that the goroutine already offers.
\<close>

datatype tick_pc =
    TWait \<comment> \<open>in the select over the clock and quit\<close>
  | TFired time \<comment> \<open>saw the clock tick and \<^verbatim>\<open>IsActive\<close>, not in the second select yet\<close>
  | TOffer time \<comment> \<open>in the select over Force, skip and quit\<close>
  | TExit

record ticker =
  isActive :: bool
  interval :: duration
  lastTimedTick :: time
  tick_pc :: tick_pc
  clock_running :: bool \<comment> \<open>the underlying \<^verbatim>\<open>time.Ticker\<close> is not stopped\<close>
  t_quit :: bool

text \<open>\<^verbatim>\<open>time.NewTicker\<close> panics unless the interval is positive.\<close>

definition NewIntervalAwareForceTicker :: "time \<Rightarrow> duration \<Rightarrow> ticker option" where
  "NewIntervalAwareForceTicker now d =
     (if d \<le> 0 then None
      else Some \<lparr>isActive = False, interval = d, lastTimedTick = now, tick_pc = TWait,
                 clock_running = True, t_quit = False\<rparr>)"

definition Resume :: "ticker \<Rightarrow> ticker" where
  "Resume t = t\<lparr>isActive := True\<rparr>"

definition IsActive :: "ticker \<Rightarrow> bool" where
  "IsActive t = isActive t"

text \<open>The non-blocking send on \<^verbatim>\<open>skip\<close> reaches the goroutine only in its second select.\<close>

definition drop_offer :: "ticker \<Rightarrow> ticker" where
  "drop_offer t = (case tick_pc t of TOffer _ \<Rightarrow> t\<lparr>tick_pc := TWait\<rparr> | _ \<Rightarrow> t)"

definition Pause :: "ticker \<Rightarrow> ticker" where
  "Pause t = drop_offer (t\<lparr>isActive := False\<rparr>)"

text \<open>
  \<^verbatim>\<open>close(t.quit); t.wg.Wait()\<close> ends the goroutine wherever it stands. Closing the channel
  twice panics.
\<close>

definition stop_goroutine :: "ticker \<Rightarrow> ticker option" where
  "stop_goroutine t =
     (if t_quit t then None
      else Some (t\<lparr>clock_running := False, t_quit := True, tick_pc := TExit\<rparr>))"

definition StopTicker :: "ticker \<Rightarrow> ticker option" where
  "StopTicker t = stop_goroutine (Pause t)"

definition ResetWithInterval :: "time \<Rightarrow> duration \<Rightarrow> ticker \<Rightarrow> ticker option" where
  "ResetWithInterval now d t =
     do { t1 \<leftarrow> stop_goroutine t;
          if d \<le> 0 then None
          else Some (t1\<lparr>interval := d, clock_running := True, t_quit := False,
                        lastTimedTick := now, tick_pc := TWait\<rparr>) }"

definition ResetTicker :: "time \<Rightarrow> ticker \<Rightarrow> ticker option" where
  "ResetTicker now t = ResetWithInterval now (interval t) t"

definition LastTimedTick :: "ticker \<Rightarrow> time" where
  "LastTimedTick t = lastTimedTick t"

definition NextTickIn :: "time \<Rightarrow> ticker \<Rightarrow> duration" where
  "NextTickIn now t =
     (let d = time_sub (LastTimedTick t + interval t) now in if d < 0 then 0 else d)"

text \<open>
  The goroutine started by \<^verbatim>\<open>start\<close>. \<open>tick_fire\<close>: a tick of the clock, up to the check
  of \<^verbatim>\<open>IsActive\<close>; \<open>tick_offer\<close>: it enters the second select; \<open>tick_take\<close>: a client
  receives from \<^verbatim>\<open>Ticks()\<close>.
\<close>

definition tick_fire :: "time \<Rightarrow> ticker \<Rightarrow> ticker" where
  "tick_fire now t =
     (if tick_pc t = TWait \<and> clock_running t then
        let t' = t\<lparr>lastTimedTick := now\<rparr>
        in if \<not> IsActive t' then t' else t'\<lparr>tick_pc := TFired now\<rparr>
      else t)"

definition tick_offer :: "ticker \<Rightarrow> ticker" where
  "tick_offer t = (case tick_pc t of TFired x \<Rightarrow> t\<lparr>tick_pc := TOffer x\<rparr> | _ \<Rightarrow> t)"

definition tick_take :: "ticker \<Rightarrow> (time \<times> ticker) option" where
  "tick_take t = (case tick_pc t of TOffer x \<Rightarrow> Some (x, t\<lparr>tick_pc := TWait\<rparr>) | _ \<Rightarrow> None)"

text \<open>
  \<^verbatim>\<open>ForceTick\<close> resets the clock and then blocks until a client receives; the result is
  the state in which it blocks.
\<close>

definition ForceTick_reset :: "time \<Rightarrow> ticker \<Rightarrow> ticker option" where
  "ForceTick_reset now t = ResetWithInterval now (interval t) t"

inductive tick_step :: "ticker \<Rightarrow> ticker \<Rightarrow> bool" where
  ts_fire: "lastTimedTick t + interval t \<le> now \<Longrightarrow> tick_step t (tick_fire now t)"
| ts_offer: "tick_step t (tick_offer t)"
| ts_take: "tick_take t = Some (x, t') \<Longrightarrow> tick_step t t'"

lemmas ticker_ops = NewIntervalAwareForceTicker_def Resume_def IsActive_def drop_offer_def
  Pause_def stop_goroutine_def StopTicker_def ResetWithInterval_def ResetTicker_def
  tick_fire_def tick_offer_def tick_take_def

definition ticker_inv :: "ticker \<Rightarrow> bool" where
  "ticker_inv t \<longleftrightarrow> 0 < interval t \<and> (t_quit t \<longleftrightarrow> tick_pc t = TExit) \<and>
     (clock_running t \<longleftrightarrow> \<not> t_quit t)"

lemma ticker_inv_ops:
  "0 < d \<Longrightarrow> \<exists>t. NewIntervalAwareForceTicker now d = Some t \<and> ticker_inv t \<and> \<not> t_quit t"
  "ticker_inv t \<Longrightarrow> ticker_inv (Resume t) \<and> ticker_inv (Pause t)"
  "ticker_inv t \<Longrightarrow> \<not> t_quit t \<Longrightarrow> 0 < d \<Longrightarrow>
     \<exists>t'. ResetWithInterval now d t = Some t' \<and> ticker_inv t' \<and> \<not> t_quit t'"
  "ticker_inv t \<Longrightarrow> \<not> t_quit t \<Longrightarrow> \<exists>t'. StopTicker t = Some t' \<and> ticker_inv t' \<and> t_quit t'"
  by (auto simp: ticker_inv_def ticker_ops split: tick_pc.split)

lemma ticker_inv_step: "tick_step t t' \<Longrightarrow> ticker_inv t \<Longrightarrow> ticker_inv t'"
  by (induction rule: tick_step.induct)
     (auto simp: ticker_inv_def ticker_ops Let_def split: tick_pc.splits)

definition ticks_from :: "time \<Rightarrow> ticker \<Rightarrow> bool" where
  "ticks_from T t \<longleftrightarrow> (case tick_pc t of TFired x \<Rightarrow> T \<le> x | TOffer x \<Rightarrow> T \<le> x | _ \<Rightarrow> True) \<and>
     T \<le> lastTimedTick t + interval t \<and> 0 < interval t"

lemma ticks_from_step: "tick_step t t' \<Longrightarrow> ticks_from T t \<Longrightarrow> ticks_from T t'"
  by (induction rule: tick_step.induct)
     (auto simp: ticks_from_def ticker_ops Let_def split: tick_pc.splits)


definition ticker_example :: "ticker" where
  "ticker_example = \<lparr>isActive = True, interval = 5, lastTimedTick = 100, tick_pc = TOffer 100,
                     clock_running = True, t_quit = False\<rparr>"


text \<open>A run of the goroutine with the number of ticks that clients received.\<close>

inductive tick_run :: "ticker \<Rightarrow> nat \<Rightarrow> ticker \<Rightarrow> bool" where
  tr_refl: "tick_run t 0 t"
| tr_fire: "tick_run t k t1 \<Longrightarrow> tick_run t k (tick_fire now t1)"
| tr_offer: "tick_run t k t1 \<Longrightarrow> tick_run t k (tick_offer t1)"
| tr_take: "tick_run t k t1 \<Longrightarrow> tick_take t1 = Some (x, t2) \<Longrightarrow> tick_run t (Suc k) t2"

definition held :: "ticker \<Rightarrow> nat" where
  "held t = (case tick_pc t of TFired _ \<Rightarrow> 1 | TOffer _ \<Rightarrow> 1 | _ \<Rightarrow> 0)"

lemma inactive_run:
  "tick_run t k t' \<Longrightarrow> \<not> isActive t \<Longrightarrow> \<not> isActive t' \<and> k + held t' \<le> held t"
  by (induction rule: tick_run.induct)
     (auto simp: held_def ticker_ops Let_def split: tick_pc.splits)

text \<open>
  A paused ticker delivers nothing, except the one tick that its goroutine had seen,
  together with the active flag, but did not offer yet when \<^verbatim>\<open>Pause\<close> ran.
\<close>

theorem pause_stops_ticks:
  assumes "tick_run (Pause t) k t'"
  shows "k \<le> (if \<exists>x. tick_pc t = TFired x then 1 else 0)"
proof -
  have "\<not> isActive (Pause t)" by (simp add: Pause_def drop_offer_def split: tick_pc.splits)
  then have "k \<le> held (Pause t)" using inactive_run [OF assms] by simp
  also have "\<dots> \<le> (if \<exists>x. tick_pc t = TFired x then 1 else 0)"
    by (auto simp: held_def Pause_def drop_offer_def split: tick_pc.splits)
  finally show ?thesis .
qed

end
