(* ===== verification/GBN_Conn.thy ===== *)
theory GBN_Conn
  imports GBN_Queue GBN_Ticker
begin

section \<open>The connection (gbn/gbn\_conn.go, gbn/config.go, gbn/options.go)\<close>

text \<open>
  A connection runs two goroutines, \<^verbatim>\<open>sendPacketsForever\<close> and
  \<^verbatim>\<open>receivePacketsForever\<close>, and serves the calls \<^verbatim>\<open>Send\<close>, \<^verbatim>\<open>Recv\<close> and
  \<^verbatim>\<open>Close\<close>. Its state is the record \<open>GoBackNConn\<close>, with the places of the two goroutines
  as program counters. Every piece of a goroutine between two points where another goroutine
  can interfere is one function; the relation \<open>conn_step\<close> interleaves them.
  \<^item> \<open>outbox\<close> holds the bytes that \<^verbatim>\<open>sendToStream\<close> accepted, oldest first: the direction
    of the transport that leads to the peer. A call that fails puts nothing there; its
    outcome is the argument \<open>res\<close>.
  \<^item> \<open>now\<close> is the clock, read once per step.
  \<^item> \<open>submitted\<close> and \<open>accepted\<close> are history: the packets that were added to the queue and
    the packets for which \<^verbatim>\<open>recvSeq\<close> was advanced. No operation reads them.
\<close>

subsection \<open>Configuration\<close>

datatype gbn_error =
    ErrEOF | errTransportClosing | errKeepaliveTimeout | errSendTimeout | errRecvTimeout
  | ErrExited \<comment> \<open>"cannot send, gbn exited", "cannot receive, gbn exited"\<close>
  | ErrSendStream \<comment> \<open>\<^verbatim>\<open>sendToStream\<close> failed\<close>
  | ErrRecvStream \<comment> \<open>\<^verbatim>\<open>recvFromStream\<close> failed\<close>
  | ErrDeserialize
  | ErrUnexpected \<comment> \<open>"received unexpected message"\<close>
  | ErrContext \<comment> \<open>the context was cancelled\<close>
  | ErrBadN \<comment> \<open>"n must be smaller than 255"\<close>

definition DefaultN :: u8 where
  "DefaultN = 20"

record config =
  cfg_n :: u8
  cfg_s :: u8
  maxChunkSize :: int
  hasOnFIN :: bool
  timeoutOptions :: "(TimeoutManager \<Rightarrow> TimeoutManager) list"

definition newConfig :: "u8 \<Rightarrow> config" where
  "newConfig n = \<lparr>cfg_n = n, cfg_s = n + 1, maxChunkSize = 0, hasOnFIN = False, timeoutOptions = []\<rparr>"

definition WithMaxSendSize :: "int \<Rightarrow> config \<Rightarrow> config" where
  "WithMaxSendSize sz c = c\<lparr>maxChunkSize := sz\<rparr>"

definition WithTimeoutOptions :: "(TimeoutManager \<Rightarrow> TimeoutManager) list \<Rightarrow> config \<Rightarrow> config" where
  "WithTimeoutOptions opts c = c\<lparr>timeoutOptions := opts\<rparr>"

definition WithOnFIN :: "config \<Rightarrow> config" where
  "WithOnFIN c = c\<lparr>hasOnFIN := True\<rparr>"

subsection \<open>State\<close>

text \<open>The place of the sender inside \<^verbatim>\<open>resendQueue\<close>.\<close>

datatype resend_pc =
    RsBegin | RsSnapshot
  | RsLoop u8 u8 \<comment> \<open>the loop's base and top\<close>
  | RsSync \<comment> \<open>about to enter the select of \<^verbatim>\<open>waitForSync\<close>\<close>
  | RsInSync \<comment> \<open>inside \<^verbatim>\<open>waitForSync\<close>; the syncer's \<open>waiter\<close> says where\<close>
  | RsFinish \<comment> \<open>\<^verbatim>\<open>resend\<close> has returned\<close>

datatype sender_pc =
    SNotStarted
  | SLoop \<comment> \<open>in the select of the outer loop\<close>
  | SSend PacketData \<comment> \<open>packet added to the queue, about to be sent\<close>
  | SCheck \<comment> \<open>about to compare the size with n\<close>
  | SEnterFull \<comment> \<open>the queue was full, not in the inner select yet\<close>
  | SFull \<comment> \<open>in the inner select\<close>
  | SResend bool resend_pc \<comment> \<open>in \<^verbatim>\<open>resendQueue\<close>, called in the inner loop (True) or not\<close>
  | SReturned "gbn_error option"

datatype receiver_pc =
    RNotStarted
  | RLoop \<comment> \<open>about to read from the stream\<close>
  | RPush PacketData \<comment> \<open>in the select that passes a packet to \<^verbatim>\<open>recvDataChan\<close>\<close>
  | RReturned "gbn_error option"

datatype close_pc = COpen | CFin | CStop | CWait | CClosed

record GoBackNConn =
  cfg :: config
  sendQueue :: queue
  recvSeq :: u8
  resendInterval :: duration \<comment> \<open>period of resendTicker\<close>
  resendTick :: bool \<comment> \<open>resendTicker.C has a tick\<close>
  recvDataChan :: "PacketData list"
  recvDataCap :: nat
  resendSignal :: bool
  pingTicker :: "ticker option"
  pongTicker :: "ticker option"
  timeoutManager :: TimeoutManager
  remoteClosed :: bool
  conn_quit :: bool
  ctxDone :: bool
  close_pc :: close_pc
  finCalls :: nat \<comment> \<open>calls of the onFIN callback\<close>
  lastNackSeq :: u8
  lastNackTime :: time
  spc :: sender_pc
  rpc :: receiver_pc
  outbox :: "bytes list"
  submitted :: "PacketData list"
  accepted :: "PacketData list"

definition newGoBackNConn :: "config \<Rightarrow> GoBackNConn" where
  "newGoBackNConn c =
     \<lparr>cfg = c, sendQueue = newQueue (cfg_n c + 1), recvSeq = 0,
      resendInterval = 0, resendTick = False,
      recvDataChan = [], recvDataCap = unat (cfg_n c), resendSignal = False,
      pingTicker = None, pongTicker = None,
      timeoutManager = NewTimeOutManager (timeoutOptions c),
      remoteClosed = False, conn_quit = False, ctxDone = False, close_pc = COpen, finCalls = 0,
      lastNackSeq = 0, lastNackTime = zero_time,
      spc = SNotStarted, rpc = RNotStarted,
      outbox = [], submitted = [], accepted = []\<rparr>"

definition conn_SetSendTimeout :: "duration \<Rightarrow> GoBackNConn \<Rightarrow> GoBackNConn" where
  "conn_SetSendTimeout d g = g\<lparr>timeoutManager := SetSendTimeout d (timeoutManager g)\<rparr>"

definition conn_SetRecvTimeout :: "duration \<Rightarrow> GoBackNConn \<Rightarrow> GoBackNConn" where
  "conn_SetRecvTimeout d g = g\<lparr>timeoutManager := SetRecvTimeout d (timeoutManager g)\<rparr>"

definition setN :: "u8 \<Rightarrow> GoBackNConn \<Rightarrow> GoBackNConn" where
  "setN n g =
     g\<lparr>cfg := (cfg g)\<lparr>cfg_n := n, cfg_s := n + 1\<rparr>, recvDataChan := [], recvDataCap := unat n,
       sendQueue := newQueue (n + 1)\<rparr>"

text \<open>
  \<^verbatim>\<open>start\<close>. The tickers panic on an interval that is not positive.
\<close>

definition start :: "time \<Rightarrow> GoBackNConn \<Rightarrow> GoBackNConn option" where
  "start now g =
     do { ping \<leftarrow> NewIntervalAwareForceTicker now (GetPingTime (timeoutManager g));
          pong \<leftarrow> NewIntervalAwareForceTicker now (GetPongTime (timeoutManager g));
          if GetResendTimeout (timeoutManager g) \<le> 0 then None
          else Some (g\<lparr>pingTicker := Some (Resume ping), pongTicker := Some pong,
                       resendInterval := GetResendTimeout (timeoutManager g),
                       rpc := RLoop, spc := SLoop\<rparr>) }"

subsection \<open>Sending\<close>

definition sendPacket :: "time \<Rightarrow> gbn_error option \<Rightarrow> Message \<Rightarrow> bool \<Rightarrow> GoBackNConn \<Rightarrow>
    gbn_error + GoBackNConn" where
  "sendPacket now res msg isResend g =
     (case res of
        Some e \<Rightarrow> Inl e
      | None \<Rightarrow> Inr (g\<lparr>outbox := outbox g @ [Serialize msg],
                        timeoutManager := Sent now msg isResend (timeoutManager g)\<rparr>))"

text \<open>\<^verbatim>\<open>time.Ticker.Reset\<close> drops a tick not yet received and panics unless the period is positive.\<close>

definition reset_resendTicker :: "GoBackNConn \<Rightarrow> GoBackNConn option" where
  "reset_resendTicker g =
     (let d = GetResendTimeout (timeoutManager g)
      in if d \<le> 0 then None else Some (g\<lparr>resendInterval := d, resendTick := False\<rparr>))"

text \<open>\<^verbatim>\<open>addPacket\<close> in the sender's goroutine; the packet is sent next.\<close>

definition add_packet :: "PacketData \<Rightarrow> GoBackNConn \<Rightarrow> GoBackNConn option" where
  "add_packet packet g =
     do { (p, q) \<leftarrow> addPacket packet (sendQueue g);
          Some (g\<lparr>sendQueue := q, submitted := submitted g @ [p], spc := SSend p\<rparr>) }"

text \<open>The case of the ping tick in the outer select.\<close>

definition ping_packet :: PacketData where
  "ping_packet = \<lparr>Seq = 0, FinalChunk = False, IsPing = True, Payload = []\<rparr>"

definition ping_case :: "time \<Rightarrow> GoBackNConn \<Rightarrow> GoBackNConn option" where
  "ping_case now g =
     do { ping \<leftarrow> pingTicker g;
          pong \<leftarrow> pongTicker g;
          case tick_take pong of
            Some (_, pong') \<Rightarrow>
              Some (g\<lparr>pongTicker := Some pong', spc := SReturned (Some errKeepaliveTimeout)\<rparr>)
          | None \<Rightarrow>
              do { pong' \<leftarrow> ResetWithInterval now (GetPongTime (timeoutManager g)) pong;
                   ping' \<leftarrow> ResetTicker now ping;
                   add_packet ping_packet
                     (g\<lparr>pongTicker := Some (Resume pong'), pingTicker := Some ping'\<rparr>) } }"

definition send_added :: "time \<Rightarrow> gbn_error option \<Rightarrow> PacketData \<Rightarrow> GoBackNConn \<Rightarrow> GoBackNConn" where
  "send_added now res p g =
     (case sendPacket now res (Data p) False g of
        Inl e \<Rightarrow> g\<lparr>spc := SReturned (Some e)\<rparr>
      | Inr g' \<Rightarrow> g'\<lparr>spc := SCheck\<rparr>)"

definition check_size :: "GoBackNConn \<Rightarrow> GoBackNConn" where
  "check_size g =
     (if queue_size (sendQueue g) < cfg_n (cfg g) then g\<lparr>spc := SLoop\<rparr> else g\<lparr>spc := SEnterFull\<rparr>)"

text \<open>\<^verbatim>\<open>resendQueue\<close>, from \<^verbatim>\<open>resend\<close> to the reset of the ticker.\<close>

definition rs_begin :: "time \<Rightarrow> bool \<Rightarrow> GoBackNConn \<Rightarrow> GoBackNConn" where
  "rs_begin now inner g =
     (let (go, q) = resend_begin now now (timeoutManager g) (sendQueue g)
      in g\<lparr>sendQueue := q, spc := SResend inner (if go then RsSnapshot else RsFinish)\<rparr>)"

definition rs_snapshot :: "bool \<Rightarrow> GoBackNConn \<Rightarrow> GoBackNConn option" where
  "rs_snapshot inner g =
     do { (snap, q) \<leftarrow> resend_snapshot (sendQueue g);
          Some (g\<lparr>sendQueue := q,
                  spc := SResend inner (case snap of None \<Rightarrow> RsFinish
                                        | Some (base, topSeq) \<Rightarrow> RsLoop base topSeq)\<rparr>) }"

definition rs_loop :: "time \<Rightarrow> gbn_error option \<Rightarrow> bool \<Rightarrow> u8 \<Rightarrow> u8 \<Rightarrow> GoBackNConn \<Rightarrow>
    GoBackNConn option" where
  "rs_loop now res inner base topSeq g =
     (if base = topSeq then Some (g\<lparr>spc := SResend inner RsSync\<rparr>)
      else do { packet \<leftarrow> resend_fetch base (sendQueue g);
                case sendPacket now res (Data packet) True g of
                  Inl e \<Rightarrow> Some (g\<lparr>spc := SReturned (Some e)\<rparr>)
                | Inr g' \<Rightarrow> do { base' \<leftarrow> resend_advance base (sendQueue g');
                                Some (g'\<lparr>spc := SResend inner (RsLoop base' topSeq)\<rparr>) } })"

definition rs_finish :: "bool \<Rightarrow> GoBackNConn \<Rightarrow> GoBackNConn option" where
  "rs_finish inner g =
     do { g' \<leftarrow> reset_resendTicker g;
          Some (g'\<lparr>resendTick := False, spc := (if inner then SCheck else SLoop)\<rparr>) }"

text \<open>A change of the syncer inside the queue.\<close>

definition upd_syncer :: "syncer \<Rightarrow> GoBackNConn \<Rightarrow> GoBackNConn" where
  "upd_syncer c g = g\<lparr>sendQueue := (sendQueue g)\<lparr>q_syncer := c\<rparr>\<rparr>"

abbreviation conn_syncer :: "GoBackNConn \<Rightarrow> syncer" where
  "conn_syncer g \<equiv> q_syncer (sendQueue g)"

subsection \<open>Receiving\<close>

text \<open>
  The non-blocking sends on \<^verbatim>\<open>receivedACKSignal\<close> (unbuffered: the sender must stand in the
  inner select) and on \<^verbatim>\<open>resendSignal\<close> (one slot).
\<close>

definition signal_ack :: "GoBackNConn \<Rightarrow> GoBackNConn" where
  "signal_ack g = (if spc g = SFull then g\<lparr>spc := SCheck\<rparr> else g)"

definition signal_resend :: "GoBackNConn \<Rightarrow> GoBackNConn" where
  "signal_resend g = g\<lparr>resendSignal := True\<rparr>"

definition recv_data :: "time \<Rightarrow> gbn_error option \<Rightarrow> PacketData \<Rightarrow> GoBackNConn \<Rightarrow>
    GoBackNConn option" where
  "recv_data now res m g =
     (if Seq m = recvSeq g then
        case sendPacket now res (PacketACK (Seq m)) False g of
          Inl e \<Rightarrow> Some (g\<lparr>rpc := RReturned (Some e)\<rparr>)
        | Inr g1 \<Rightarrow>
            do { r \<leftarrow> go_mod (recvSeq g1 + 1) (cfg_s (cfg g1));
                 let g2 = g1\<lparr>recvSeq := r, accepted := accepted g1 @ [m]\<rparr>
                 in if IsPing m then Some g2 else Some (g2\<lparr>rpc := RPush m\<rparr>) }
      else
        let sinceSent = time_sub now (lastNackTime g);
            timeout = GetResendTimeout (timeoutManager g);
            recentlySent = sinceSent < int64 (timeout * 2)
        in if lastNackSeq g = recvSeq g \<and> recentlySent then Some g
           else case sendPacket now res (PacketNACK (recvSeq g)) False g of
                  Inl e \<Rightarrow> Some (g\<lparr>rpc := RReturned (Some e)\<rparr>)
                | Inr g1 \<Rightarrow> Some (g1\<lparr>lastNackTime := now, lastNackSeq := recvSeq g\<rparr>))"

definition recv_ack :: "u8 \<Rightarrow> GoBackNConn \<Rightarrow> GoBackNConn option" where
  "recv_ack seq g =
     do { (gotValidACK, q) \<leftarrow> processACK seq (sendQueue g);
          let g1 = g\<lparr>sendQueue := q\<rparr>
          in Some (if gotValidACK then signal_ack g1 else g1) }"

definition recv_nack :: "receiver \<Rightarrow> u8 \<Rightarrow> GoBackNConn \<Rightarrow> GoBackNConn" where
  "recv_nack r seq g =
     (let ((shouldResend, bumped), q) = processNACK r seq (sendQueue g);
          g1 = g\<lparr>sendQueue := q\<rparr>
      in if \<not> shouldResend then g1
         else signal_resend (if bumped then signal_ack g1 else g1))"

text \<open>\<^verbatim>\<open>close(g.remoteClosed)\<close> panics when the channel is closed already.\<close>

definition recv_fin :: "GoBackNConn \<Rightarrow> GoBackNConn option" where
  "recv_fin g =
     (if remoteClosed g then None
      else Some (g\<lparr>remoteClosed := True,
                   finCalls := (if hasOnFIN (cfg g) then finCalls g + 1 else finCalls g),
                   rpc := RReturned (Some errTransportClosing)\<rparr>))"

text \<open>What every received packet does to the timers.\<close>

definition recv_timers :: "time \<Rightarrow> Message \<Rightarrow> GoBackNConn \<Rightarrow> GoBackNConn option" where
  "recv_timers now msg g0 =
     (let g = g0\<lparr>timeoutManager := Received now msg (timeoutManager g0)\<rparr>
      in do { ping \<leftarrow> pingTicker g;
              ping' \<leftarrow> ResetTicker now ping;
              pong \<leftarrow> pongTicker g;
              reset_resendTicker
                (g\<lparr>pingTicker := Some ping',
                   pongTicker := Some (if IsActive pong then Pause pong else pong)\<rparr>) })"

text \<open>
  One iteration of \<^verbatim>\<open>receivePacketsForever\<close> after \<^verbatim>\<open>recvFromStream\<close> returned \<open>b\<close>. What it
  shares with the sender's goroutine it reaches in one locked call (\<^verbatim>\<open>processACK\<close>,
  \<^verbatim>\<open>processNACK\<close>), so the iteration is one step up to the blocking hand-over.
\<close>

definition receive_iteration :: "time \<Rightarrow> gbn_error option \<Rightarrow> receiver \<Rightarrow> bytes \<Rightarrow> GoBackNConn \<Rightarrow>
    GoBackNConn option" where
  "receive_iteration now res r b g0 =
     (case Deserialize b of
        Inl _ \<Rightarrow> Some (g0\<lparr>rpc := RReturned (Some ErrDeserialize)\<rparr>)
      | Inr msg \<Rightarrow>
          do { g \<leftarrow> recv_timers now msg g0;
               case msg of
                 Data m \<Rightarrow> recv_data now res m g
               | PacketACK seq \<Rightarrow> recv_ack seq g
               | PacketNACK seq \<Rightarrow> Some (recv_nack r seq g)
               | PacketFIN \<Rightarrow> recv_fin g
               | _ \<Rightarrow> Some (g\<lparr>rpc := RReturned (Some ErrUnexpected)\<rparr>) })"

subsection \<open>Closing\<close>

text \<open>
  The body of \<^verbatim>\<open>closeOnce.Do\<close>: close quit; send a FIN unless the peer did; cancel the
  context and stop the queue; wait for the goroutines and stop the tickers.
\<close>

definition close_quit :: "GoBackNConn \<Rightarrow> GoBackNConn" where
  "close_quit g = g\<lparr>conn_quit := True, close_pc := CFin\<rparr>"

definition close_fin :: "time \<Rightarrow> gbn_error option \<Rightarrow> GoBackNConn \<Rightarrow> GoBackNConn" where
  "close_fin now res g =
     (let g1 = (if remoteClosed g then g
                else case sendPacket now res PacketFIN False g of Inl _ \<Rightarrow> g | Inr g' \<Rightarrow> g')
      in g1\<lparr>close_pc := CStop\<rparr>)"

definition close_stop :: "GoBackNConn \<Rightarrow> GoBackNConn option" where
  "close_stop g =
     do { q \<leftarrow> stop_queue (sendQueue g);
          Some (g\<lparr>ctxDone := True, sendQueue := q, close_pc := CWait\<rparr>) }"

definition goroutines_done :: "GoBackNConn \<Rightarrow> bool" where
  "goroutines_done g =
     ((case spc g of SNotStarted \<Rightarrow> True | SReturned _ \<Rightarrow> True | _ \<Rightarrow> False) \<and>
      (case rpc g of RNotStarted \<Rightarrow> True | RReturned _ \<Rightarrow> True | _ \<Rightarrow> False))"

definition close_end :: "GoBackNConn \<Rightarrow> GoBackNConn option" where
  "close_end g =
     (case pingTicker g of
        None \<Rightarrow> Some (g\<lparr>close_pc := CClosed\<rparr>)
      | Some t \<Rightarrow> do { t' \<leftarrow> StopTicker t;
                       Some (g\<lparr>pingTicker := Some t', resendTick := False, close_pc := CClosed\<rparr>) })"

subsection \<open>The steps of a connection\<close>

text \<open>
  The events a connection shares with its environment: a packet taken from
  \<^verbatim>\<open>sendDataChan\<close>, a packet handed out by \<^verbatim>\<open>recvDataChan\<close>, bytes returned by
  \<^verbatim>\<open>recvFromStream\<close>.
\<close>

datatype conn_event = Tau | Submit PacketData | Deliver PacketData | Receive bytes

inductive conn_step :: "conn_event \<Rightarrow> GoBackNConn \<Rightarrow> GoBackNConn \<Rightarrow> bool" where
  \<comment> \<open>sendPacketsForever: the outer select\<close>
  cs_quit: "spc g = SLoop \<Longrightarrow> conn_quit g \<Longrightarrow> conn_step Tau g (g\<lparr>spc := SReturned None\<rparr>)"
| cs_signal: "spc g = SLoop \<Longrightarrow> resendSignal g \<Longrightarrow>
    conn_step Tau g (g\<lparr>resendSignal := False, spc := SResend False RsBegin\<rparr>)"
| cs_tick: "spc g = SLoop \<Longrightarrow> resendTick g \<Longrightarrow>
    conn_step Tau g (g\<lparr>resendTick := False, spc := SResend False RsBegin\<rparr>)"
| cs_ping: "spc g = SLoop \<Longrightarrow> pingTicker g = Some t \<Longrightarrow> tick_take t = Some (x, t') \<Longrightarrow>
    ping_case now (g\<lparr>pingTicker := Some t'\<rparr>) = Some g' \<Longrightarrow> conn_step Tau g g'"
| cs_pong: "spc g = SLoop \<Longrightarrow> pongTicker g = Some t \<Longrightarrow> tick_take t = Some (x, t') \<Longrightarrow>
    conn_step Tau g (g\<lparr>pongTicker := Some t', spc := SReturned (Some errKeepaliveTimeout)\<rparr>)"
| cs_submit: "spc g = SLoop \<Longrightarrow> add_packet packet g = Some g' \<Longrightarrow> conn_step (Submit packet) g g'"
  \<comment> \<open>sendPacketsForever: sending and the inner loop\<close>
| cs_send: "spc g = SSend p \<Longrightarrow> conn_step Tau g (send_added now res p g)"
| cs_check: "spc g = SCheck \<Longrightarrow> conn_step Tau g (check_size g)"
| cs_enter: "spc g = SEnterFull \<Longrightarrow> conn_step Tau g (g\<lparr>spc := SFull\<rparr>)"
| cs_full_quit: "spc g = SFull \<Longrightarrow> conn_quit g \<Longrightarrow> conn_step Tau g (g\<lparr>spc := SReturned None\<rparr>)"
| cs_full_signal: "spc g = SFull \<Longrightarrow> resendSignal g \<Longrightarrow>
    conn_step Tau g (g\<lparr>resendSignal := False, spc := SResend True RsBegin\<rparr>)"
| cs_full_tick: "spc g = SFull \<Longrightarrow> resendTick g \<Longrightarrow>
    conn_step Tau g (g\<lparr>resendTick := False, spc := SResend True RsBegin\<rparr>)"
  \<comment> \<open>resendQueue\<close>
| cs_rs_begin: "spc g = SResend inner RsBegin \<Longrightarrow> conn_step Tau g (rs_begin now inner g)"
| cs_rs_snapshot: "spc g = SResend inner RsSnapshot \<Longrightarrow> rs_snapshot inner g = Some g' \<Longrightarrow>
    conn_step Tau g g'"
| cs_rs_loop: "spc g = SResend inner (RsLoop base topSeq) \<Longrightarrow>
    rs_loop now res inner base topSeq g = Some g' \<Longrightarrow> conn_step Tau g g'"
| cs_rs_sync: "spc g = SResend inner RsSync \<Longrightarrow>
    conn_step Tau g ((upd_syncer ((conn_syncer g)\<lparr>waiter := InSelect\<rparr>) g)
                       \<lparr>spc := SResend inner RsInSync\<rparr>)"
| cs_rs_wait: "spc g = SResend inner RsInSync \<Longrightarrow> waiter (conn_syncer g) = InSelect \<Longrightarrow>
    conn_step Tau g (upd_syncer ((conn_syncer g)\<lparr>waiter := Resetting\<rparr>) g)"
| cs_rs_wait_quit: "spc g = SResend inner RsInSync \<Longrightarrow> waiter (conn_syncer g) = InSelect \<Longrightarrow>
    sync_quit (conn_syncer g) \<Longrightarrow>
    conn_step Tau g ((upd_syncer ((conn_syncer g)\<lparr>waiter := NotWaiting\<rparr>) g)
                       \<lparr>spc := SResend inner RsFinish\<rparr>)"
| cs_rs_reset: "spc g = SResend inner RsInSync \<Longrightarrow> waiter (conn_syncer g) = Resetting \<Longrightarrow>
    conn_step Tau g ((upd_syncer (sync_reset r ((conn_syncer g)\<lparr>waiter := NotWaiting\<rparr>)) g)
                       \<lparr>spc := SResend inner RsFinish\<rparr>)"
| cs_rs_finish: "spc g = SResend inner RsFinish \<Longrightarrow> rs_finish inner g = Some g' \<Longrightarrow>
    conn_step Tau g g'"
  \<comment> \<open>the goroutines of proceedAfterTime\<close>
| cs_proceed_quit: "0 < proceeding (conn_syncer g) \<Longrightarrow> sync_quit (conn_syncer g) \<Longrightarrow>
    conn_step Tau g (upd_syncer ((conn_syncer g)\<lparr>proceeding := proceeding (conn_syncer g) - 1\<rparr>) g)"
| cs_proceed_timeout: "0 < proceeding (conn_syncer g) \<Longrightarrow>
    conn_step Tau g (upd_syncer (proceed_timeout r (conn_syncer g)) g)"
| cs_proceed_reset: "0 < resetting (conn_syncer g) \<Longrightarrow>
    conn_step Tau g (upd_syncer (sync_reset r
      ((conn_syncer g)\<lparr>resetting := resetting (conn_syncer g) - 1\<rparr>)) g)"
  \<comment> \<open>receivePacketsForever\<close>
| cs_recv_quit: "rpc g = RLoop \<Longrightarrow> conn_quit g \<Longrightarrow> conn_step Tau g (g\<lparr>rpc := RReturned None\<rparr>)"
| cs_recv_err: "rpc g = RLoop \<Longrightarrow> conn_step Tau g (g\<lparr>rpc := RReturned (Some ErrRecvStream)\<rparr>)"
| cs_recv: "rpc g = RLoop \<Longrightarrow> receive_iteration now res r b g = Some g' \<Longrightarrow>
    conn_step (Receive b) g g'"
| cs_push: "rpc g = RPush p \<Longrightarrow> length (recvDataChan g) < recvDataCap g \<Longrightarrow>
    conn_step Tau g (g\<lparr>recvDataChan := recvDataChan g @ [p], rpc := RLoop\<rparr>)"
| cs_push_quit: "rpc g = RPush p \<Longrightarrow> conn_quit g \<Longrightarrow>
    conn_step Tau g (g\<lparr>rpc := RReturned None\<rparr>)"
| cs_deliver: "recvDataChan g = p # ps \<Longrightarrow> conn_step (Deliver p) g (g\<lparr>recvDataChan := ps\<rparr>)"
  \<comment> \<open>the clocks\<close>
| cs_clock: "conn_step Tau g (g\<lparr>resendTick := True\<rparr>)"
| cs_ping_clock: "pingTicker g = Some t \<Longrightarrow> t' = tick_fire now t \<or> t' = tick_offer t \<Longrightarrow>
    conn_step Tau g (g\<lparr>pingTicker := Some t'\<rparr>)"
| cs_pong_clock: "pongTicker g = Some t \<Longrightarrow> t' = tick_fire now t \<or> t' = tick_offer t \<Longrightarrow>
    conn_step Tau g (g\<lparr>pongTicker := Some t'\<rparr>)"
  \<comment> \<open>Close\<close>
| cs_close_quit: "close_pc g = COpen \<Longrightarrow> conn_step Tau g (close_quit g)"
| cs_close_fin: "close_pc g = CFin \<Longrightarrow> conn_step Tau g (close_fin now res g)"
| cs_close_stop: "close_pc g = CStop \<Longrightarrow> close_stop g = Some g' \<Longrightarrow> conn_step Tau g g'"
| cs_close_end: "close_pc g = CWait \<Longrightarrow> goroutines_done g \<Longrightarrow> close_end g = Some g' \<Longrightarrow>
    conn_step Tau g g'"

subsection \<open>Invariant of the sender\<close>

text \<open>
  \<open>b\<close> is the number of the oldest packet that is not acknowledged. Wherever the sender may
  add a packet there is room in the window; a resend in progress covers a final segment of
  the packets submitted so far.
\<close>

definition conn_cfg_ok :: "u8 \<Rightarrow> GoBackNConn \<Rightarrow> bool" where
  "conn_cfg_ok s g \<longleftrightarrow> 1 < s \<and> cfg_s (cfg g) = s \<and> cfg_n (cfg g) = s - 1"

fun resend_place :: "u8 \<Rightarrow> nat \<Rightarrow> resend_pc \<Rightarrow> bool" where
  "resend_place s t (RsLoop base topSeq) \<longleftrightarrow>
     topSeq = seqno s t \<and> (\<exists>i. base = seqno s i \<and> i \<le> t \<and> t < i + unat s)"
| "resend_place s t _ \<longleftrightarrow> True"

fun sender_place :: "u8 \<Rightarrow> PacketData list \<Rightarrow> nat \<Rightarrow> sender_pc \<Rightarrow> bool" where
  "sender_place s h b SLoop \<longleftrightarrow> length h < b + (unat s - 1)"
| "sender_place s h b (SSend p) \<longleftrightarrow> h \<noteq> [] \<and> p = h ! (length h - 1)"
| "sender_place s h b (SResend inner pc) \<longleftrightarrow>
     (inner \<or> length h < b + (unat s - 1)) \<and> resend_place s (length h) pc"
| "sender_place s h b _ \<longleftrightarrow> True"

definition sender_inv :: "u8 \<Rightarrow> GoBackNConn \<Rightarrow> nat \<Rightarrow> bool" where
  "sender_inv s g b \<longleftrightarrow> conn_cfg_ok s g \<and> ring_rel s (sendQueue g) (submitted g) b \<and>
     sender_place s (submitted g) b (spc g)"

text \<open>What a step other than a reception does that the peer can see.\<close>

definition sendable :: "u8 \<Rightarrow> PacketData list \<Rightarrow> Message \<Rightarrow> bool" where
  "sendable s h m \<longleftrightarrow> m = PacketFIN \<or>
     (\<exists>i < length h. length h \<le> i + (unat s - 1) \<and> m = Data (h ! i))"

definition quiet :: "u8 \<Rightarrow> GoBackNConn \<Rightarrow> GoBackNConn \<Rightarrow> bool" where
  "quiet s g g' \<longleftrightarrow> recvSeq g' = recvSeq g \<and> accepted g' = accepted g \<and>
     (\<exists>new. submitted g' = submitted g @ new) \<and>
     (outbox g' = outbox g \<or>
      (\<exists>m. outbox g' = outbox g @ [Serialize m] \<and> sendable s (submitted g') m))"

declare Serialize.simps [simp del]

lemma sync_s_more [simp]:
  "sync_s (sync_reset r c) = sync_s c"
  "sync_s (proceed_timeout r c) = sync_s c"
  by (simp_all add: syncer_ops Let_def)

lemma quiet_refl [simp]:
  "recvSeq g' = recvSeq g \<Longrightarrow> accepted g' = accepted g \<Longrightarrow> submitted g' = submitted g \<Longrightarrow>
   outbox g' = outbox g \<Longrightarrow> quiet s g g'"
  by (simp add: quiet_def)

text \<open>A step that leaves the window and the sender's place alone.\<close>

lemma sender_inv_cong:
  assumes "sender_inv s g b" and "cfg g' = cfg g" and "submitted g' = submitted g"
    and "spc g' = spc g" and "ring_rel s (sendQueue g) (submitted g) b \<Longrightarrow>
      ring_rel s (sendQueue g') (submitted g) b"
  shows "sender_inv s g' b"
  using assms by (simp add: sender_inv_def conn_cfg_ok_def)

lemma sender_inv_s: "sender_inv s g b \<Longrightarrow> s \<noteq> 0 \<and> 1 < unat s"
  by (auto simp: sender_inv_def conn_cfg_ok_def word_less_nat_alt)

lemma add_packet_spec:
  assumes "sender_inv s g b" and "length (submitted g) < b + (unat s - 1)"
  shows "\<exists>g'. add_packet p g = Some g' \<and> sender_inv s g' b \<and> quiet s g g' \<and>
     submitted g' = submitted g @ [p\<lparr>Seq := seqno s (length (submitted g))\<rparr>] \<and>
     outbox g' = outbox g \<and> rpc g' = rpc g \<and> recvDataChan g' = recvDataChan g"
proof -
  from assms(1) have "ring_rel s (sendQueue g) (submitted g) b" by (simp add: sender_inv_def)
  from ring.add_law [OF this assms(2)] obtain q'
    where "addPacket p (sendQueue g) = Some (stamp_seq s (length (submitted g)) p, q')"
      and "ring_rel s q' (submitted g @ [stamp_seq s (length (submitted g)) p]) b" by blast
  then show ?thesis using assms(1)
    by (auto simp: add_packet_def sender_inv_def  conn_cfg_ok_def quiet_def
        stamp_seq_def)
qed

lemma ping_case_spec:
  assumes "sender_inv s g b" and "spc g = SLoop" and "ping_case now g = Some g'"
  shows "sender_inv s g' b \<and> quiet s g g'"
proof -
  from assms(3) obtain pong where pong: "pongTicker g = Some pong"
    by (auto simp: ping_case_def bind_eq_Some_conv)
  show ?thesis
  proof (cases "tick_take pong")
    case (Some a)
    then show ?thesis using assms pong
      by (cases a) (auto simp: ping_case_def bind_eq_Some_conv sender_inv_def conn_cfg_ok_def)
  next
    case None
    then obtain t1 t2 where add: "add_packet ping_packet
          (g\<lparr>pongTicker := t1, pingTicker := t2\<rparr>) = Some g'"
      using assms(3) pong by (auto simp: ping_case_def bind_eq_Some_conv)
    let ?g = "g\<lparr>pongTicker := t1, pingTicker := t2\<rparr>"
    have "sender_inv s ?g b" using assms(1) by (rule sender_inv_cong) auto
    moreover have "length (submitted ?g) < b + (unat s - 1)"
      using assms(1,2) by (simp add: sender_inv_def )
    ultimately show ?thesis
      using add_packet_spec [of s ?g b ping_packet] add by (auto simp: quiet_def)
  qed
qed

lemma sendPacket_Inr:
  "sendPacket now res m isResend g = Inr g' \<longleftrightarrow> res = None \<and>
     g' = g\<lparr>outbox := outbox g @ [Serialize m],
            timeoutManager := Sent now m isResend (timeoutManager g)\<rparr>"
  by (auto simp: sendPacket_def split: option.splits)

lemma send_added_spec:
  assumes "sender_inv s g b" and "spc g = SSend p"
  shows "sender_inv s (send_added now res p g) b \<and> quiet s g (send_added now res p g)"
proof -
  have "submitted g \<noteq> []" "p = submitted g ! (length (submitted g) - 1)"
    using assms by (auto simp: sender_inv_def )
  then have "sendable s (submitted g) (Data p)"
    using sender_inv_s [OF assms(1)]
    unfolding sendable_def by (intro disjI2 exI [of _ "length (submitted g) - 1"]) auto
  then show ?thesis using assms
    by (auto simp: send_added_def sendPacket_def quiet_def sender_inv_def 
        conn_cfg_ok_def split: option.splits)
qed

lemma check_size_spec:
  assumes "sender_inv s g b"
  shows "sender_inv s (check_size g) b \<and> quiet s g (check_size g)"
proof -
  have rel: "ring_rel s (sendQueue g) (submitted g) b" and n: "unat (cfg_n (cfg g)) = unat s - 1"
    using assms sender_inv_s [OF assms]
    by (auto simp: sender_inv_def conn_cfg_ok_def unat_sub word_le_nat_alt)
  have "length (submitted g) < b + (unat s - 1)" if "queue_size (sendQueue g) < cfg_n (cfg g)"
    using ring.has_room [OF rel] that n by (simp add: word_less_nat_alt)
  then show ?thesis using assms
    by (auto simp: check_size_def sender_inv_def  conn_cfg_ok_def)
qed

lemma rs_begin_spec:
  assumes "sender_inv s g b" and "spc g = SResend inner RsBegin"
  shows "sender_inv s (rs_begin now inner g) b \<and> quiet s g (rs_begin now inner g)"
  using assms
  by (auto simp: rs_begin_def resend_begin_def sender_inv_def  conn_cfg_ok_def)

lemma rs_snapshot_spec:
  assumes "sender_inv s g b" and "spc g = SResend inner RsSnapshot"
  shows "\<exists>g'. rs_snapshot inner g = Some g' \<and> sender_inv s g' b \<and> quiet s g g'"
proof -
  have rel: "ring_rel s (sendQueue g) (submitted g) b"
    and room: "inner \<or> length (submitted g) < b + (unat s - 1)"
    using assms by (auto simp: sender_inv_def )
  then have s: "s \<noteq> 0" "sync_s (conn_syncer g) = s" "sequenceBase (sendQueue g) = seqno s b"
    "sequenceTop (sendQueue g) = seqno s (length (submitted g))"
    "b \<le> length (submitted g)" "length (submitted g) < b + unat s"
    by (auto simp: ring_rel_def)
  show ?thesis
  proof (cases "sequenceBase (sendQueue g) = sequenceTop (sendQueue g)")
    case True
    then show ?thesis using assms room
      by (auto simp: rs_snapshot_def resend_snapshot_def sender_inv_def 
          conn_cfg_ok_def)
  next
    case False
    let ?c = "(conn_syncer g)\<lparr>sync_state := syncStateResending,
       expectedACK := (s + seqno s (length (submitted g)) - 1) mod s,
       expectedNACK := seqno s (length (submitted g))\<rparr>"
    have "rs_snapshot inner g = Some (g\<lparr>sendQueue := (sendQueue g)\<lparr>q_syncer := ?c\<rparr>,
        spc := SResend inner (RsLoop (seqno s b) (seqno s (length (submitted g))))\<rparr>)"
      using False s by (simp add: rs_snapshot_def resend_snapshot_def initResendUpTo_def)
    then show ?thesis using assms(1) rel room s
      by (auto simp: sender_inv_def  conn_cfg_ok_def)
  qed
qed

lemma rs_loop_spec:
  assumes "sender_inv s g b" and "spc g = SResend inner (RsLoop base topSeq)"
  shows "\<exists>g'. rs_loop now res inner base topSeq g = Some g' \<and> sender_inv s g' b \<and> quiet s g g'"
proof -
  let ?T = "length (submitted g)"
  from assms have rel: "ring_rel s (sendQueue g) (submitted g) b"
    and room: "inner \<or> ?T < b + (unat s - 1)" and cfg: "conn_cfg_ok s g"
    by (auto simp: sender_inv_def )
  from assms obtain i where i: "topSeq = seqno s ?T" "base = seqno s i" "i \<le> ?T" "?T < i + unat s"
    by (auto simp: sender_inv_def )
  have s: "s \<noteq> 0" "q_s (sendQueue g) = s" using rel by (auto simp: ring_rel_def)
  show ?thesis
  proof (cases "base = topSeq")
    case True
    then show ?thesis using assms room
      by (auto simp: rs_loop_def sender_inv_def  conn_cfg_ok_def)
  next
    case False
    then have lt: "i < ?T" using i by (cases "i = ?T") auto
    have fetch: "resend_fetch base (sendQueue g) = Some (submitted g ! i)"
      using resend_fetch_ring [OF rel lt] i by simp
    have adv: "resend_advance base (sendQueue g) = Some (seqno s (Suc i))"
      using s i by (simp add: resend_advance_def seqno_Suc)
    have "sendable s (submitted g) (Data (submitted g ! i))"
      unfolding sendable_def using lt i by (intro disjI2 exI [of _ i]) auto
    then show ?thesis using False fetch adv rel room cfg lt i
      by (cases res)
         (auto simp: rs_loop_def sendPacket_def quiet_def sender_inv_def 
          conn_cfg_ok_def intro!: exI [of _ "Suc i"])
  qed
qed

lemma rs_finish_spec:
  assumes "sender_inv s g b" and "spc g = SResend inner RsFinish" and "rs_finish inner g = Some g'"
  shows "sender_inv s g' b \<and> quiet s g g'"
  using assms
  by (auto simp: rs_finish_def reset_resendTicker_def Let_def bind_eq_Some_conv sender_inv_def
       conn_cfg_ok_def split: if_splits)

lemma upd_syncer_spec:
  assumes "sender_inv s g b" and "sync_s c = sync_s (conn_syncer g)"
  shows "sender_inv s (upd_syncer c g) b \<and> quiet s g (upd_syncer c g)"
  using assms by (auto simp: upd_syncer_def intro: sender_inv_cong)

lemma spc_upd_spec:
  assumes "sender_inv s g b \<and> quiet s g0 g" and "sender_place s (submitted g) b pc"
  shows "sender_inv s (g\<lparr>spc := pc\<rparr>) b \<and> quiet s g0 (g\<lparr>spc := pc\<rparr>)"
  using assms by (auto simp: sender_inv_def conn_cfg_ok_def quiet_def)

lemma close_spec:
  assumes "sender_inv s g b"
  shows "sender_inv s (close_quit g) b \<and> quiet s g (close_quit g)"
    and "sender_inv s (close_fin now res g) b \<and> quiet s g (close_fin now res g)"
    and "close_stop g = Some g' \<Longrightarrow> sender_inv s g' b \<and> quiet s g g'"
    and "close_end g = Some g' \<Longrightarrow> sender_inv s g' b \<and> quiet s g g'"
proof -
  show "sender_inv s (close_quit g) b \<and> quiet s g (close_quit g)"
    using assms by (auto simp: close_quit_def intro: sender_inv_cong)
  show "sender_inv s (close_fin now res g) b \<and> quiet s g (close_fin now res g)"
    using assms by (auto simp: close_fin_def Let_def sendPacket_def quiet_def sendable_def
        intro!: sender_inv_cong [OF assms] split: option.split)
  show "sender_inv s g' b \<and> quiet s g g'" if "close_stop g = Some g'"
    using that assms
    by (auto simp: close_stop_def stop_queue_def bind_eq_Some_conv split: if_splits
        intro!: sender_inv_cong [OF assms])
  show "sender_inv s g' b \<and> quiet s g g'" if "close_end g = Some g'"
    using that assms
    by (auto simp: close_end_def bind_eq_Some_conv split: option.splits
        intro!: sender_inv_cong [OF assms])
qed

lemma conn_step_quiet:
  "conn_step e g g' \<Longrightarrow> sender_inv s g b \<Longrightarrow> \<forall>bs. e \<noteq> Receive bs \<Longrightarrow> sender_inv s g' b \<and> quiet s g g'"
proof (induction rule: conn_step.induct)
  case (cs_ping g t x t' now g')
  let ?g = "g\<lparr>pingTicker := Some t'\<rparr>"
  have "sender_inv s ?g b" using cs_ping.prems(1) by (rule sender_inv_cong) auto
  from ping_case_spec [OF this _ cs_ping.hyps(4)] cs_ping.hyps show ?case
    by (auto simp: quiet_def)
next
  case (cs_submit g packet g')
  then have "length (submitted g) < b + (unat s - 1)" by (simp add: sender_inv_def)
  from add_packet_spec [OF cs_submit.prems(1) this, of packet] cs_submit show ?case by auto
next
  case (cs_send g p now res)
  then show ?case by (intro send_added_spec)
next
  case (cs_check g)
  then show ?case by (intro check_size_spec)
next
  case (cs_rs_begin g inner now)
  then show ?case by (intro rs_begin_spec)
next
  case (cs_rs_snapshot g inner g')
  then show ?case using rs_snapshot_spec [of s g b inner] by auto
next
  case (cs_rs_loop g inner base topSeq now res g')
  then show ?case using rs_loop_spec [of s g b inner base topSeq now res] by auto
next
  case (cs_rs_sync g inner)
  then show ?case
    by (intro spc_upd_spec upd_syncer_spec) (auto simp: sender_inv_def upd_syncer_def)
next
  case (cs_rs_wait g inner)
  then show ?case by (intro upd_syncer_spec) auto
next
  case (cs_rs_wait_quit g inner)
  then show ?case
    by (intro spc_upd_spec upd_syncer_spec) (auto simp: sender_inv_def upd_syncer_def)
next
  case (cs_rs_reset g inner r)
  then show ?case
    by (intro spc_upd_spec upd_syncer_spec) (auto simp: sender_inv_def upd_syncer_def)
next
  case (cs_rs_finish g inner g')
  then show ?case by (intro rs_finish_spec)
next
  case (cs_proceed_quit g)
  then show ?case by (intro upd_syncer_spec) auto
next
  case (cs_proceed_timeout g r)
  then show ?case by (intro upd_syncer_spec) auto
next
  case (cs_proceed_reset g r)
  then show ?case by (intro upd_syncer_spec) auto
next
  case (cs_close_quit g)
  then show ?case by (intro close_spec)
next
  case (cs_close_fin g now res)
  then show ?case by (intro close_spec)
next
  case (cs_close_stop g g')
  then show ?case by (intro close_spec)
next
  case (cs_close_end g g')
  then show ?case by (intro close_spec)
qed (auto simp: sender_inv_def conn_cfg_ok_def)

subsection \<open>Receptions\<close>

text \<open>What the reception of a message does to the parts that the protocol is about.\<close>

definition same_sender :: "GoBackNConn \<Rightarrow> GoBackNConn \<Rightarrow> bool" where
  "same_sender g g' \<longleftrightarrow> cfg g' = cfg g \<and> sendQueue g' = sendQueue g \<and> submitted g' = submitted g \<and>
     spc g' = spc g"

definition same_receiver :: "GoBackNConn \<Rightarrow> GoBackNConn \<Rightarrow> bool" where
  "same_receiver g g' \<longleftrightarrow> recvSeq g' = recvSeq g \<and> accepted g' = accepted g \<and>
     outbox g' = outbox g"

lemma recv_timers_same:
  "recv_timers now msg g = Some g' \<Longrightarrow>
     same_sender g g' \<and> same_receiver g g' \<and> rpc g' = rpc g \<and> recvDataChan g' = recvDataChan g \<and>
     recvDataCap g' = recvDataCap g \<and> resendSignal g' = resendSignal g \<and>
     remoteClosed g' = remoteClosed g \<and> lastNackSeq g' = lastNackSeq g \<and>
     lastNackTime g' = lastNackTime g"
  by (auto simp: recv_timers_def reset_resendTicker_def Let_def bind_eq_Some_conv
      same_sender_def same_receiver_def split: if_splits)

lemma recv_data_cases:
  assumes "recv_data now res m g = Some g'"
  shows "same_sender g g' \<and>
     (same_receiver g g'
      \<or> Seq m \<noteq> recvSeq g \<and> recvSeq g' = recvSeq g \<and> accepted g' = accepted g \<and>
        outbox g' = outbox g @ [Serialize (PacketNACK (recvSeq g))]
      \<or> Seq m = recvSeq g \<and> cfg_s (cfg g) \<noteq> 0 \<and> recvSeq g' = (recvSeq g + 1) mod cfg_s (cfg g) \<and>
        accepted g' = accepted g @ [m] \<and> outbox g' = outbox g @ [Serialize (PacketACK (recvSeq g))])"
  using assms
  by (cases res)
     (auto simp: recv_data_def sendPacket_def same_sender_def same_receiver_def Let_def
      go_mod_def split: if_splits)

lemma sender_place_mono:
  "sender_place s h b pc \<Longrightarrow> b \<le> v \<Longrightarrow> sender_place s h v pc"
  by (cases pc) auto

lemma signal_ack_same [simp]:
  "same_receiver g (signal_ack g')  \<longleftrightarrow> same_receiver g g'"
  "cfg (signal_ack g) = cfg g" "sendQueue (signal_ack g) = sendQueue g"
  "submitted (signal_ack g) = submitted g"
  "rpc (signal_ack g) = rpc g" "recvDataChan (signal_ack g) = recvDataChan g"
  "recvSeq (signal_ack g) = recvSeq g" "accepted (signal_ack g) = accepted g" "outbox (signal_ack g) = outbox g"
  by (auto simp: signal_ack_def same_receiver_def)

lemma signal_ack_place:
  "sender_place s h b (spc g) \<Longrightarrow> sender_place s h b (spc (signal_ack g))"
  by (simp add: signal_ack_def)

lemma signal_resend_same [simp]:
  "same_receiver g (signal_resend g')  \<longleftrightarrow> same_receiver g g'"
  "cfg (signal_resend g) = cfg g" "sendQueue (signal_resend g) = sendQueue g"
  "submitted (signal_resend g) = submitted g" "spc (signal_resend g) = spc g"
  "rpc (signal_resend g) = rpc g" "recvDataChan (signal_resend g) = recvDataChan g"
  "recvSeq (signal_resend g) = recvSeq g" "accepted (signal_resend g) = accepted g" "outbox (signal_resend g) = outbox g"
  by (auto simp: signal_resend_def same_receiver_def)

lemma recv_ack_spec:
  assumes "sender_inv s g b" and "b \<le> v" and "v \<le> length (submitted g)" and "0 < v"
  shows "\<exists>g'. recv_ack (seqno s (v - 1)) g = Some g' \<and> sender_inv s g' v \<and> same_receiver g g' \<and>
              submitted g' = submitted g \<and> rpc g' = rpc g \<and> recvDataChan g' = recvDataChan g"
proof -
  have rel: "ring_rel s (sendQueue g) (submitted g) b"
    and pl: "sender_place s (submitted g) b (spc g)" using assms(1) by (auto simp: sender_inv_def)
  obtain q where q: "processACK (seqno s (v - 1)) (sendQueue g) = Some (b < v, q)"
    and rel': "ring_rel s q (submitted g) v"
    using ring.ack_cumulative [OF rel assms(2-)] by blast
  let ?g = "g\<lparr>sendQueue := q\<rparr>"
  have "sender_place s (submitted g) v (spc ?g)" using sender_place_mono [OF pl assms(2)] by simp
  then show ?thesis
    using q rel' assms(1) signal_ack_place [of s "submitted g" v ?g]
    by (simp add: recv_ack_def Let_def sender_inv_def conn_cfg_ok_def same_receiver_def)
qed

lemma recv_nack_spec:
  assumes "sender_inv s g b" and "b \<le> v" and "v \<le> length (submitted g)"
  shows "sender_inv s (recv_nack r (seqno s v) g) v \<and> same_receiver g (recv_nack r (seqno s v) g) \<and>
         submitted (recv_nack r (seqno s v) g) = submitted g \<and>
         rpc (recv_nack r (seqno s v) g) = rpc g \<and>
         recvDataChan (recv_nack r (seqno s v) g) = recvDataChan g"
proof -
  have rel: "ring_rel s (sendQueue g) (submitted g) b"
    and pl: "sender_place s (submitted g) b (spc g)" using assms(1) by (auto simp: sender_inv_def)
  obtain x y q where q: "processNACK r (seqno s v) (sendQueue g) = ((x, y), q)"
    by (metis surj_pair)
  have rel': "ring_rel s q (submitted g) v" using ring.nack_law [OF rel assms(2,3), of r] q by simp
  let ?g = "g\<lparr>sendQueue := q\<rparr>"
  have "sender_place s (submitted g) v (spc ?g)" using sender_place_mono [OF pl assms(2)] by simp
  then show ?thesis
    using q rel' assms(1) signal_ack_place [of s "submitted g" v ?g]
    by (simp add: recv_nack_def Let_def sender_inv_def conn_cfg_ok_def same_receiver_def)
qed

text \<open>Receptions, message by message.\<close>

lemma receive_Serialize:
  "receive_iteration now res r (Serialize msg) g0 =
     do { g \<leftarrow> recv_timers now msg g0;
          case msg of
            Data m \<Rightarrow> recv_data now res m g
          | PacketACK seq \<Rightarrow> recv_ack seq g
          | PacketNACK seq \<Rightarrow> Some (recv_nack r seq g)
          | PacketFIN \<Rightarrow> recv_fin g
          | _ \<Rightarrow> Some (g\<lparr>rpc := RReturned (Some ErrUnexpected)\<rparr>) }"
  by (simp add: receive_iteration_def)

lemma same_sender_inv: "same_sender g g' \<Longrightarrow> sender_inv s g' b \<longleftrightarrow> sender_inv s g b"
  by (simp add: same_sender_def sender_inv_def conn_cfg_ok_def)

lemma same_receiver_trans: "same_receiver g g1 \<Longrightarrow> same_receiver g1 g' \<Longrightarrow> same_receiver g g'"
  by (simp add: same_receiver_def)

lemma receive_ack:
  assumes "receive_iteration now res r (Serialize (PacketACK (seqno s (v - 1)))) g = Some g'"
    and "sender_inv s g b" and "b \<le> v" and "v \<le> length (submitted g)" and "0 < v"
  shows "sender_inv s g' v \<and> same_receiver g g' \<and> submitted g' = submitted g"
proof -
  from assms(1) obtain g1 where g1: "recv_timers now (PacketACK (seqno s (v - 1))) g = Some g1"
    and g': "recv_ack (seqno s (v - 1)) g1 = Some g'"
    by (auto simp: receive_Serialize bind_eq_Some_conv)
  note same = recv_timers_same [OF g1]
  have "sender_inv s g1 b" "submitted g1 = submitted g"
    using assms(2) same same_sender_inv [of g g1] by (auto simp: same_sender_def)
  then obtain "sender_inv s g' v" "same_receiver g1 g'" "submitted g' = submitted g"
    using recv_ack_spec [of s g1 b v] g' assms(3-) by auto
  then show ?thesis using same same_receiver_trans by blast
qed

lemma receive_nack:
  assumes "receive_iteration now res r (Serialize (PacketNACK (seqno s v))) g = Some g'"
    and "sender_inv s g b" and "b \<le> v" and "v \<le> length (submitted g)"
  shows "sender_inv s g' v \<and> same_receiver g g' \<and> submitted g' = submitted g"
proof -
  from assms(1) obtain g1 where g1: "recv_timers now (PacketNACK (seqno s v)) g = Some g1"
    and g': "g' = recv_nack r (seqno s v) g1"
    by (auto simp: receive_Serialize bind_eq_Some_conv)
  note same = recv_timers_same [OF g1]
  have "sender_inv s g1 b" "submitted g1 = submitted g"
    using assms(2) same same_sender_inv [of g g1] by (auto simp: same_sender_def)
  then obtain "sender_inv s g' v" "same_receiver g1 g'" "submitted g' = submitted g"
    using recv_nack_spec [of s g1 b v r] g' assms(3-) by auto
  then show ?thesis using same same_receiver_trans by blast
qed

lemma receive_data:
  assumes "receive_iteration now res r (Serialize (Data m)) g = Some g'"
  shows "same_sender g g' \<and>
     (same_receiver g g'
      \<or> Seq m \<noteq> recvSeq g \<and> recvSeq g' = recvSeq g \<and> accepted g' = accepted g \<and>
        outbox g' = outbox g @ [Serialize (PacketNACK (recvSeq g))]
      \<or> Seq m = recvSeq g \<and> cfg_s (cfg g) \<noteq> 0 \<and> recvSeq g' = (recvSeq g + 1) mod cfg_s (cfg g) \<and>
        accepted g' = accepted g @ [m] \<and> outbox g' = outbox g @ [Serialize (PacketACK (recvSeq g))])"
proof -
  from assms obtain g1 where g1: "recv_timers now (Data m) g = Some g1"
    and g': "recv_data now res m g1 = Some g'"
    by (auto simp: receive_Serialize bind_eq_Some_conv)
  have eqs: "cfg g1 = cfg g" "sendQueue g1 = sendQueue g" "submitted g1 = submitted g"
    "spc g1 = spc g" "recvSeq g1 = recvSeq g" "accepted g1 = accepted g" "outbox g1 = outbox g"
    using recv_timers_same [OF g1] by (simp_all add: same_sender_def same_receiver_def)
  show ?thesis using recv_data_cases [OF g']
    by (simp only: same_sender_def same_receiver_def eqs)
qed

text \<open>Every other message ends the receiver or changes timers only.\<close>

lemma receive_other:
  assumes "receive_iteration now res r (Serialize m) g = Some g'"
    and "m = PacketSYN n \<or> m = PacketSYNACK \<or> m = PacketFIN"
  shows "same_sender g g' \<and> same_receiver g g'"
proof -
  from assms(1) obtain g1 where g1: "recv_timers now m g = Some g1"
    by (auto simp: receive_Serialize bind_eq_Some_conv)
  have eqs: "cfg g1 = cfg g" "sendQueue g1 = sendQueue g" "submitted g1 = submitted g"
    "spc g1 = spc g" "recvSeq g1 = recvSeq g" "accepted g1 = accepted g" "outbox g1 = outbox g"
    using recv_timers_same [OF g1] by (simp_all add: same_sender_def same_receiver_def)
  have "recv_fin g1 = Some g' \<or> g' = g1\<lparr>rpc := RReturned (Some ErrUnexpected)\<rparr>"
    using assms g1 by (auto simp: receive_Serialize)
  then show ?thesis
    by (auto simp: same_sender_def same_receiver_def recv_fin_def eqs split: if_splits)
qed

end
