(* ===== verification/GBN_Protocol.thy ===== *)
theory GBN_Protocol
  imports GBN_Conn
begin

section \<open>Two connections over a lossy transport\<close>

text \<open>
  Two connections whose outboxes are the two directions of the transport. The transport
  keeps the order, may lose any message in flight and may deliver a message twice in a row.
  The safety of the protocol is an invariant of this system: for each direction, the packets
  the receiver accepts are the packets the sender submitted, in order, without gap and
  without repetition, although a label on the wire is a number modulo \<open>s\<close> only.
\<close>

type_synonym link = "GoBackNConn \<times> GoBackNConn"

definition lossy :: "bytes list \<Rightarrow> bytes list \<Rightarrow> bool" where
  "lossy xs ys \<longleftrightarrow> (\<exists>us m vs. xs = us @ m # vs \<and> (ys = us @ vs \<or> ys = us @ m # m # vs))"

inductive net_step :: "link \<Rightarrow> link \<Rightarrow> bool" where
  ns_left: "conn_step e g g' \<Longrightarrow> (\<forall>bs. e \<noteq> Receive bs) \<Longrightarrow> net_step (g, p) (g', p)"
| ns_right: "conn_step e p p' \<Longrightarrow> (\<forall>bs. e \<noteq> Receive bs) \<Longrightarrow> net_step (g, p) (g, p')"
| ns_to_right: "outbox g = bs # rest \<Longrightarrow> conn_step (Receive bs) p p' \<Longrightarrow>
    net_step (g, p) (g\<lparr>outbox := rest\<rparr>, p')"
| ns_to_left: "outbox p = bs # rest \<Longrightarrow> conn_step (Receive bs) g g' \<Longrightarrow>
    net_step (g, p) (g', p\<lparr>outbox := rest\<rparr>)"
| ns_loss_left: "lossy (outbox g) ys \<Longrightarrow> net_step (g, p) (g\<lparr>outbox := ys\<rparr>, p)"
| ns_loss_right: "lossy (outbox p) ys \<Longrightarrow> net_step (g, p) (g, p\<lparr>outbox := ys\<rparr>)"

inductive_simps conn_step_Receive: "conn_step (Receive bs) g g'"

subsection \<open>Messages in flight\<close>

text \<open>
  Data in flight: \<open>h\<close> bounds the number of packets the receiver may have accepted when it
  reaches the message. Every data message is one of the last \<open>n\<close> packets relative to that
  bound, so that its label tells the receiver which packet it is.
\<close>

fun data_ok :: "nat \<Rightarrow> PacketData list \<Rightarrow> nat \<Rightarrow> Message list \<Rightarrow> bool" where
  "data_ok n hist h [] = True"
| "data_ok n hist h (Data p # ms) =
     (\<exists>i < length hist. p = hist ! i \<and> h \<le> i + n \<and> data_ok n hist (max h (Suc i)) ms)"
| "data_ok n hist h (_ # ms) = data_ok n hist h ms"

text \<open>
  Feedback in flight: each acknowledgement and NACK reports a number of accepted packets;
  the numbers do not decrease and lie between \<open>lo\<close>, the sender's base, and \<open>hi\<close>.
\<close>

fun ack_ok :: "u8 \<Rightarrow> nat \<Rightarrow> nat \<Rightarrow> Message list \<Rightarrow> bool" where
  "ack_ok s lo hi [] = True"
| "ack_ok s lo hi (PacketACK x # ms) =
     (\<exists>v. 0 < v \<and> lo \<le> v \<and> v \<le> hi \<and> x = seqno s (v - 1) \<and> ack_ok s v hi ms)"
| "ack_ok s lo hi (PacketNACK x # ms) =
     (\<exists>v. lo \<le> v \<and> v \<le> hi \<and> x = seqno s v \<and> ack_ok s v hi ms)"
| "ack_ok s lo hi (_ # ms) = ack_ok s lo hi ms"

lemma data_ok_mono: "data_ok n hist h ms \<Longrightarrow> h' \<le> h \<Longrightarrow> data_ok n hist h' ms"
proof (induction n hist h ms arbitrary: h' rule: data_ok.induct)
  case (2 n hist h p ms)
  then obtain i where i: "i < length hist" "p = hist ! i" "h \<le> i + n"
    and ok: "data_ok n hist (max h (Suc i)) ms" by auto
  have "data_ok n hist (max h' (Suc i)) ms" by (rule 2(1) [OF ok]) (use 2(3) in auto)
  with i 2(3) show ?case by (auto intro!: exI [of _ i])
qed auto

lemma data_ok_more: "data_ok n hist h ms \<Longrightarrow> data_ok n (hist @ new) h ms"
proof (induction n hist h ms rule: data_ok.induct)
  case (2 n hist h p ms)
  then obtain i where "i < length hist" "p = hist ! i" "h \<le> i + n"
    "data_ok n (hist @ new) (max h (Suc i)) ms" by auto
  then show ?case by (auto intro!: exI [of _ i] simp: nth_append)
qed auto

lemma data_ok_send:
  assumes "i < length hist" and "length hist \<le> i + n"
  shows "data_ok n hist h ms \<Longrightarrow> h \<le> length hist \<Longrightarrow> data_ok n hist h (ms @ [Data (hist ! i)])"
  using assms
proof (induction n hist h ms rule: data_ok.induct)
  case (1 n hist h)
  then show ?case by (auto intro!: exI [of _ i])
next
  case (2 n hist h p ms)
  then obtain j where j: "j < length hist" "p = hist ! j" "h \<le> j + n"
    "data_ok n hist (max h (Suc j)) ms" by auto
  then have "data_ok n hist (max h (Suc j)) (ms @ [Data (hist ! i)])" using 2 by simp
  with j show ?case by (auto intro!: exI [of _ j])
qed auto

lemma data_ok_other:
  assumes "\<forall>p. m \<noteq> Data p"
  shows "data_ok n hist h ms \<Longrightarrow> data_ok n hist h (ms @ [m])"
proof (induction n hist h ms rule: data_ok.induct)
  case (1 n hist h)
  then show ?case using assms by (cases m) auto
qed auto

lemma ack_ok_mono: "ack_ok s lo hi ms \<Longrightarrow> lo' \<le> lo \<Longrightarrow> hi \<le> hi' \<Longrightarrow> ack_ok s lo' hi' ms"
proof (induction s lo hi ms arbitrary: lo' rule: ack_ok.induct)
  case (2 s lo hi x ms)
  then obtain v where "0 < v" "lo \<le> v" "v \<le> hi" "x = seqno s (v - 1)" "ack_ok s v hi' ms" by auto
  then show ?case using 2 by (auto intro!: exI [of _ v])
next
  case (3 s lo hi x ms)
  then obtain v where "lo \<le> v" "v \<le> hi" "x = seqno s v" "ack_ok s v hi' ms" by auto
  then show ?case using 3 by (auto intro!: exI [of _ v])
qed auto

lemma ack_ok_ack:
  "ack_ok s lo hi ms \<Longrightarrow> lo \<le> hi \<Longrightarrow> 0 < hi \<Longrightarrow> ack_ok s lo hi (ms @ [PacketACK (seqno s (hi - 1))])"
  by (induction s lo hi ms rule: ack_ok.induct) auto

lemma ack_ok_nack:
  "ack_ok s lo hi ms \<Longrightarrow> lo \<le> hi \<Longrightarrow> ack_ok s lo hi (ms @ [PacketNACK (seqno s hi)])"
  by (induction s lo hi ms rule: ack_ok.induct) auto

lemma ack_ok_other:
  assumes "\<forall>x. m \<noteq> PacketACK x \<and> m \<noteq> PacketNACK x"
  shows "ack_ok s lo hi ms \<Longrightarrow> ack_ok s lo hi (ms @ [m])"
proof (induction s lo hi ms rule: ack_ok.induct)
  case (1 s lo hi)
  then show ?case using assms by (cases m) auto
qed auto

text \<open>Loss and repetition keep both.\<close>

lemma data_ok_drop_head: "data_ok n hist h (m # ms) \<Longrightarrow> data_ok n hist h ms"
  by (cases m) (auto intro: data_ok_mono)

lemma data_ok_twice:
  assumes "data_ok n hist h (m # ms)" and "0 < n"
  shows "data_ok n hist h (m # m # ms)"
proof (cases m)
  case (Data p)
  with assms obtain i where "i < length hist" "p = hist ! i" "h \<le> i + n"
    "data_ok n hist (max h (Suc i)) ms" by auto
  then show ?thesis using assms(2) Data by (auto intro!: exI [of _ i] simp: max.absorb1)
qed (use assms in auto)

lemma data_ok_context:
  "data_ok n hist h (us @ ms) \<Longrightarrow> (\<And>h. data_ok n hist h ms \<Longrightarrow> data_ok n hist h ms') \<Longrightarrow>
   data_ok n hist h (us @ ms')"
  by (induction n hist h us rule: data_ok.induct) auto

lemma ack_ok_drop_head: "ack_ok s lo hi (m # ms) \<Longrightarrow> ack_ok s lo hi ms"
  by (cases m) (auto intro: ack_ok_mono)

lemma ack_ok_twice:
  assumes "ack_ok s lo hi (m # ms)"
  shows "ack_ok s lo hi (m # m # ms)"
proof (cases m)
  case (PacketACK x)
  with assms obtain v where "0 < v" "lo \<le> v" "v \<le> hi" "x = seqno s (v - 1)" "ack_ok s v hi ms"
    by auto
  then show ?thesis using PacketACK by (auto intro!: exI [of _ v])
next
  case (PacketNACK x)
  with assms obtain v where "lo \<le> v" "v \<le> hi" "x = seqno s v" "ack_ok s v hi ms" by auto
  then show ?thesis using PacketNACK by (auto intro!: exI [of _ v])
qed (use assms in auto)

lemma ack_ok_context:
  "ack_ok s lo hi (us @ ms) \<Longrightarrow> (\<And>lo. ack_ok s lo hi ms \<Longrightarrow> ack_ok s lo hi ms') \<Longrightarrow>
   ack_ok s lo hi (us @ ms')"
  by (induction s lo hi us rule: ack_ok.induct) auto

lemma lossy_map:
  assumes "lossy (map Serialize ms) ys"
  shows "\<exists>ms'. ys = map Serialize ms' \<and>
     (\<forall>n hist h. 0 < n \<longrightarrow> data_ok n hist h ms \<longrightarrow> data_ok n hist h ms') \<and>
     (\<forall>s lo hi. ack_ok s lo hi ms \<longrightarrow> ack_ok s lo hi ms')"
proof -
  from assms obtain us m vs where ms: "map Serialize ms = us @ m # vs"
    and ys: "ys = us @ vs \<or> ys = us @ m # m # vs" by (auto simp: lossy_def)
  then obtain us' m' vs' where ms': "ms = us' @ m' # vs'" "us = map Serialize us'"
    "m = Serialize m'" "vs = map Serialize vs'"
    by (auto simp: map_eq_append_conv map_eq_Cons_conv)
  from ys show ?thesis
  proof
    assume "ys = us @ vs"
    with ms' show ?thesis
      by (intro exI [of _ "us' @ vs'"])
         (auto elim: data_ok_context ack_ok_context intro: data_ok_drop_head ack_ok_drop_head)
  next
    assume "ys = us @ m # m # vs"
    with ms' show ?thesis
      by (intro exI [of _ "us' @ m' # m' # vs'"])
         (auto elim: data_ok_context ack_ok_context intro: data_ok_twice ack_ok_twice)
  qed
qed

subsection \<open>The invariant of one direction\<close>

text \<open>
  \<open>a\<close> sends to \<open>b\<close>. \<open>R = length (accepted b)\<close> packets are accepted, \<open>base\<close> packets are
  acknowledged; \<open>ms\<close> is in flight from \<open>a\<close> to \<open>b\<close>, \<open>ms'\<close> back.
\<close>

definition dir_state :: "u8 \<Rightarrow> GoBackNConn \<Rightarrow> GoBackNConn \<Rightarrow> nat \<Rightarrow> Message list \<Rightarrow> Message list \<Rightarrow> bool"
  where
  "dir_state s a b base ms ms' \<longleftrightarrow>
     sender_inv s a base \<and> outbox a = map Serialize ms \<and> outbox b = map Serialize ms' \<and>
     base \<le> length (accepted b) \<and> length (accepted b) \<le> length (submitted a) \<and>
     accepted b = take (length (accepted b)) (submitted a) \<and>
     recvSeq b = seqno s (length (accepted b)) \<and>
     data_ok (unat s - 1) (submitted a) (length (accepted b)) ms \<and>
     ack_ok s base (length (accepted b)) ms'"

definition dir_inv :: "u8 \<Rightarrow> GoBackNConn \<Rightarrow> GoBackNConn \<Rightarrow> bool" where
  "dir_inv s a b \<longleftrightarrow> (\<exists>base ms ms'. dir_state s a b base ms ms')"

lemma dir_invI: "dir_state s a b base ms ms' \<Longrightarrow> dir_inv s a b"
  by (auto simp: dir_inv_def)

lemma dir_state_n: "dir_state s a b base ms ms' \<Longrightarrow> s \<noteq> 0 \<and> 0 < unat s - 1"
  using sender_inv_s by (fastforce simp: dir_state_def)

text \<open>Steps of the sending side that are not receptions.\<close>

lemma dir_sender_quiet:
  assumes "dir_state s a b base ms ms'" and "sender_inv s a' base" and "quiet s a a'"
  shows "dir_inv s a' b"
proof -
  let ?R = "length (accepted b)" and ?n = "unat s - 1"
  from assms(3) obtain new where new: "submitted a' = submitted a @ new" by (auto simp: quiet_def)
  have ok: "data_ok ?n (submitted a') ?R ms"
    using assms(1) new by (simp add: dir_state_def data_ok_more)
  have le: "?R \<le> length (submitted a')" and take: "accepted b = take ?R (submitted a')"
    using assms(1) new by (auto simp: dir_state_def)
  have "\<exists>ms2. outbox a' = map Serialize ms2 \<and> data_ok ?n (submitted a') ?R ms2"
  proof (cases "outbox a' = outbox a")
    case True
    then show ?thesis using ok assms(1) by (auto simp: dir_state_def)
  next
    case False
    then obtain m where m: "outbox a' = outbox a @ [Serialize m]" "sendable s (submitted a') m"
      using assms(3) by (auto simp: quiet_def)
    then have "data_ok ?n (submitted a') ?R (ms @ [m])"
      using ok le by (auto simp: sendable_def intro: data_ok_send data_ok_other)
    then show ?thesis using m assms(1) by (intro exI [of _ "ms @ [m]"]) (simp add: dir_state_def)
  qed
  then show ?thesis using assms le take by (auto simp: dir_inv_def dir_state_def)
qed

text \<open>Steps of the accepting side that are not receptions.\<close>

lemma dir_receiver_quiet:
  assumes "dir_state s a b base ms ms'" and "quiet s b b'"
  shows "dir_inv s a b'"
proof -
  have same: "accepted b' = accepted b" "recvSeq b' = recvSeq b"
    using assms(2) by (auto simp: quiet_def)
  have "\<exists>ms2. outbox b' = map Serialize ms2 \<and> ack_ok s base (length (accepted b)) ms2"
  proof (cases "outbox b' = outbox b")
    case True
    then show ?thesis using assms(1) by (auto simp: dir_state_def)
  next
    case False
    then obtain m where m: "outbox b' = outbox b @ [Serialize m]" "sendable s (submitted b') m"
      using assms(2) by (auto simp: quiet_def)
    then have "ack_ok s base (length (accepted b)) (ms' @ [m])"
      using assms(1)
      by (auto simp: sendable_def dir_state_def intro: ack_ok_other)
    then show ?thesis using m assms(1) by (intro exI [of _ "ms' @ [m]"]) (simp add: dir_state_def)
  qed
  then show ?thesis using assms(1) same by (auto simp: dir_inv_def dir_state_def)
qed

lemma sender_inv_outbox [simp]: "sender_inv s (g\<lparr>outbox := x\<rparr>) b \<longleftrightarrow> sender_inv s g b"
  by (simp add: sender_inv_def conn_cfg_ok_def)

lemma dir_lossy_forward:
  assumes "dir_state s a b base ms ms'" and "lossy (outbox a) ys"
  shows "dir_inv s (a\<lparr>outbox := ys\<rparr>) b"
proof -
  from assms obtain ms2 where "ys = map Serialize ms2"
    "data_ok (unat s - 1) (submitted a) (length (accepted b)) ms2"
    using lossy_map [of ms ys] dir_state_n [OF assms(1)] by (auto simp: dir_state_def)
  then show ?thesis using assms(1) by (auto simp: dir_inv_def dir_state_def)
qed

lemma dir_lossy_back:
  assumes "dir_state s a b base ms ms'" and "lossy (outbox b) ys"
  shows "dir_inv s a (b\<lparr>outbox := ys\<rparr>)"
proof -
  from assms obtain ms2 where "ys = map Serialize ms2" "ack_ok s base (length (accepted b)) ms2"
    using lossy_map [of ms' ys] by (auto simp: dir_state_def)
  then show ?thesis using assms(1) by (auto simp: dir_inv_def dir_state_def)
qed

text \<open>
  The label of a data message that reaches the receiver names the next packet iff it is the
  next packet.
\<close>

lemma label_identifies:
  assumes "dir_state s a b base ms ms'" and "i < length (submitted a)"
    and "length (accepted b) \<le> i + (unat s - 1)"
  shows "Seq (submitted a ! i) = recvSeq b \<longleftrightarrow> i = length (accepted b)"
proof -
  have rel: "ring_rel s (sendQueue a) (submitted a) base" and s: "s \<noteq> 0"
    using assms(1) dir_state_n by (auto simp: dir_state_def sender_inv_def)
  have "Seq (submitted a ! i) = seqno s i" using rel assms(2) by (simp add: ring_rel_def)
  moreover have "length (submitted a) < base + unat s" using rel by (simp add: ring_rel_def)
  moreover have "recvSeq b = seqno s (length (accepted b))" "base \<le> length (accepted b)"
    using assms(1) by (auto simp: dir_state_def)
  ultimately show ?thesis
    using assms(2,3) dir_state_n [OF assms(1)] seqno_window' [OF s, of i "length (accepted b)"]
    by simp
qed

lemma receive_feedback_same:
  assumes "receive_iteration now res r (Serialize m) g = Some g'"
    and "m = PacketACK x \<or> m = PacketNACK x"
  shows "same_receiver g g'"
proof -
  from assms(1) obtain g1 where g1: "recv_timers now m g = Some g1"
    by (auto simp: receive_Serialize bind_eq_Some_conv)
  from assms g1 have "recv_ack x g1 = Some g' \<or> g' = recv_nack r x g1"
    by (auto simp: receive_Serialize)
  then have "same_receiver g1 g'"
    by (auto simp: recv_ack_def recv_nack_def same_receiver_def Let_def bind_eq_Some_conv
        split: prod.splits if_splits)
  with recv_timers_same [OF g1] show ?thesis using same_receiver_trans by blast
qed

lemma dir_receive_forward:
  assumes st: "dir_state s a b base (m # ms) ms'" and cfg: "conn_cfg_ok s b"
    and recv: "receive_iteration now res r (Serialize m) b = Some b'"
  shows "dir_inv s (a\<lparr>outbox := map Serialize ms\<rparr>) b'"
proof (cases m)
  case (Data p)
  let ?R = "length (accepted b)"
  from st Data obtain i where i: "i < length (submitted a)" "p = submitted a ! i"
    "?R \<le> i + (unat s - 1)" and ok: "data_ok (unat s - 1) (submitted a) (max ?R (Suc i)) ms"
    by (auto simp: dir_state_def)
  have ok': "data_ok (unat s - 1) (submitted a) ?R ms" using ok by (rule data_ok_mono) simp
  have acks: "ack_ok s base ?R ms'" "base \<le> ?R" "?R \<le> length (submitted a)"
    "accepted b = take ?R (submitted a)" using st by (auto simp: dir_state_def)
  note lab = label_identifies [OF st i(1) i(3)]
  from receive_data [OF recv [unfolded Data]] consider
      (none) "same_receiver b b'"
    | (nack) "recvSeq b' = recvSeq b" "accepted b' = accepted b"
        "outbox b' = outbox b @ [Serialize (PacketNACK (recvSeq b))]"
    | (acc) "Seq p = recvSeq b" "recvSeq b' = (recvSeq b + 1) mod s"
        "accepted b' = accepted b @ [p]" "outbox b' = outbox b @ [Serialize (PacketACK (recvSeq b))]"
    using cfg by (auto simp: conn_cfg_ok_def)
  then show ?thesis
  proof cases
    case none
    then show ?thesis using st ok' by (auto simp: dir_inv_def dir_state_def same_receiver_def)
  next
    case nack
    have "ack_ok s base ?R (ms' @ [PacketNACK (seqno s ?R)])" using acks by (simp add: ack_ok_nack)
    then show ?thesis using st ok' nack
      by (intro dir_invI [of _ _ _ base ms "ms' @ [PacketNACK (seqno s ?R)]"])
         (auto simp: dir_state_def)
  next
    case acc
    then have iR: "i = ?R" using lab i(2) by simp
    have "ack_ok s base (Suc ?R) ms'" by (rule ack_ok_mono [OF acks(1)]) auto
    from ack_ok_ack [OF this] have "ack_ok s base (Suc ?R) (ms' @ [PacketACK (seqno s ?R)])"
      using acks(2) by simp
    moreover have "accepted b' = take (Suc ?R) (submitted a)"
      using acc acks(4) i iR by (metis take_Suc_conv_app_nth)
    moreover have "recvSeq b' = seqno s (Suc ?R)"
      using acc st dir_state_n [OF st] by (simp add: dir_state_def seqno_Suc)
    ultimately show ?thesis using st ok iR i acc
      by (intro dir_invI [of _ _ _ base ms "ms' @ [PacketACK (seqno s ?R)]"])
         (auto simp: dir_state_def)
  qed
qed (use receive_feedback_same [OF recv] receive_other [OF recv] st in
     \<open>auto simp: dir_inv_def dir_state_def same_sender_def same_receiver_def\<close>)

lemma dir_receive_feedback:
  assumes st: "dir_state s a b base ms (m # ms')"
    and recv: "receive_iteration now res r (Serialize m) a = Some a'"
  shows "dir_inv s a' (b\<lparr>outbox := map Serialize ms'\<rparr>)"
proof -
  let ?R = "length (accepted b)" and ?b = "b\<lparr>outbox := map Serialize ms'\<rparr>"
  have inv: "sender_inv s a base" "?R \<le> length (submitted a)" "outbox a = map Serialize ms"
    using st by (auto simp: dir_state_def)
  have other: ?thesis if "m = PacketSYN n \<or> m = PacketSYNACK \<or> m = PacketFIN" for n
    using receive_other [OF recv that] st that same_sender_inv [of a a']
    by (intro dir_invI [of _ _ _ base ms ms'])
      (auto simp: dir_state_def same_sender_def same_receiver_def)
  show ?thesis
  proof (cases m)
    case (PacketACK x)
    with st obtain v where v: "0 < v" "base \<le> v" "v \<le> ?R" "x = seqno s (v - 1)"
      and ok: "ack_ok s v ?R ms'" by (auto simp: dir_state_def)
    from receive_ack [OF recv [unfolded PacketACK v(4)] inv(1) v(2) _ v(1)] v(3) inv(2)
    have "sender_inv s a' v" "same_receiver a a'" "submitted a' = submitted a" by auto
    then show ?thesis using st ok v
      by (intro dir_invI [of _ _ _ v ms ms']) (auto simp: dir_state_def same_receiver_def)
  next
    case (PacketNACK x)
    with st obtain v where v: "base \<le> v" "v \<le> ?R" "x = seqno s v"
      and ok: "ack_ok s v ?R ms'" by (auto simp: dir_state_def)
    from receive_nack [OF recv [unfolded PacketNACK v(3)] inv(1) v(1)] v(2) inv(2)
    have "sender_inv s a' v" "same_receiver a a'" "submitted a' = submitted a" by auto
    then show ?thesis using st ok v
      by (intro dir_invI [of _ _ _ v ms ms']) (auto simp: dir_state_def same_receiver_def)
  next
    case (Data p)
    from receive_data [OF recv [unfolded Data]] have same: "same_sender a a'"
      and out: "outbox a' = outbox a \<or> (\<exists>y. outbox a' = outbox a @ [Serialize (PacketNACK y)]
               \<or> outbox a' = outbox a @ [Serialize (PacketACK y)])"
      by (auto simp: same_receiver_def)
    have "sender_inv s a' base" "submitted a' = submitted a"
      using same inv(1) same_sender_inv [of a a'] by (auto simp: same_sender_def)
    moreover from out obtain new where "outbox a' = map Serialize (ms @ new)"
      and "new = [] \<or> (\<exists>y. new = [PacketNACK y] \<or> new = [PacketACK y])"
      using inv(3) by (metis append_Nil2 map_append list.map(1,2))
    moreover then have "data_ok (unat s - 1) (submitted a) ?R (ms @ new)"
      using st by (auto simp: dir_state_def intro: data_ok_other)
    ultimately show ?thesis using st Data
      by (intro dir_invI [of _ _ _ base "ms @ new" ms']) (auto simp: dir_state_def)
  next
    case (PacketSYN n)
    then show ?thesis by (intro other) simp
  next
    case PacketFIN
    then show ?thesis by (intro other) simp
  next
    case PacketSYNACK
    then show ?thesis by (intro other) simp
  qed
qed

subsection \<open>The system\<close>

definition sys_inv :: "u8 \<Rightarrow> link \<Rightarrow> bool" where
  "sys_inv s l \<longleftrightarrow> dir_inv s (fst l) (snd l) \<and> dir_inv s (snd l) (fst l)"

lemma dir_inv_cfg: "dir_inv s a b \<Longrightarrow> conn_cfg_ok s a"
  by (auto simp: dir_inv_def dir_state_def sender_inv_def)

lemma sys_quiet:
  assumes "conn_step e a a'" and "\<forall>bs. e \<noteq> Receive bs" and "dir_inv s a b" and "dir_inv s b a"
  shows "dir_inv s a' b \<and> dir_inv s b a'"
proof -
  from assms(3) obtain base ms ms' where st: "dir_state s a b base ms ms'"
    by (auto simp: dir_inv_def)
  then have "sender_inv s a base" by (simp add: dir_state_def)
  from conn_step_quiet [OF assms(1) this assms(2)]
  have "sender_inv s a' base" "quiet s a a'" by auto
  moreover obtain base2 ms2 ms2' where "dir_state s b a base2 ms2 ms2'"
    using assms(4) by (auto simp: dir_inv_def)
  ultimately show ?thesis using st dir_sender_quiet dir_receiver_quiet by blast
qed

lemma sys_receive:
  assumes "conn_step (Receive bs) b b'" and "outbox a = bs # rest"
    and "dir_inv s a b" and "dir_inv s b a"
  shows "dir_inv s (a\<lparr>outbox := rest\<rparr>) b' \<and> dir_inv s b' (a\<lparr>outbox := rest\<rparr>)"
proof -
  from assms(3) obtain base m ms ms' where st: "dir_state s a b base (m # ms) ms'"
    and m: "bs = Serialize m" "rest = map Serialize ms"
    using assms(2) by (fastforce simp: dir_inv_def dir_state_def map_eq_Cons_conv)
  from assms(4) obtain base2 ms2 ms2' where st2: "dir_state s b a base2 ms2 ms2'"
    by (auto simp: dir_inv_def)
  then have "dir_state s b a base2 ms2 (m # ms)"
  proof -
    have "map Serialize ms2' = map Serialize (m # ms)" using st st2 by (simp add: dir_state_def)
    then have "ms2' = m # ms" using map_injective [OF _ inj_Serialize] by blast
    with st2 show ?thesis by simp
  qed
  moreover from assms(1) m obtain now res r
    where recv: "receive_iteration now res r (Serialize m) b = Some b'"
    by (auto simp: conn_step_Receive)
  ultimately show ?thesis
    using dir_receive_forward [OF st dir_inv_cfg [OF assms(4)] recv] dir_receive_feedback [OF _ recv]
      m(2) by blast
qed

lemma net_step_inv: "net_step l l' \<Longrightarrow> sys_inv s l \<Longrightarrow> sys_inv s l'"
proof (induction rule: net_step.induct)
  case (ns_left e g g' p)
  then show ?case using sys_quiet [of e g g' s p] by (simp add: sys_inv_def)
next
  case (ns_right e p p' g)
  then show ?case using sys_quiet [of e p p' s g] by (simp add: sys_inv_def)
next
  case (ns_to_right g bs rest p p')
  then show ?case using sys_receive [of bs p p' g rest s] by (simp add: sys_inv_def)
next
  case (ns_to_left p bs rest g g')
  then show ?case using sys_receive [of bs g g' p rest s] by (simp add: sys_inv_def)
next
  case (ns_loss_left g ys p)
  then obtain b1 m1 m1' b2 m2 m2' where "dir_state s g p b1 m1 m1'" "dir_state s p g b2 m2 m2'"
    by (auto simp: sys_inv_def dir_inv_def)
  with ns_loss_left show ?case
    using dir_lossy_forward dir_lossy_back by (simp add: sys_inv_def)
next
  case (ns_loss_right p ys g)
  then obtain b1 m1 m1' b2 m2 m2' where "dir_state s g p b1 m1 m1'" "dir_state s p g b2 m2 m2'"
    by (auto simp: sys_inv_def dir_inv_def)
  with ns_loss_right show ?case
    using dir_lossy_forward dir_lossy_back by (simp add: sys_inv_def)
qed

lemma net_steps_inv: "net_step\<^sup>*\<^sup>* l l' \<Longrightarrow> sys_inv s l \<Longrightarrow> sys_inv s l'"
  by (induction rule: rtranclp_induct) (auto intro: net_step_inv)

text \<open>
  The system at the end of the handshake: both sides run with the same \<open>n\<close>, and only
  handshake messages are in flight.
\<close>

definition fresh_conn :: "u8 \<Rightarrow> GoBackNConn \<Rightarrow> bool" where
  "fresh_conn n g \<longleftrightarrow> cfg_n (cfg g) = n \<and> cfg_s (cfg g) = n + 1 \<and> sendQueue g = newQueue (n + 1) \<and>
     recvSeq g = 0 \<and> spc g = SLoop \<and> rpc g = RLoop \<and> recvDataChan g = [] \<and>
     submitted g = [] \<and> accepted g = [] \<and>
     (\<exists>ms. outbox g = map Serialize ms \<and> list_all handshake_msg ms)"

lemma handshake_in_flight:
  "list_all handshake_msg ms \<Longrightarrow> data_ok n hist h ms \<and> ack_ok s lo hi ms"
  by (induction ms) (auto simp: handshake_msg_def split: Message.splits)

lemma fresh_dir:
  assumes "fresh_conn n a" and "fresh_conn n b" and "0 < n" and "n < 255"
  shows "dir_inv (n + 1) a b"
proof -
  have "unat (n + 1) = unat n + 1" using assms(3,4)
    by (simp add: unat_word_ariths word_less_nat_alt)
  then have s: "n + 1 \<noteq> 0" "1 < n + 1" "1 < unat (n + 1)"
    using assms(3) by (auto simp: word_less_nat_alt)
  obtain ms ms' where out: "outbox a = map Serialize ms" "outbox b = map Serialize ms'"
    "list_all handshake_msg ms" "list_all handshake_msg ms'"
    using assms(1,2) by (auto simp: fresh_conn_def)
  then have "data_ok (unat (n + 1) - 1) [] 0 ms" "ack_ok (n + 1) 0 0 ms'"
    by (auto simp: handshake_in_flight)
  moreover have "sender_inv (n + 1) a 0"
    using assms(1) s ring_rel_newQueue by (simp add: fresh_conn_def sender_inv_def conn_cfg_ok_def)
  ultimately show ?thesis using assms out s
    by (intro dir_invI [of _ _ _ 0 ms ms']) (auto simp: dir_state_def fresh_conn_def)
qed

lemma dir_inv_safe:
  assumes "dir_inv s a b"
  shows "prefix (accepted b) (submitted a) \<and>
     (\<exists>base. ring_rel s (sendQueue a) (submitted a) base \<and> base \<le> length (accepted b)) \<and>
     length (submitted a) \<le> length (accepted b) + (unat s - 1)"
proof -
  from assms obtain base ms ms' where st: "dir_state s a b base ms ms'" by (auto simp: dir_inv_def)
  then have rel: "ring_rel s (sendQueue a) (submitted a) base" and le: "base \<le> length (accepted b)"
    by (auto simp: dir_state_def sender_inv_def)
  moreover have "prefix (accepted b) (submitted a)"
    using st by (metis dir_state_def take_is_prefix)
  moreover have "length (submitted a) \<le> base + (unat s - 1)" using ring.rel_bounds [OF rel] by simp
  ultimately show ?thesis by (intro conjI) auto
qed

lemma fresh_sys_inv:
  assumes "fresh_conn n a" and "fresh_conn n b" and "0 < n" and "n < 255"
    and "net_step\<^sup>*\<^sup>* (a, b) (a', b')"
  shows "sys_inv (n + 1) (a', b')"
proof -
  have "sys_inv (n + 1) (a, b)"
    using fresh_dir [OF assms(1,2)] fresh_dir [OF assms(2,1)] assms(3,4) by (simp add: sys_inv_def)
  with net_steps_inv [OF assms(5)] show ?thesis by blast
qed

text \<open>
  C3: in-order delivery without gap or repetition. However the two connections are
  scheduled, whatever the clocks do, whichever messages the transport loses or repeats and
  whenever a side closes: the packets one side accepts are a prefix of the packets the other
  side submitted, the sender is at most \<open>n\<close> packets ahead of them, and it drops a packet
  from its queue only after the other side has accepted it.
\<close>

theorem gbn_safety:
  assumes "fresh_conn n a" and "fresh_conn n b" and "0 < n" and "n < 255"
    and "net_step\<^sup>*\<^sup>* (a, b) (a', b')"
  shows "prefix (accepted b') (submitted a') \<and> prefix (accepted a') (submitted b') \<and>
     length (submitted a') \<le> length (accepted b') + unat n \<and>
     (\<exists>base. ring_rel (n + 1) (sendQueue a') (submitted a') base \<and> base \<le> length (accepted b'))"
proof -
  have "dir_inv (n + 1) a' b'" "dir_inv (n + 1) b' a'"
    using fresh_sys_inv [OF assms] by (auto simp: sys_inv_def)
  moreover have "unat (n + 1) - 1 = unat n"
    using assms(3,4) by (simp add: unat_word_ariths word_less_nat_alt)
  ultimately show ?thesis using dir_inv_safe by (metis (no_types, lifting))
qed

text \<open>A started connection is fresh.\<close>

lemma start_fresh:
  "start now (newGoBackNConn (newConfig n)) = Some g \<Longrightarrow> fresh_conn n g"
  by (auto simp: start_def newGoBackNConn_def newConfig_def fresh_conn_def bind_eq_Some_conv
      split: if_splits)

text \<open>A connection with \<open>n = 2\<close> and default options that started at time 1.\<close>

definition example_ticker :: ticker where
  "example_ticker = \<lparr>isActive = False, interval = MaxInt64, lastTimedTick = 1, tick_pc = TWait,
                     clock_running = True, t_quit = False\<rparr>"

definition example_conn :: GoBackNConn where
  "example_conn = (newGoBackNConn (newConfig 2))\<lparr>pingTicker := Some (Resume example_ticker),
     pongTicker := Some example_ticker, resendInterval := Second, rpc := RLoop, spc := SLoop\<rparr>"

lemma resend_timeout_default: "GetResendTimeout (NewTimeOutManager []) = Second"
  by (simp add: GetResendTimeout_def NewTimeOutManager_def default_manager_def
      GetCurrentTimeout_def NewTimeoutBooster_def timeout_defaults int64_def)

lemma example_start: "start 1 (newGoBackNConn (newConfig 2)) = Some example_conn"
proof -
  have "GetPingTime (NewTimeOutManager []) = MaxInt64" "GetPongTime (NewTimeOutManager []) = MaxInt64"
    by (simp_all add: NewTimeOutManager_def default_manager_def GetPingTime_def GetPongTime_def)
  then show ?thesis
    by (simp add: example_conn_def example_ticker_def start_def newGoBackNConn_def newConfig_def
        NewIntervalAwareForceTicker_def resend_timeout_default)
qed

text \<open>
  The steps of an exchange: the left side sends a packet and the right side accepts it.
\<close>

lemma example_steps:
  "\<exists>a1 a2 b1. conn_step (Submit (pkt 0 [7])) example_conn a1 \<and> conn_step Tau a1 a2 \<and>
     outbox a2 = [Serialize (Data (pkt 0 [7]))] \<and> submitted a2 = [pkt 0 [7]] \<and>
     conn_step (Receive (Serialize (Data (pkt 0 [7])))) example_conn b1 \<and>
     accepted b1 = [pkt 0 [7]] \<and> outbox b1 = [Serialize (PacketACK 0)] \<and>
     rpc b1 = RPush (pkt 0 [7]) \<and> recvDataChan b1 = [] \<and> recvDataCap b1 = 2 \<and> \<not> conn_quit b1"
proof -
  let ?p = "pkt 0 [7]"
  define a1 where "a1 = example_conn\<lparr>sendQueue := (newQueue 3)\<lparr>content := [Some ?p, None, None],
     sequenceTop := 1\<rparr>, submitted := [?p], spc := SSend ?p\<rparr>"
  define a2 where "a2 = send_added 5 None ?p a1"
  have "replicate 3 None = [None, None, None :: PacketData option]" by (simp add: numeral_eq_Suc)
  then have "add_packet ?p example_conn = Some a1"
    by (simp add: a1_def add_packet_def addPacket_def example_conn_def newGoBackNConn_def
        newConfig_def newQueue_def Let_def)
  then have s1: "conn_step (Submit ?p) example_conn a1"
    by (intro cs_submit) (auto simp: example_conn_def)
  have s2: "conn_step Tau a1 a2"
    unfolding a2_def by (rule cs_send) (auto simp: a1_def)
  have a2: "outbox a2 = [Serialize (Data ?p)]" "submitted a2 = [?p]"
    by (simp_all add: a2_def a1_def send_added_def sendPacket_def example_conn_def
        newGoBackNConn_def)
  obtain g1 where g1: "recv_timers 6 (Data ?p) example_conn = Some g1"
    and quit: "\<not> conn_quit g1"
    by (simp add: recv_timers_def example_conn_def newGoBackNConn_def newConfig_def Received_def
        example_ticker_def ticker_ops reset_resendTicker_def resend_timeout_default)
  have "recvSeq g1 = 0" "accepted g1 = []" "outbox g1 = []" "cfg_s (cfg g1) = 3"
    "recvDataChan g1 = []" "recvDataCap g1 = 2"
    using recv_timers_same [OF g1]
    by (auto simp: same_sender_def same_receiver_def example_conn_def newGoBackNConn_def
        newConfig_def)
  then obtain b1 where b1: "recv_data 6 None ?p g1 = Some b1" "accepted b1 = [?p]"
    "outbox b1 = [Serialize (PacketACK 0)]" "rpc b1 = RPush ?p" "recvDataChan b1 = []"
    "recvDataCap b1 = 2" "\<not> conn_quit b1"
    using quit by (simp add: recv_data_def sendPacket_def)
  have "rpc example_conn = RLoop" by (simp add: example_conn_def)
  then have "conn_step (Receive (Serialize (Data ?p))) example_conn b1"
    using b1 by (intro cs_recv [of _ 6 None Waiter]) (auto simp: receive_Serialize g1)
  with s1 s2 a2 b1 show ?thesis by blast
qed

text \<open>
  A run: the packet is sent and accepted, the acknowledgement is lost.
\<close>

lemma example_run:
  "\<exists>a' b'. net_step\<^sup>*\<^sup>* (example_conn, example_conn) (a', b') \<and> outbox b' = [] \<and>
     submitted a' = [pkt 0 [7]] \<and> accepted b' = [pkt 0 [7]]"
proof -
  let ?p = "pkt 0 [7]"
  obtain a1 a2 b1 where c: "conn_step (Submit ?p) example_conn a1" "conn_step Tau a1 a2"
    "outbox a2 = [Serialize (Data ?p)]" "submitted a2 = [?p]"
    "conn_step (Receive (Serialize (Data ?p))) example_conn b1" "accepted b1 = [?p]"
    "outbox b1 = [Serialize (PacketACK 0)]" using example_steps by blast
  have s1: "net_step (example_conn, example_conn) (a1, example_conn)" by (rule ns_left [OF c(1)]) simp
  have s2: "net_step (a1, example_conn) (a2, example_conn)" by (rule ns_left [OF c(2)]) simp
  note s3 = ns_to_right [OF c(3) c(5)]
  have "lossy (outbox b1) []" by (auto simp: c(7) lossy_def intro!: exI [of _ "[]"])
  note s4 = ns_loss_right [OF this, of "a2\<lparr>outbox := []\<rparr>"]
  from s1 s2 s3 s4 have "net_step\<^sup>*\<^sup>* (example_conn, example_conn)
      (a2\<lparr>outbox := []\<rparr>, b1\<lparr>outbox := []\<rparr>)"
    by (meson converse_rtranclp_into_rtranclp rtranclp.rtrancl_refl)
  then show ?thesis using c
    by (intro exI [of _ "a2\<lparr>outbox := []\<rparr>"] exI [of _ "b1\<lparr>outbox := []\<rparr>"]) auto
qed

theorem gbn_safety_witness:
  "\<exists>a' b'. net_step\<^sup>*\<^sup>* (example_conn, example_conn) (a', b') \<and> accepted b' = [pkt 0 [7]] \<and>
     prefix (accepted b') (submitted a') \<and>
     (\<exists>base. ring_rel 3 (sendQueue a') (submitted a') base \<and> base \<le> 1)"
proof -
  obtain a' b' where run: "net_step\<^sup>*\<^sup>* (example_conn, example_conn) (a', b')"
    and acc: "accepted b' = [pkt 0 [7]]" using example_run by blast
  note fresh = start_fresh [OF example_start]
  from gbn_safety [OF fresh fresh _ _ run] acc run show ?thesis
    by (intro exI [of _ a'] exI [of _ b']) auto
qed

end
