(* ===== verification/GBN_Stream.thy ===== *)
theory GBN_Stream
  imports GBN_Protocol
begin

section \<open>Messages over packets: Send and Recv (gbn/gbn\_conn.go)\<close>

text \<open>
  \<^verbatim>\<open>Send\<close> splits a message into packets and hands them to the sender's goroutine one by
  one; \<^verbatim>\<open>Recv\<close> collects payloads up to the final chunk. A session is a connection with
  the calls of its user: at most one \<^verbatim>\<open>Send\<close> and one \<^verbatim>\<open>Recv\<close> are in progress at a time.
  The last part lifts the safety of the packets to the messages of two sessions.
\<close>

subsection \<open>Splitting\<close>

text \<open>
  The packets \<^verbatim>\<open>Send\<close> creates, before they are labelled. The slice expression panics when
  \<^verbatim>\<open>maxChunkSize\<close> is negative; zero does not reach the loop.
\<close>

function send_loop :: "int \<Rightarrow> bytes \<Rightarrow> nat \<Rightarrow> PacketData list option" where
  "send_loop maxChunk data sentBytes =
     (if sentBytes < length data then
        let remainingBytes = length data - sentBytes
        in if int remainingBytes \<le> maxChunk then
             do { rest \<leftarrow> send_loop maxChunk data (sentBytes + remainingBytes);
                  Some (\<lparr>Seq = 0, FinalChunk = True, IsPing = False,
                         Payload = drop sentBytes data\<rparr> # rest) }
           else if maxChunk \<le> 0 then None
           else do { rest \<leftarrow> send_loop maxChunk data (sentBytes + nat maxChunk);
                     Some (\<lparr>Seq = 0, FinalChunk = False, IsPing = False,
                            Payload = take (nat maxChunk) (drop sentBytes data)\<rparr> # rest) }
      else Some [])"
  by pat_completeness auto
termination
  by (relation "measure (\<lambda>(_, data, sentBytes). length data - sentBytes)") auto

declare send_loop.simps [simp del]

definition Send_packets :: "config \<Rightarrow> bytes \<Rightarrow> PacketData list option" where
  "Send_packets c data =
     (if maxChunkSize c = 0
      then Some [\<lparr>Seq = 0, FinalChunk = True, IsPing = False, Payload = data\<rparr>]
      else send_loop (maxChunkSize c) data 0)"

text \<open>
  What a sequence of \<^verbatim>\<open>Recv\<close> calls makes of a sequence of packets, when the first starts
  with \<open>b\<close> collected already: the messages it returns and what the last one has collected.
\<close>

fun reassemble :: "bytes \<Rightarrow> PacketData list \<Rightarrow> bytes list \<times> bytes" where
  "reassemble b [] = ([], b)"
| "reassemble b (msg # ps) =
     (let b' = b @ Payload msg
      in if FinalChunk msg then (let (ms, r) = reassemble [] ps in (b' # ms, r))
         else reassemble b' ps)"

lemma send_loop_chunks:
  assumes "0 < maxChunk" and "sentBytes < length data"
  shows "\<exists>ps. send_loop maxChunk data sentBytes = Some ps \<and>
     reassemble b (ps @ qs) = (let (ms, r) = reassemble [] qs in ((b @ drop sentBytes data) # ms, r)) \<and>
     (\<forall>p \<in> set ps. \<not> IsPing p \<and> Seq p = 0 \<and> Payload p \<noteq> [] \<and> int (length (Payload p)) \<le> maxChunk)"
  using assms
proof (induction "length data - sentBytes" arbitrary: sentBytes b rule: less_induct)
  case less
  show ?case
  proof (cases "int (length data - sentBytes) \<le> maxChunk")
    case True
    have "send_loop maxChunk data (length data) = Some []"
      by (subst send_loop.simps) simp
    with True less.prems show ?thesis
      by (subst send_loop.simps) (auto simp: Let_def split: prod.split)
  next
    case False
    let ?next = "sentBytes + nat maxChunk" and ?chunk = "take (nat maxChunk) (drop sentBytes data)"
    have lt: "?next < length data" using False less.prems by linarith
    have "length data - ?next < length data - sentBytes" using assms(1) less.prems(2) by simp
    from less.hyps [OF this assms(1) lt, of "b @ ?chunk"]
    obtain ps where ps: "send_loop maxChunk data ?next = Some ps"
      "reassemble (b @ ?chunk) (ps @ qs) =
         (let (ms, r) = reassemble [] qs in ((b @ ?chunk @ drop ?next data) # ms, r))"
      "\<forall>p \<in> set ps. \<not> IsPing p \<and> Seq p = 0 \<and> Payload p \<noteq> [] \<and> int (length (Payload p)) \<le> maxChunk"
      by auto
    have "?chunk @ drop ?next data = drop sentBytes data"
      by (metis add.commute append_take_drop_id drop_drop)
    then show ?thesis using False less.prems ps
      by (subst send_loop.simps) (auto simp: Let_def)
  qed
qed

text \<open>The messages that reach the wire: an empty message is lost when splitting is enabled.\<close>

definition visible :: "config \<Rightarrow> bytes list \<Rightarrow> bytes list" where
  "visible c msgs = (if maxChunkSize c = 0 then msgs else filter (\<lambda>m. m \<noteq> []) msgs)"

lemma Send_packets_Some:
  "0 \<le> maxChunkSize c \<Longrightarrow> \<exists>ps. Send_packets c data = Some ps \<and>
     reassemble [] (ps @ qs) = (let (ms, r) = reassemble [] qs in (visible c [data] @ ms, r)) \<and>
     (\<forall>p \<in> set ps. \<not> IsPing p \<and> Seq p = 0)"
proof -
  assume "0 \<le> maxChunkSize c"
  then consider "maxChunkSize c = 0" | "0 < maxChunkSize c" "data = []"
    | "0 < maxChunkSize c" "0 < length data" by fastforce
  then show ?thesis
  proof cases
    case 1
    then show ?thesis by (auto simp: Send_packets_def visible_def Let_def split: prod.split)
  next
    case 2
    then have "Send_packets c data = Some []"
      by (subst Send_packets_def, subst send_loop.simps) simp
    with 2 show ?thesis by (auto simp: visible_def split: prod.split)
  next
    case 3
    from send_loop_chunks [OF 3, of "[]" qs] 3 show ?thesis
      by (auto simp: Send_packets_def visible_def)
  qed
qed

definition packets_of :: "config \<Rightarrow> bytes \<Rightarrow> PacketData list" where
  "packets_of c data = the (Send_packets c data)"

lemma reassemble_packets:
  "0 \<le> maxChunkSize c \<Longrightarrow>
   reassemble [] (concat (map (packets_of c) msgs)) = (visible c msgs, [])"
proof (induction msgs)
  case Nil
  then show ?case by (simp add: visible_def)
next
  case (Cons m msgs)
  let ?qs = "concat (map (packets_of c) msgs)"
  obtain ps where "Send_packets c m = Some ps"
    and "reassemble [] (ps @ ?qs) = (let (ms, r) = reassemble [] ?qs in (visible c [m] @ ms, r))"
    using Send_packets_Some [OF Cons.prems, of m ?qs] by blast
  moreover then have "packets_of c m = ps" by (simp add: packets_of_def)
  moreover have "visible c [m] @ visible c msgs = visible c (m # msgs)" by (simp add: visible_def)
  ultimately show ?case using Cons by simp
qed

text \<open>
  C16: what \<^verbatim>\<open>Send\<close> splits, \<^verbatim>\<open>Recv\<close> puts together again. For every sequence of messages
  and every chunk size that is not negative, reading the packets of the messages returns
  exactly these messages in order and leaves nothing behind, except that an empty message
  disappears when splitting is enabled; no packet carries more than the chunk size.
\<close>

theorem send_recv_roundtrip:
  assumes "0 \<le> maxChunkSize c"
  shows "reassemble [] (concat (map (packets_of c) msgs)) = (visible c msgs, []) \<and>
     (maxChunkSize c \<noteq> 0 \<longrightarrow>
       (\<forall>m. \<forall>p \<in> set (packets_of c m). int (length (Payload p)) \<le> maxChunkSize c))"
proof -
  have "int (length (Payload p)) \<le> maxChunkSize c"
    if "maxChunkSize c \<noteq> 0" "p \<in> set (packets_of c m)" for m p
  proof (cases "m = []")
    case True
    with that show ?thesis
      by (simp add: packets_of_def Send_packets_def send_loop.simps)
  next
    case False
    with that assms send_loop_chunks [of "maxChunkSize c" 0 m "[]" "[]"] show ?thesis
      by (auto simp: packets_of_def Send_packets_def)
  qed
  with reassemble_packets [OF assms] show ?thesis by blast
qed

theorem send_recv_roundtrip_witness:
  "reassemble [] (concat (map (packets_of (WithMaxSendSize 2 (newConfig 20))) [[1,2,3], [], [4]]))
     = ([[1,2,3], [4]], [])"
  using send_recv_roundtrip [of "WithMaxSendSize 2 (newConfig 20)" "[[1,2,3], [], [4]]"]
  by (simp add: WithMaxSendSize_def newConfig_def visible_def)



subsection \<open>Sessions\<close>

text \<open>
  \<open>sending\<close> holds the packets that the \<^verbatim>\<open>Send\<close> in progress still has to hand over,
  \<open>receiving\<close> what the \<^verbatim>\<open>Recv\<close> in progress has collected. The rest is history: the
  messages given to \<^verbatim>\<open>Send\<close>, those returned by \<^verbatim>\<open>Recv\<close>, and whether a call gave up
  in the middle of a message.
\<close>

record session =
  s_conn :: GoBackNConn
  sending :: "PacketData list option"
  receiving :: "bytes option"
  sent_msgs :: "bytes list"
  recv_msgs :: "bytes list"
  send_aborted :: bool
  recv_aborted :: bool

text \<open>One packet in \<^verbatim>\<open>Recv\<close>.\<close>

definition recv_packet :: "bytes \<Rightarrow> PacketData \<Rightarrow> session \<Rightarrow> session" where
  "recv_packet b msg x =
     (let b' = b @ Payload msg
      in if FinalChunk msg then x\<lparr>receiving := None, recv_msgs := recv_msgs x @ [b']\<rparr>
         else x\<lparr>receiving := Some b'\<rparr>)"

inductive sess_step :: "conn_event \<Rightarrow> session \<Rightarrow> session \<Rightarrow> bool" where
  se_conn: "conn_step e (s_conn x) g \<Longrightarrow> e = Tau \<or> e = Receive bs \<Longrightarrow> sess_step e x (x\<lparr>s_conn := g\<rparr>)"
  \<comment> \<open>Send\<close>
| se_send: "sending x = None \<Longrightarrow> \<not> conn_quit (s_conn x) \<Longrightarrow>
    Send_packets (cfg (s_conn x)) data = Some ps \<Longrightarrow>
    sess_step Tau x (x\<lparr>sending := Some ps, sent_msgs := sent_msgs x @ [data]\<rparr>)"
| se_hand_over: "sending x = Some (p # ps) \<Longrightarrow> conn_step (Submit p) (s_conn x) g \<Longrightarrow>
    sess_step Tau x (x\<lparr>s_conn := g, sending := Some ps\<rparr>)"
| se_send_ok: "sending x = Some [] \<Longrightarrow> sess_step Tau x (x\<lparr>sending := None\<rparr>)"
| se_send_fail: "sending x = Some (p # ps) \<Longrightarrow> \<comment> \<open>errSendTimeout, or the connection exited\<close>
    sess_step Tau x (x\<lparr>sending := None, send_aborted := True\<rparr>)"
  \<comment> \<open>Recv\<close>
| se_recv: "receiving x = None \<Longrightarrow> \<not> conn_quit (s_conn x) \<Longrightarrow>
    sess_step Tau x (x\<lparr>receiving := Some []\<rparr>)"
| se_take: "receiving x = Some b \<Longrightarrow> conn_step (Deliver p) (s_conn x) g \<Longrightarrow>
    sess_step Tau x (recv_packet b p (x\<lparr>s_conn := g\<rparr>))"
| se_recv_fail: "receiving x = Some b \<Longrightarrow> \<comment> \<open>errRecvTimeout, or the connection exited\<close>
    sess_step Tau x (x\<lparr>receiving := None, recv_aborted := (recv_aborted x \<or> b \<noteq> [])\<rparr>)"

abbreviation set_outbox :: "bytes list \<Rightarrow> session \<Rightarrow> session" where
  "set_outbox ys x \<equiv> x\<lparr>s_conn := (s_conn x)\<lparr>outbox := ys\<rparr>\<rparr>"

inductive pair_step :: "session \<times> session \<Rightarrow> session \<times> session \<Rightarrow> bool" where
  ps_left: "sess_step Tau x x' \<Longrightarrow> pair_step (x, y) (x', y)"
| ps_right: "sess_step Tau y y' \<Longrightarrow> pair_step (x, y) (x, y')"
| ps_to_right: "outbox (s_conn x) = bs # rest \<Longrightarrow> sess_step (Receive bs) y y' \<Longrightarrow>
    pair_step (x, y) (set_outbox rest x, y')"
| ps_to_left: "outbox (s_conn y) = bs # rest \<Longrightarrow> sess_step (Receive bs) x x' \<Longrightarrow>
    pair_step (x, y) (x', set_outbox rest y)"
| ps_loss_left: "lossy (outbox (s_conn x)) ys \<Longrightarrow> pair_step (x, y) (set_outbox ys x, y)"
| ps_loss_right: "lossy (outbox (s_conn y)) ys \<Longrightarrow> pair_step (x, y) (x, set_outbox ys y)"

text \<open>The connections of two sessions run as in the previous section.\<close>

lemma recv_packet_fields [simp]:
  "s_conn (recv_packet b p x) = s_conn x" "sending (recv_packet b p x) = sending x"
  "sent_msgs (recv_packet b p x) = sent_msgs x" "send_aborted (recv_packet b p x) = send_aborted x"
  "recv_aborted (recv_packet b p x) = recv_aborted x"
  by (simp_all add: recv_packet_def Let_def)

lemma sess_step_Tau:
  "sess_step Tau x x' \<Longrightarrow> s_conn x' = s_conn x \<or>
     (\<exists>e. conn_step e (s_conn x) (s_conn x') \<and> (\<forall>bs. e \<noteq> Receive bs))"
  by (cases rule: sess_step.cases) auto

lemma sess_step_Receive: "sess_step (Receive bs) x x' \<Longrightarrow> conn_step (Receive bs) (s_conn x) (s_conn x')"
  by (cases rule: sess_step.cases) auto

lemma pair_step_net:
  "pair_step l l' \<Longrightarrow> net_step\<^sup>*\<^sup>* (s_conn (fst l), s_conn (snd l)) (s_conn (fst l'), s_conn (snd l'))"
proof (induction rule: pair_step.induct)
  case (ps_left x x' y)
  from sess_step_Tau [OF this] show ?case by (auto intro: ns_left)
next
  case (ps_right y y' x)
  from sess_step_Tau [OF this] show ?case by (auto intro: ns_right)
next
  case (ps_to_right x bs rest y y')
  then show ?case by (auto intro: ns_to_right sess_step_Receive)
next
  case (ps_to_left y bs rest x x')
  then show ?case by (auto intro: ns_to_left sess_step_Receive)
qed (auto intro: ns_loss_left ns_loss_right)

lemma pair_steps_net:
  "pair_step\<^sup>*\<^sup>* l l' \<Longrightarrow> net_step\<^sup>*\<^sup>* (s_conn (fst l), s_conn (snd l)) (s_conn (fst l'), s_conn (snd l'))"
  by (induction rule: rtranclp_induct) (auto dest: pair_step_net)

subsection \<open>From packets to messages\<close>

text \<open>The data packets of a list without their labels.\<close>

definition payloads :: "PacketData list \<Rightarrow> PacketData list" where
  "payloads ps = map (\<lambda>p. p\<lparr>Seq := 0\<rparr>) (filter (\<lambda>p. \<not> IsPing p) ps)"

lemma payloads_simps [simp]:
  "payloads [] = []"
  "payloads (xs @ ys) = payloads xs @ payloads ys"
  "payloads (p # ps) = (if IsPing p then payloads ps else p\<lparr>Seq := 0\<rparr> # payloads ps)"
  by (auto simp: payloads_def)

text \<open>What the receiving side has accepted and not handed out.\<close>

definition buffered :: "GoBackNConn \<Rightarrow> PacketData list" where
  "buffered g = recvDataChan g @ (case rpc g of RPush p \<Rightarrow> [p] | _ \<Rightarrow> [])"

text \<open>\<open>taken\<close> has been handed out, \<open>lost\<close> was held by the receiver when the connection closed.\<close>

definition recv_side :: "PacketData list \<Rightarrow> GoBackNConn \<Rightarrow> bool" where
  "recv_side taken g \<longleftrightarrow> (\<exists>lost. taken @ buffered g @ lost = filter (\<lambda>p. \<not> IsPing p) (accepted g) \<and>
     (lost \<noteq> [] \<longrightarrow> (\<exists>e. rpc g = RReturned e)))"

lemma recv_side_cong:
  "recv_side taken g \<Longrightarrow> rpc g' = rpc g \<Longrightarrow> recvDataChan g' = recvDataChan g \<Longrightarrow>
   accepted g' = accepted g \<Longrightarrow> recv_side taken g'"
  by (simp add: recv_side_def buffered_def)

text \<open>The receiver's goroutine may end at any point.\<close>

lemma recv_side_return:
  assumes "recv_side taken g" and "recvDataChan g' = recvDataChan g"
    and "accepted g' = accepted g" and "rpc g' = RReturned e"
  shows "recv_side taken g'"
proof -
  from assms(1) obtain lost
    where "taken @ buffered g @ lost = filter (\<lambda>p. \<not> IsPing p) (accepted g)"
    by (auto simp: recv_side_def)
  then show ?thesis using assms(2-)
    by (auto simp: recv_side_def buffered_def
        intro!: exI [of _ "(case rpc g of RPush p \<Rightarrow> [p] | _ \<Rightarrow> []) @ lost"])
qed

text \<open>What the steps leave alone of the receiving side and of the submitted packets.\<close>

definition frame :: "GoBackNConn \<Rightarrow> GoBackNConn \<Rightarrow> bool" where
  "frame g g' \<longleftrightarrow> rpc g' = rpc g \<and> recvDataChan g' = recvDataChan g \<and> accepted g' = accepted g \<and>
     submitted g' = submitted g \<and> cfg g' = cfg g"

lemma add_packet_frame:
  "add_packet p g = Some g' \<Longrightarrow> \<exists>q. q\<lparr>Seq := 0\<rparr> = p\<lparr>Seq := 0\<rparr> \<and> IsPing q = IsPing p \<and>
     submitted g' = submitted g @ [q] \<and> frame (g\<lparr>submitted := submitted g @ [q]\<rparr>) g'"
  by (auto simp: add_packet_def addPacket_def Let_def bind_eq_Some_conv frame_def split: if_splits)

lemma ping_case_frame:
  "ping_case now g = Some g' \<Longrightarrow>
     frame g g' \<or> (\<exists>q. IsPing q \<and> frame (g\<lparr>submitted := submitted g @ [q]\<rparr>) g')"
proof -
  assume ping: "ping_case now g = Some g'"
  then obtain pong where pong: "pongTicker g = Some pong"
    by (auto simp: ping_case_def bind_eq_Some_conv)
  show ?thesis
  proof (cases "tick_take pong")
    case (Some a)
    with ping pong show ?thesis
      by (cases a) (auto simp: ping_case_def bind_eq_Some_conv frame_def)
  next
    case None
    with ping pong obtain t1 t2 where
      "add_packet ping_packet (g\<lparr>pongTicker := t1, pingTicker := t2\<rparr>) = Some g'"
      by (auto simp: ping_case_def bind_eq_Some_conv)
    from add_packet_frame [OF this] show ?thesis
      by (auto simp: frame_def ping_packet_def)
  qed
qed

lemma sendPacket_frame: "sendPacket now res m b g = Inr g' \<Longrightarrow> frame g g'"
  by (simp add: sendPacket_Inr frame_def)

lemma send_added_frame: "frame g (send_added now res p g)"
  by (cases res) (simp_all add: send_added_def sendPacket_def frame_def)

lemma check_size_frame: "frame g (check_size g)"
  by (simp add: check_size_def frame_def)

lemma rs_begin_frame: "frame g (rs_begin now inner g)"
  by (simp add: rs_begin_def frame_def split: prod.split)

lemma rs_snapshot_frame: "rs_snapshot inner g = Some g' \<Longrightarrow> frame g g'"
  by (auto simp: rs_snapshot_def frame_def bind_eq_Some_conv)

lemma rs_loop_frame:
  assumes "rs_loop now res inner base topSeq g = Some g'"
  shows "frame g g'"
proof (cases "base = topSeq")
  case True
  with assms show ?thesis by (auto simp: rs_loop_def frame_def)
next
  case False
  with assms show ?thesis
    by (cases res) (auto simp: rs_loop_def sendPacket_def frame_def bind_eq_Some_conv)
qed

lemma rs_finish_frame: "rs_finish inner g = Some g' \<Longrightarrow> frame g g'"
  by (auto simp: rs_finish_def reset_resendTicker_def frame_def Let_def bind_eq_Some_conv
      split: if_splits)

lemma upd_syncer_frame: "frame g (upd_syncer c g)"
  by (simp add: upd_syncer_def frame_def)

lemma close_quit_frame: "frame g (close_quit g)"
  by (simp add: close_quit_def frame_def)

lemma close_fin_frame: "frame g (close_fin now res g)"
  by (cases res) (simp_all add: close_fin_def sendPacket_def frame_def Let_def)

lemma close_stop_frame: "close_stop g = Some g' \<Longrightarrow> frame g g'"
  by (auto simp: close_stop_def frame_def bind_eq_Some_conv)

lemma close_end_frame: "close_end g = Some g' \<Longrightarrow> frame g g'"
  by (cases "pingTicker g") (auto simp: close_end_def frame_def bind_eq_Some_conv)

lemmas step_frames = send_added_frame check_size_frame rs_begin_frame upd_syncer_frame
  close_quit_frame close_fin_frame

lemmas step_frames_Some = rs_snapshot_frame rs_loop_frame rs_finish_frame close_stop_frame
  close_end_frame

lemma frame_upd_spc: "frame g h \<Longrightarrow> frame g (h\<lparr>spc := pc\<rparr>)"
  by (simp add: frame_def)

lemma recv_timers_frame: "recv_timers now msg g = Some g' \<Longrightarrow> frame g g'"
  by (drule recv_timers_same) (simp add: frame_def same_sender_def same_receiver_def)

text \<open>A reception: the receiver's side changes by at most one accepted packet or ends.\<close>

definition recv_change :: "GoBackNConn \<Rightarrow> GoBackNConn \<Rightarrow> bool" where
  "recv_change g g' \<longleftrightarrow> frame g g' \<or> (\<exists>e. frame (g\<lparr>rpc := RReturned e\<rparr>) g') \<or>
     (\<exists>p. frame (g\<lparr>accepted := accepted g @ [p], rpc := (if IsPing p then rpc g else RPush p)\<rparr>) g')"

lemma recv_change_frame: "frame g g1 \<Longrightarrow> recv_change g1 g' \<Longrightarrow> recv_change g g'"
proof -
  assume f: "frame g g1" and c: "recv_change g1 g'"
  have "frame g1 g' = frame g g'"
    "\<And>e. frame (g1\<lparr>rpc := e\<rparr>) g' = frame (g\<lparr>rpc := e\<rparr>) g'"
    "\<And>p e. frame (g1\<lparr>accepted := accepted g1 @ [p], rpc := if IsPing p then rpc g1 else e\<rparr>) g'
         = frame (g\<lparr>accepted := accepted g @ [p], rpc := if IsPing p then rpc g else e\<rparr>) g'"
    using f by (simp_all add: frame_def)
  with c show ?thesis unfolding recv_change_def by simp
qed

lemma recv_data_change:
  assumes "recv_data now res m g = Some g'"
  shows "recv_change g g'"
proof (cases res)
  case None
  show ?thesis
  proof (cases "Seq m = recvSeq g")
    case True
    with None assms have "frame (g\<lparr>accepted := accepted g @ [m],
        rpc := (if IsPing m then rpc g else RPush m)\<rparr>) g'"
      by (auto simp: recv_data_def sendPacket_def frame_def Let_def go_mod_def split: if_splits)
    then show ?thesis unfolding recv_change_def by blast
  next
    case False
    with None assms have "frame g g'"
      by (auto simp: recv_data_def sendPacket_def frame_def Let_def split: if_splits)
    then show ?thesis unfolding recv_change_def by blast
  qed
next
  case (Some e)
  with assms have "frame g g' \<or> frame (g\<lparr>rpc := RReturned (Some e)\<rparr>) g'"
    by (auto simp: recv_data_def sendPacket_def frame_def Let_def split: if_splits)
  then show ?thesis unfolding recv_change_def by blast
qed

lemma receive_change:
  assumes "receive_iteration now res r bs g = Some g'"
  shows "recv_change g g'"
proof (cases "Deserialize bs")
  case (Inl e)
  with assms have "frame (g\<lparr>rpc := RReturned (Some ErrDeserialize)\<rparr>) g'"
    by (auto simp: receive_iteration_def frame_def)
  then show ?thesis unfolding recv_change_def by blast
next
  case (Inr msg)
  with assms obtain g1 where g1: "recv_timers now msg g = Some g1"
    and g': "(case msg of Data m \<Rightarrow> recv_data now res m g1 | PacketACK seq \<Rightarrow> recv_ack seq g1
               | PacketNACK seq \<Rightarrow> Some (recv_nack r seq g1) | PacketFIN \<Rightarrow> recv_fin g1
               | _ \<Rightarrow> Some (g1\<lparr>rpc := RReturned (Some ErrUnexpected)\<rparr>)) = Some g'"
    by (auto simp: receive_iteration_def bind_eq_Some_conv)
  have "recv_change g1 g'"
  proof (cases msg)
    case (Data m)
    with g' show ?thesis by (simp add: recv_data_change)
  next
    case (PacketACK seq)
    with g' have "frame g1 g'"
      by (auto simp: recv_ack_def frame_def Let_def bind_eq_Some_conv)
    then show ?thesis unfolding recv_change_def by blast
  next
    case (PacketNACK seq)
    obtain x y q where "processNACK r seq (sendQueue g1) = ((x, y), q)" by (metis surj_pair)
    with g' PacketNACK have "frame g1 g'" by (auto simp: recv_nack_def frame_def Let_def)
    then show ?thesis unfolding recv_change_def by blast
  next
    case PacketFIN
    with g' have "frame (g1\<lparr>rpc := RReturned (Some errTransportClosing)\<rparr>) g'"
      by (auto simp: recv_fin_def frame_def split: if_splits)
    then show ?thesis unfolding recv_change_def by blast
  next
    case (PacketSYN n)
    with g' have "frame (g1\<lparr>rpc := RReturned (Some ErrUnexpected)\<rparr>) g'" by (auto simp: frame_def)
    then show ?thesis unfolding recv_change_def by blast
  next
    case PacketSYNACK
    with g' have "frame (g1\<lparr>rpc := RReturned (Some ErrUnexpected)\<rparr>) g'" by (auto simp: frame_def)
    then show ?thesis unfolding recv_change_def by blast
  qed
  with recv_timers_frame [OF g1] show ?thesis by (rule recv_change_frame)
qed

lemma recv_change_side:
  assumes "recv_change g g'" and "rpc g = RLoop" and "recv_side taken g"
  shows "recv_side taken g'"
proof -
  have all: "taken @ recvDataChan g = filter (\<lambda>p. \<not> IsPing p) (accepted g)"
    using assms(2,3) by (auto simp: recv_side_def buffered_def)
  from assms(1) consider "frame g g'" | e where "frame (g\<lparr>rpc := RReturned e\<rparr>) g'"
    | p where "frame (g\<lparr>accepted := accepted g @ [p],
                        rpc := (if IsPing p then rpc g else RPush p)\<rparr>) g'"
    unfolding recv_change_def by blast
  then show ?thesis
    by cases (use all assms(2) in \<open>auto simp: recv_side_def buffered_def frame_def
        intro: exI [of _ "[]"]\<close>)
qed

lemma recv_side_frame: "recv_side taken g \<Longrightarrow> frame g g' \<Longrightarrow> recv_side taken g'"
  by (auto simp: frame_def intro: recv_side_cong)

text \<open>
  Every step leaves the frame alone, submits a packet (a ping or one from
  \<^verbatim>\<open>sendDataChan\<close>), or works on the receiving side.
\<close>

lemma conn_step_class:
  "conn_step e g g' \<Longrightarrow> e = Tau \<and> frame g g'
     \<or> (\<exists>q. frame (g\<lparr>submitted := submitted g @ [q]\<rparr>) g' \<and>
          (e = Tau \<and> IsPing q \<or>
           (\<exists>p. e = Submit p \<and> q\<lparr>Seq := 0\<rparr> = p\<lparr>Seq := 0\<rparr> \<and> IsPing q = IsPing p)))
     \<or> e = Tau \<and> (\<exists>x. frame (g\<lparr>rpc := RReturned x\<rparr>) g')
     \<or> e = Tau \<and> (\<exists>p. rpc g = RPush p \<and>
          frame (g\<lparr>recvDataChan := recvDataChan g @ [p], rpc := RLoop\<rparr>) g')
     \<or> (\<exists>bs. e = Receive bs \<and> rpc g = RLoop \<and> recv_change g g')
     \<or> (\<exists>p ps. e = Deliver p \<and> recvDataChan g = p # ps \<and> frame (g\<lparr>recvDataChan := ps\<rparr>) g')"
proof (induction rule: conn_step.induct)
  case (cs_recv g now res r b g')
  from cs_recv(1) receive_change [OF cs_recv(2)] show ?case by blast
next
  case (cs_push g p)
  then show ?case by (simp add: frame_def)
next
  case (cs_deliver g p ps)
  then show ?case by (simp add: frame_def)
next
  case (cs_ping g t x t' now g')
  from ping_case_frame [OF cs_ping(4)] show ?case by (simp add: frame_def) blast
next
  case (cs_submit g packet g')
  from add_packet_frame [OF cs_submit(2)] show ?case by blast
next
  case (cs_rs_snapshot g inner g')
  then show ?case by (blast intro: step_frames_Some)
next
  case (cs_rs_loop g inner base topSeq now res g')
  then show ?case by (blast intro: step_frames_Some)
next
  case (cs_rs_finish g inner g')
  then show ?case by (blast intro: step_frames_Some)
next
  case (cs_close_stop g g')
  then show ?case by (blast intro: step_frames_Some)
next
  case (cs_close_end g g')
  then show ?case by (blast intro: step_frames_Some)
next
  case (cs_recv_quit g)
  show ?case by (simp add: frame_def)
next
  case (cs_recv_err g)
  show ?case by (simp add: frame_def)
next
  case (cs_push_quit g p)
  show ?case by (simp add: frame_def)
qed (simp_all add: step_frames frame_upd_spc, (simp add: frame_def)+)

lemma conn_step_recv_side:
  assumes "conn_step e g g'" and "recv_side taken g"
  shows "recv_side (taken @ (case e of Deliver p \<Rightarrow> [p] | _ \<Rightarrow> [])) g'"
  using conn_step_class [OF assms(1)]
proof (elim disjE exE conjE)
  assume "e = Tau" and "frame g g'"
  then show ?thesis using recv_side_frame [OF assms(2)] by simp
next
  fix q assume f: "frame (g\<lparr>submitted := submitted g @ [q]\<rparr>) g'"
  have "recv_side taken g'"
    by (rule recv_side_frame [OF _ f]) (rule recv_side_cong [OF assms(2)], simp_all)
  then show "e = Tau \<Longrightarrow> ?thesis" and "\<And>p. e = Submit p \<Longrightarrow> ?thesis" by simp_all
next
  fix x assume "e = Tau" and f: "frame (g\<lparr>rpc := RReturned x\<rparr>) g'"
  then show ?thesis
    using recv_side_return [OF assms(2), of g' x] by (simp add: frame_def)
next
  fix p assume "e = Tau" "rpc g = RPush p"
    and f: "frame (g\<lparr>recvDataChan := recvDataChan g @ [p], rpc := RLoop\<rparr>) g'"
  then show ?thesis using assms(2) by (simp add: recv_side_def buffered_def frame_def)
next
  fix bs assume "e = Receive bs" "rpc g = RLoop" "recv_change g g'"
  then show ?thesis using recv_change_side [OF _ _ assms(2)] by simp
next
  fix p ps assume "e = Deliver p" "recvDataChan g = p # ps" "frame (g\<lparr>recvDataChan := ps\<rparr>) g'"
  then show ?thesis using assms(2) by (simp add: recv_side_def buffered_def frame_def)
qed

lemma conn_step_payloads:
  assumes "conn_step e g g'" and "\<forall>p. e = Submit p \<longrightarrow> \<not> IsPing p"
  shows "payloads (submitted g') = payloads (submitted g) @
           (case e of Submit p \<Rightarrow> [p\<lparr>Seq := 0\<rparr>] | _ \<Rightarrow> []) \<and> cfg g' = cfg g"
  using conn_step_class [OF assms(1)] assms(2) by (auto simp: frame_def recv_change_def)

lemma reassemble_append:
  "reassemble b (xs @ ys) =
     (let (ms, r) = reassemble b xs; (ms', r') = reassemble r ys in (ms @ ms', r'))"
  by (induction b xs rule: reassemble.induct) (auto simp: Let_def split: prod.split)

lemma reassemble_label: "reassemble b (map (\<lambda>p. p\<lparr>Seq := 0\<rparr>) ps) = reassemble b ps"
  by (induction b ps rule: reassemble.induct) (auto simp: Let_def)

lemma reassemble_prefix: "prefix xs ys \<Longrightarrow> prefix (fst (reassemble b xs)) (fst (reassemble b ys))"
  by (auto simp: prefix_def reassemble_append split: prod.split)

subsection \<open>The invariant of a session\<close>

definition send_side :: "config \<Rightarrow> session \<Rightarrow> bool" where
  "send_side c x \<longleftrightarrow> cfg (s_conn x) = c \<and> 0 \<le> maxChunkSize c \<and>
     (\<forall>ps. sending x = Some ps \<longrightarrow> (\<forall>p \<in> set ps. \<not> IsPing p \<and> Seq p = 0)) \<and>
     (\<not> send_aborted x \<longrightarrow>
        payloads (submitted (s_conn x)) @ (case sending x of Some ps \<Rightarrow> ps | None \<Rightarrow> [])
        = concat (map (packets_of c) (sent_msgs x)))"

definition user_side :: "session \<Rightarrow> bool" where
  "user_side x \<longleftrightarrow> (\<exists>taken. recv_side taken (s_conn x) \<and> (\<not> recv_aborted x \<longrightarrow>
     reassemble [] taken = (recv_msgs x, case receiving x of Some b \<Rightarrow> b | None \<Rightarrow> [])))"

lemma send_side_conn:
  assumes "send_side c x" and "conn_step e (s_conn x) g" and "\<forall>p. e \<noteq> Submit p"
  shows "send_side c (x\<lparr>s_conn := g\<rparr>)"
proof -
  have "payloads (submitted g) = payloads (submitted (s_conn x))" "cfg g = cfg (s_conn x)"
    using conn_step_payloads [OF assms(2)] assms(3) by (cases e; simp)+
  then show ?thesis using assms(1) by (simp add: send_side_def)
qed

lemma user_side_conn:
  assumes "user_side x" and "conn_step e (s_conn x) g" and "\<forall>p. e \<noteq> Deliver p"
  shows "user_side (x\<lparr>s_conn := g\<rparr>)"
proof -
  from assms(1) obtain taken where "recv_side taken (s_conn x)" and
    ok: "\<not> recv_aborted x \<longrightarrow>
      reassemble [] taken = (recv_msgs x, case receiving x of Some b \<Rightarrow> b | None \<Rightarrow> [])"
    by (auto simp: user_side_def)
  from conn_step_recv_side [OF assms(2) this(1)] have "recv_side taken g"
    using assms(3) by (cases e) auto
  with ok show ?thesis by (auto simp: user_side_def)
qed

lemma sess_step_send_side: "sess_step e x x' \<Longrightarrow> send_side c x \<Longrightarrow> send_side c x'"
proof (induction rule: sess_step.induct)
  case (se_conn e x g bs)
  then show ?case by (auto intro: send_side_conn)
next
  case (se_send x data ps)
  then have c: "cfg (s_conn x) = c" "0 \<le> maxChunkSize c" by (auto simp: send_side_def)
  obtain ps' where "Send_packets c data = Some ps'" "\<forall>p \<in> set ps'. \<not> IsPing p \<and> Seq p = 0"
    using Send_packets_Some [OF c(2), of data "[]"] by blast
  with se_send c show ?case by (auto simp: send_side_def packets_of_def)
next
  case (se_hand_over x p ps g)
  then have p: "\<not> IsPing p" "p\<lparr>Seq := 0\<rparr> = p" by (auto simp: send_side_def)
  from conn_step_payloads [OF se_hand_over(2)] p
  have "payloads (submitted g) = payloads (submitted (s_conn x)) @ [p]" "cfg g = cfg (s_conn x)"
    by auto
  with se_hand_over show ?case by (auto simp: send_side_def)
next
  case (se_take x b p g)
  then have "send_side c (x\<lparr>s_conn := g\<rparr>)" by (auto intro: send_side_conn)
  then show ?case by (simp add: send_side_def)
qed (auto simp: send_side_def)

lemma sess_step_user_side: "sess_step e x x' \<Longrightarrow> user_side x \<Longrightarrow> user_side x'"
proof (induction rule: sess_step.induct)
  case (se_conn e x g bs)
  then show ?case by (auto intro: user_side_conn)
next
  case (se_hand_over x p ps g)
  then have "user_side (x\<lparr>s_conn := g\<rparr>)" by (auto intro: user_side_conn)
  then show ?case by (simp add: user_side_def)
next
  case (se_take x b p g)
  from se_take(3) obtain taken where r: "recv_side taken (s_conn x)" and
    ok: "\<not> recv_aborted x \<longrightarrow> reassemble [] taken = (recv_msgs x, b)"
    using se_take(1) by (auto simp: user_side_def)
  from conn_step_recv_side [OF se_take(2) r] have "recv_side (taken @ [p]) g" by simp
  with ok show ?case
    by (auto simp: user_side_def recv_packet_def Let_def reassemble_append
        intro!: exI [of _ "taken @ [p]"])
qed (auto simp: user_side_def)

lemma side_outbox:
  "send_side c (set_outbox ys x) = send_side c x" "user_side (set_outbox ys x) = user_side x"
  by (simp_all add: send_side_def user_side_def recv_side_def buffered_def)

lemma pair_step_sides:
  "pair_step l l' \<Longrightarrow> send_side c (fst l) \<and> user_side (snd l) \<Longrightarrow>
   send_side c (fst l') \<and> user_side (snd l')"
  by (induction rule: pair_step.induct)
     (auto simp: side_outbox dest: sess_step_send_side sess_step_user_side)

lemma pair_steps_sides:
  "pair_step\<^sup>*\<^sup>* l l' \<Longrightarrow> send_side c (fst l) \<and> user_side (snd l) \<Longrightarrow>
   send_side c (fst l') \<and> user_side (snd l')"
  by (induction rule: rtranclp_induct) (auto dest: pair_step_sides)

definition fresh_session :: "u8 \<Rightarrow> session \<Rightarrow> bool" where
  "fresh_session n x \<longleftrightarrow> fresh_conn n (s_conn x) \<and> 0 \<le> maxChunkSize (cfg (s_conn x)) \<and>
     sending x = None \<and> receiving x = None \<and> sent_msgs x = [] \<and> recv_msgs x = [] \<and>
     \<not> send_aborted x \<and> \<not> recv_aborted x"

lemma fresh_sides:
  "fresh_session n x \<Longrightarrow> send_side (cfg (s_conn x)) x \<and> user_side x"
  by (auto simp: fresh_session_def fresh_conn_def send_side_def user_side_def recv_side_def
      buffered_def intro!: exI [of _ "[]"])

text \<open>
  C1: end to end, messages arrive whole, in order and once. Over any schedule and any
  losses and repetitions of the transport, the messages that one user's \<^verbatim>\<open>Recv\<close> calls have
  returned are a prefix of the messages the other user gave to \<^verbatim>\<open>Send\<close> (without the empty
  ones when splitting is enabled), as long as no \<^verbatim>\<open>Send\<close> and no \<^verbatim>\<open>Recv\<close> gave up in the
  middle of a message.
\<close>

theorem message_stream:
  assumes "fresh_session n x" and "fresh_session n y" and "0 < n" and "n < 255"
    and "pair_step\<^sup>*\<^sup>* (x, y) (x', y')" and "\<not> send_aborted x'" and "\<not> recv_aborted y'"
  shows "prefix (recv_msgs y') (visible (cfg (s_conn x)) (sent_msgs x'))"
proof -
  let ?c = "cfg (s_conn x)"
  have "send_side ?c x'" "user_side y'"
    using pair_steps_sides [OF assms(5), of ?c] fresh_sides [OF assms(1)] fresh_sides [OF assms(2)]
    by auto
  then have c: "0 \<le> maxChunkSize ?c"
    and snd: "prefix (payloads (submitted (s_conn x'))) (concat (map (packets_of ?c) (sent_msgs x')))"
    using assms(6) by (auto simp: send_side_def prefix_def dest: sym)
  obtain taken where rs: "recv_side taken (s_conn y')" "fst (reassemble [] taken) = recv_msgs y'"
    using \<open>user_side y'\<close> assms(7) by (auto simp: user_side_def)
  have "sys_inv (n + 1) (s_conn x', s_conn y')"
    using fresh_sys_inv [of n "s_conn x" "s_conn y"] pair_steps_net [OF assms(5)] assms(1-4)
    by (simp add: fresh_session_def)
  then have acc: "prefix (accepted (s_conn y')) (submitted (s_conn x'))"
    using dir_inv_safe by (auto simp: sys_inv_def)
  have "prefix taken (filter (\<lambda>p. \<not> IsPing p) (accepted (s_conn y')))"
    using rs(1) by (auto simp: recv_side_def prefix_def dest: sym)
  also have "prefix \<dots> (filter (\<lambda>p. \<not> IsPing p) (submitted (s_conn x')))"
    using acc by (auto simp: prefix_def)
  finally have "prefix (map (\<lambda>p. p\<lparr>Seq := 0\<rparr>) taken) (payloads (submitted (s_conn x')))"
    by (auto simp: prefix_def payloads_def)
  also note snd
  finally have "prefix (fst (reassemble [] (map (\<lambda>p. p\<lparr>Seq := 0\<rparr>) taken)))
      (fst (reassemble [] (concat (map (packets_of ?c) (sent_msgs x')))))"
    by (rule reassemble_prefix)
  then show ?thesis using rs(2) reassemble_packets [OF c] by (simp add: reassemble_label)
qed

definition example_session :: session where
  "example_session = \<lparr>s_conn = example_conn, sending = None, receiving = None, sent_msgs = [],
     recv_msgs = [], send_aborted = False, recv_aborted = False\<rparr>"

theorem message_stream_witness:
  "\<exists>x' y'. pair_step\<^sup>*\<^sup>* (example_session, example_session) (x', y') \<and> sent_msgs x' = [[7]] \<and>
     recv_msgs y' = [[7]] \<and> prefix (recv_msgs y') (visible (newConfig 2) (sent_msgs x'))"
proof -
  let ?p = "pkt 0 [7]" and ?x = example_session
  obtain a1 a2 b1 where c: "conn_step (Submit ?p) example_conn a1" "conn_step Tau a1 a2"
    "outbox a2 = [Serialize (Data ?p)]" "submitted a2 = [?p]"
    "conn_step (Receive (Serialize (Data ?p))) example_conn b1"
    "rpc b1 = RPush ?p" "recvDataChan b1 = []" "recvDataCap b1 = 2" "\<not> conn_quit b1"
    using example_steps by blast
  let ?x1 = "?x\<lparr>sending := Some [?p], sent_msgs := [[7]]\<rparr>"
  let ?x2 = "?x1\<lparr>s_conn := a1, sending := Some []\<rparr>" and ?x3 = "?x1\<lparr>s_conn := a2, sending := Some []\<rparr>"
  let ?x4 = "set_outbox [] ?x3"
  let ?y1 = "?x\<lparr>s_conn := b1\<rparr>"
  let ?b2 = "b1\<lparr>recvDataChan := [?p], rpc := RLoop\<rparr>" and ?b3 = "b1\<lparr>rpc := RLoop, recvDataChan := []\<rparr>"
  let ?y2 = "?x\<lparr>s_conn := ?b2\<rparr>" and ?y3 = "?x\<lparr>s_conn := ?b2, receiving := Some []\<rparr>"
  let ?y4 = "?x\<lparr>s_conn := ?b3, receiving := None, recv_msgs := [[7]]\<rparr>"
  have cfg: "cfg example_conn = newConfig 2" "\<not> conn_quit example_conn"
    by (simp_all add: example_conn_def newGoBackNConn_def newConfig_def)
  have 1: "pair_step (?x, ?x) (?x1, ?x)"
    using se_send [of ?x "[7]" "[?p]"] cfg
    by (intro ps_left) (simp add: example_session_def Send_packets_def newConfig_def)
  have 2: "pair_step (?x1, ?x) (?x2, ?x)"
    using se_hand_over [of ?x1 ?p "[]" a1] c(1)
    by (intro ps_left) (simp add: example_session_def)
  have 3: "pair_step (?x2, ?x) (?x3, ?x)"
    using se_conn [of Tau ?x2 a2] c(2)
    by (intro ps_left) (simp add: example_session_def)
  have 4: "pair_step (?x3, ?x) (?x4, ?y1)"
    using se_conn [of "Receive (Serialize (Data ?p))" ?x b1] c(3,5)
    by (intro ps_to_right) (auto simp: example_session_def)
  have 5: "pair_step (?x4, ?y1) (?x4, ?y2)"
    using se_conn [of Tau ?y1 ?b2] cs_push [of b1 ?p] c(6,7,8)
    by (intro ps_right) (auto simp: example_session_def)
  have 6: "pair_step (?x4, ?y2) (?x4, ?y3)"
    using se_recv [of ?y2] c(9) by (intro ps_right) (auto simp: example_session_def)
  have 7: "pair_step (?x4, ?y3) (?x4, ?y4)"
    using se_take [of ?y3 "[]" ?p ?b3] cs_deliver [of ?b2 ?p "[]"]
    by (intro ps_right) (auto simp: example_session_def recv_packet_def Let_def)
  have run: "pair_step\<^sup>*\<^sup>* (?x, ?x) (?x4, ?y4)"
    using 1 2 3 4 5 6 7 by (meson converse_rtranclp_into_rtranclp rtranclp.rtrancl_refl)
  have fresh: "fresh_session 2 ?x"
    using start_fresh [OF example_start] cfg
    by (simp add: fresh_session_def example_session_def newConfig_def)
  have "prefix (recv_msgs ?y4) (visible (cfg (s_conn ?x)) (sent_msgs ?x4))"
    by (rule message_stream [OF fresh fresh _ _ run]) (simp_all add: example_session_def)
  then show ?thesis using run cfg
    by (intro exI [of _ ?x4] exI [of _ ?y4]) (simp add: example_session_def)
qed

end
