(* ===== verification/GBN_Handshake.thy ===== *)
theory GBN_Handshake
  imports GBN_Protocol
begin

section \<open>The handshake (gbn/gbn\_client.go, gbn/gbn\_server.go)\<close>

text \<open>
  Client and server agree on the window size: the client sends a SYN with its \<open>n\<close>, the
  server echoes it, the client answers SYNACK. Both functions are loops over blocking
  selects; every stretch between two selects is a function here, and an event says which
  case of a select fired. The helper goroutine of each handshake only turns
  \<^verbatim>\<open>recvFromStream\<close> into a channel, so that its results are the events \<open>EvRecv\<close> and
  \<open>EvRecvErr\<close>. The last part runs the two endpoints from their constructors on, over the
  lossy transport.
\<close>

subsection \<open>State and events\<close>

datatype hs_pc =
    CSendSYN \<comment> \<open>client: about to send a SYN\<close>
  | CWaitSYN \<comment> \<open>client: in the select that waits for the answer\<close>
  | SvWaitSYN \<comment> \<open>server: in the select that waits for a SYN\<close>
  | SvReply u8 \<comment> \<open>server: label recvClientSYN, with the N of the SYN\<close>
  | SvArm \<comment> \<open>server: at the select that asks for the next message\<close>
  | SvWaitSYNACK \<comment> \<open>server: in the select that waits for the SYNACK\<close>
  | HsDone \<comment> \<open>the handshake returned nil\<close>
  | HsFailed gbn_error \<comment> \<open>the handshake returned an error\<close>
  | Running \<comment> \<open>started\<close>

record endpoint =
  ep_conn :: GoBackNConn
  hs_pc :: hs_pc
  hs_resent :: bool
  hs_n :: u8 \<comment> \<open>the server's local n\<close>

datatype hs_event = EvTimeout | EvQuit | EvCtx | EvRecvErr gbn_error | EvRecv bytes

text \<open>\<^verbatim>\<open>g.cfg.sendToStream\<close>, called directly.\<close>

definition stream_send :: "Message \<Rightarrow> GoBackNConn \<Rightarrow> GoBackNConn" where
  "stream_send m g = g\<lparr>outbox := outbox g @ [Serialize m]\<rparr>"

definition tm_sent :: "time \<Rightarrow> Message \<Rightarrow> bool \<Rightarrow> GoBackNConn \<Rightarrow> GoBackNConn" where
  "tm_sent now m resent g = g\<lparr>timeoutManager := Sent now m resent (timeoutManager g)\<rparr>"

definition tm_received :: "time \<Rightarrow> Message \<Rightarrow> GoBackNConn \<Rightarrow> GoBackNConn" where
  "tm_received now m g = g\<lparr>timeoutManager := Received now m (timeoutManager g)\<rparr>"

subsection \<open>Client\<close>

text \<open>\<^verbatim>\<open>NewClientConn\<close> up to the handshake.\<close>

definition NewClientConn :: "u8 \<Rightarrow> (config \<Rightarrow> config) list \<Rightarrow> gbn_error + endpoint" where
  "NewClientConn n opts =
     (if n = 255 then Inl ErrBadN
      else let c = fold (\<lambda>opt c. opt c) opts (newConfig n)
           in Inr \<lparr>ep_conn = newGoBackNConn c, hs_pc = CSendSYN, hs_resent = False, hs_n = 0\<rparr>)"

definition client_send_syn :: "time \<Rightarrow> gbn_error option \<Rightarrow> endpoint \<Rightarrow> endpoint" where
  "client_send_syn now res x =
     (let msg = PacketSYN (cfg_n (cfg (ep_conn x)))
      in case res of
           Some e \<Rightarrow> x\<lparr>hs_pc := HsFailed e\<rparr>
         | None \<Rightarrow> x\<lparr>ep_conn := tm_sent now msg (hs_resent x) (stream_send msg (ep_conn x)),
                     hs_pc := CWaitSYN\<rparr>)"

text \<open>After the loop: the N of the answer is compared, the SYNACK is sent.\<close>

definition client_got_syn :: "time \<Rightarrow> gbn_error option \<Rightarrow> u8 \<Rightarrow> endpoint \<Rightarrow> endpoint" where
  "client_got_syn now res respN x =
     (if respN \<noteq> cfg_n (cfg (ep_conn x)) then x\<lparr>hs_pc := HsFailed ErrEOF\<rparr>
      else let g = tm_received now (PacketSYN respN) (ep_conn x)
           in case res of
                Some e \<Rightarrow> x\<lparr>ep_conn := g, hs_pc := HsFailed e\<rparr>
              | None \<Rightarrow> x\<lparr>ep_conn := stream_send PacketSYNACK g, hs_pc := HsDone\<rparr>)"

definition client_wait :: "time \<Rightarrow> gbn_error option \<Rightarrow> hs_event \<Rightarrow> endpoint \<Rightarrow> endpoint" where
  "client_wait now res ev x =
     (case ev of
        EvTimeout \<Rightarrow> x\<lparr>hs_resent := True, hs_pc := CSendSYN\<rparr>
      | EvQuit \<Rightarrow> x\<lparr>hs_pc := HsDone\<rparr>
      | EvCtx \<Rightarrow> x\<lparr>hs_pc := HsFailed ErrContext\<rparr>
      | EvRecvErr e \<Rightarrow> x\<lparr>hs_pc := HsFailed e\<rparr>
      | EvRecv b \<Rightarrow>
          (case Deserialize b of
             Inl _ \<Rightarrow> x\<lparr>hs_pc := HsFailed ErrDeserialize\<rparr>
           | Inr (PacketSYN respN) \<Rightarrow> client_got_syn now res respN x
           | Inr _ \<Rightarrow> x))"

subsection \<open>Server\<close>

definition NewServerConn :: "(config \<Rightarrow> config) list \<Rightarrow> endpoint" where
  "NewServerConn opts =
     \<lparr>ep_conn = newGoBackNConn (fold (\<lambda>opt c. opt c) opts (newConfig DefaultN)), hs_pc = SvWaitSYN,
      hs_resent = False, hs_n = 0\<rparr>"

text \<open>The end of the handshake: \<^verbatim>\<open>setN\<close>.\<close>

definition server_finish :: "endpoint \<Rightarrow> endpoint" where
  "server_finish x = x\<lparr>ep_conn := setN (hs_n x) (ep_conn x), hs_pc := HsDone\<rparr>"

text \<open>The first select does not watch for an error of the stream.\<close>

definition server_wait_syn :: "time \<Rightarrow> hs_event \<Rightarrow> endpoint \<Rightarrow> endpoint" where
  "server_wait_syn now ev x =
     (case ev of
        EvCtx \<Rightarrow> x\<lparr>hs_pc := HsDone\<rparr>
      | EvQuit \<Rightarrow> x\<lparr>hs_pc := HsDone\<rparr>
      | EvRecv b \<Rightarrow>
          (case Deserialize b of
             Inl _ \<Rightarrow> x\<lparr>hs_pc := HsFailed ErrDeserialize\<rparr>
           | Inr (PacketSYN N) \<Rightarrow> x\<lparr>hs_pc := SvReply N\<rparr>
           | Inr PacketSYNACK \<Rightarrow>
               (if hs_resent x
                then server_finish (x\<lparr>ep_conn := tm_received now PacketSYNACK (ep_conn x)\<rparr>) else x)
           | Inr (Data p) \<Rightarrow>
               (if hs_resent x
                then server_finish (x\<lparr>ep_conn := tm_received now (Data p) (ep_conn x)\<rparr>) else x)
           | Inr _ \<Rightarrow> x)
      | _ \<Rightarrow> x)"

definition server_reply :: "time \<Rightarrow> gbn_error option \<Rightarrow> u8 \<Rightarrow> endpoint \<Rightarrow> endpoint" where
  "server_reply now res N x0 =
     (let x = x0\<lparr>hs_n := N\<rparr>
      in case res of
           Some e \<Rightarrow> x\<lparr>hs_pc := HsFailed e\<rparr>
         | None \<Rightarrow> x\<lparr>ep_conn := tm_sent now (PacketSYN N) (hs_resent x)
                               (stream_send (PacketSYN N) (ep_conn x)),
                     hs_pc := SvArm\<rparr>)"

text \<open>The select that asks for the next message; \<open>None\<close> is its default case.\<close>

definition server_arm :: "hs_event option \<Rightarrow> endpoint \<Rightarrow> endpoint" where
  "server_arm ev x =
     (case ev of
        Some EvCtx \<Rightarrow> x\<lparr>hs_pc := HsFailed ErrContext\<rparr>
      | Some EvQuit \<Rightarrow> x\<lparr>hs_pc := HsDone\<rparr>
      | _ \<Rightarrow> x\<lparr>hs_pc := SvWaitSYNACK\<rparr>)"

definition server_wait_synack :: "time \<Rightarrow> hs_event \<Rightarrow> endpoint \<Rightarrow> endpoint" where
  "server_wait_synack now ev x =
     (case ev of
        EvTimeout \<Rightarrow> x\<lparr>hs_resent := True, hs_pc := SvWaitSYN\<rparr>
      | EvRecvErr e \<Rightarrow> x\<lparr>hs_pc := HsFailed e\<rparr>
      | EvCtx \<Rightarrow> x\<lparr>hs_pc := HsDone\<rparr>
      | EvQuit \<Rightarrow> x\<lparr>hs_pc := HsDone\<rparr>
      | EvRecv b \<Rightarrow>
          (case Deserialize b of
             Inl _ \<Rightarrow> x\<lparr>hs_pc := HsFailed ErrDeserialize\<rparr>
           | Inr PacketSYNACK \<Rightarrow>
               server_finish (x\<lparr>ep_conn := tm_received now PacketSYNACK (ep_conn x)\<rparr>)
           | Inr (PacketSYN N) \<Rightarrow> x\<lparr>hs_resent := True, hs_pc := SvReply N\<rparr>
           | Inr _ \<Rightarrow> x\<lparr>hs_pc := HsFailed ErrEOF\<rparr>))"

text \<open>
  The rest of the constructors: start after nil; after an error the connection is closed and
  the error returned.
\<close>

definition ep_start :: "time \<Rightarrow> endpoint \<Rightarrow> endpoint option" where
  "ep_start now x =
     do { g \<leftarrow> start now (ep_conn x); Some (x\<lparr>ep_conn := g, hs_pc := Running\<rparr>) }"

subsection \<open>Steps\<close>

text \<open>
  The events of an endpoint: \<open>Receive\<close> consumes a message of the transport. Cancelling the
  context or closing the connection during the handshake is left to the functions above.
\<close>

inductive ep_step :: "conn_event \<Rightarrow> endpoint \<Rightarrow> endpoint \<Rightarrow> bool" where
  es_send_syn: "hs_pc x = CSendSYN \<Longrightarrow> ep_step Tau x (client_send_syn now res x)"
| es_client_timeout: "hs_pc x = CWaitSYN \<Longrightarrow> ep_step Tau x (client_wait now res EvTimeout x)"
| es_client_err: "hs_pc x = CWaitSYN \<Longrightarrow> ep_step Tau x (client_wait now res (EvRecvErr e) x)"
| es_client_recv: "hs_pc x = CWaitSYN \<Longrightarrow> ep_step (Receive b) x (client_wait now res (EvRecv b) x)"
| es_server_syn: "hs_pc x = SvWaitSYN \<Longrightarrow> ep_step (Receive b) x (server_wait_syn now (EvRecv b) x)"
| es_server_reply: "hs_pc x = SvReply N \<Longrightarrow> ep_step Tau x (server_reply now res N x)"
| es_server_arm: "hs_pc x = SvArm \<Longrightarrow> ep_step Tau x (server_arm None x)"
| es_server_timeout: "hs_pc x = SvWaitSYNACK \<Longrightarrow>
    ep_step Tau x (server_wait_synack now EvTimeout x)"
| es_server_err: "hs_pc x = SvWaitSYNACK \<Longrightarrow>
    ep_step Tau x (server_wait_synack now (EvRecvErr e) x)"
| es_server_synack: "hs_pc x = SvWaitSYNACK \<Longrightarrow>
    ep_step (Receive b) x (server_wait_synack now (EvRecv b) x)"
| es_start: "hs_pc x = HsDone \<Longrightarrow> ep_start now x = Some x' \<Longrightarrow> ep_step Tau x x'"
| es_run: "hs_pc x = Running \<Longrightarrow> conn_step e (ep_conn x) g \<Longrightarrow> ep_step e x (x\<lparr>ep_conn := g\<rparr>)"

abbreviation set_ep_outbox :: "bytes list \<Rightarrow> endpoint \<Rightarrow> endpoint" where
  "set_ep_outbox ys x \<equiv> x\<lparr>ep_conn := (ep_conn x)\<lparr>outbox := ys\<rparr>\<rparr>"

text \<open>Client \<open>x\<close> and server \<open>y\<close>.\<close>

inductive ep_net :: "endpoint \<times> endpoint \<Rightarrow> endpoint \<times> endpoint \<Rightarrow> bool" where
  en_client: "ep_step e x x' \<Longrightarrow> \<forall>bs. e \<noteq> Receive bs \<Longrightarrow> ep_net (x, y) (x', y)"
| en_server: "ep_step e y y' \<Longrightarrow> \<forall>bs. e \<noteq> Receive bs \<Longrightarrow> ep_net (x, y) (x, y')"
| en_to_server: "outbox (ep_conn x) = bs # rest \<Longrightarrow> ep_step (Receive bs) y y' \<Longrightarrow>
    ep_net (x, y) (set_ep_outbox rest x, y')"
| en_to_client: "outbox (ep_conn y) = bs # rest \<Longrightarrow> ep_step (Receive bs) x x' \<Longrightarrow>
    ep_net (x, y) (x', set_ep_outbox rest y)"
| en_loss_client: "lossy (outbox (ep_conn x)) ys \<Longrightarrow> ep_net (x, y) (set_ep_outbox ys x, y)"
| en_loss_server: "lossy (outbox (ep_conn y)) ys \<Longrightarrow> ep_net (x, y) (x, set_ep_outbox ys y)"

subsection \<open>Both directions during the handshake\<close>

text \<open>The messages a connection has in flight.\<close>

definition chan_ok :: "(Message \<Rightarrow> bool) \<Rightarrow> GoBackNConn \<Rightarrow> bool" where
  "chan_ok P g \<longleftrightarrow> (\<exists>ms. outbox g = map Serialize ms \<and> list_all P ms)"

definition syn_ok :: "u8 \<Rightarrow> Message \<Rightarrow> bool" where
  "syn_ok n m \<longleftrightarrow> (\<forall>N. m = PacketSYN N \<longrightarrow> N = n)"

definition no_feedback :: "Message \<Rightarrow> bool" where
  "no_feedback m \<longleftrightarrow> (\<forall>x. m \<noteq> PacketACK x \<and> m \<noteq> PacketNACK x)"

lemma chan_okI: "outbox g = map Serialize ms \<Longrightarrow> list_all P ms \<Longrightarrow> chan_ok P g"
  by (auto simp: chan_ok_def)

lemma chan_ok_append: "chan_ok P g \<Longrightarrow> outbox g' = outbox g @ [Serialize m] \<Longrightarrow> P m \<Longrightarrow> chan_ok P g'"
proof -
  assume "chan_ok P g" "outbox g' = outbox g @ [Serialize m]" "P m"
  moreover then obtain ms where "outbox g = map Serialize ms" "list_all P ms"
    by (auto simp: chan_ok_def)
  ultimately show ?thesis by (intro chan_okI [of _ "ms @ [m]"]) auto
qed

lemma chan_ok_same: "chan_ok P g \<Longrightarrow> outbox g' = outbox g \<Longrightarrow> chan_ok P g'"
  by (simp add: chan_ok_def)

lemma chan_ok_lossy:
  assumes "chan_ok P g" and "lossy (outbox g) ys" and "outbox g' = ys"
  shows "chan_ok P g'"
proof -
  from assms(1) obtain ms where ms: "outbox g = map Serialize ms" "list_all P ms"
    by (auto simp: chan_ok_def)
  from assms(2) ms(1) obtain us m vs where "ms = us @ m # vs"
    "ys = map Serialize (us @ vs) \<or> ys = map Serialize (us @ m # m # vs)"
    by (auto simp: lossy_def map_eq_append_conv map_eq_Cons_conv)
  with ms(2) assms(3) show ?thesis
    using chan_okI [of g' "us @ vs" P] chan_okI [of g' "us @ m # m # vs" P] by auto
qed

lemma chan_ok_head:
  "chan_ok P g \<Longrightarrow> outbox g = bs # rest \<Longrightarrow> \<exists>m. bs = Serialize m \<and> P m"
  by (auto simp: chan_ok_def map_eq_Cons_conv)

lemma lossy_tail: "lossy (b # rest) rest"
  unfolding lossy_def by (intro exI [of _ "[]"] exI [of _ b] exI [of _ rest]) simp

text \<open>A change of a connection that its peer sees as at most one more handshake message.\<close>

definition hs_change :: "GoBackNConn \<Rightarrow> GoBackNConn \<Rightarrow> Message list \<Rightarrow> bool" where
  "hs_change g g' ms \<longleftrightarrow> cfg g' = cfg g \<and> sendQueue g' = sendQueue g \<and> submitted g' = submitted g \<and>
     spc g' = spc g \<and> rpc g' = rpc g \<and> recvSeq g' = recvSeq g \<and> accepted g' = accepted g \<and>
     outbox g' = outbox g @ map Serialize ms \<and> list_all handshake_msg ms"

lemma data_ok_hs:
  "data_ok n hist h ms \<Longrightarrow> list_all handshake_msg ms' \<Longrightarrow> data_ok n hist h (ms @ ms')"
proof (induction ms' rule: rev_induct)
  case (snoc m ms')
  then have "data_ok n hist h ((ms @ ms') @ [m])" by (intro data_ok_other) auto
  then show ?case by simp
qed simp

lemma ack_ok_hs:
  "ack_ok s lo hi ms \<Longrightarrow> list_all handshake_msg ms' \<Longrightarrow> ack_ok s lo hi (ms @ ms')"
proof (induction ms' rule: rev_induct)
  case (snoc m ms')
  then have "ack_ok s lo hi ((ms @ ms') @ [m])" by (intro ack_ok_other) auto
  then show ?case by simp
qed simp

lemma dir_hs_sender:
  assumes "dir_inv s a b" and "hs_change a a' new"
  shows "dir_inv s a' b"
proof -
  from assms(1) obtain base ms ms' where st: "dir_state s a b base ms ms'"
    by (auto simp: dir_inv_def)
  have "sender_inv s a' base"
    using st assms(2) by (auto simp: dir_state_def hs_change_def intro: sender_inv_cong)
  with st assms(2) show ?thesis
    by (intro dir_invI [of _ _ _ base "ms @ new" ms'])
       (auto simp: dir_state_def hs_change_def data_ok_hs)
qed

lemma dir_hs_receiver:
  assumes "dir_inv s a b" and "hs_change b b' new"
  shows "dir_inv s a b'"
proof -
  from assms(1) obtain base ms ms' where st: "dir_state s a b base ms ms'"
    by (auto simp: dir_inv_def)
  with assms(2) show ?thesis
    by (intro dir_invI [of _ _ _ base ms "ms' @ new"])
       (auto simp: dir_state_def hs_change_def ack_ok_hs)
qed

lemma dir_lossy:
  "dir_inv s a b \<Longrightarrow> lossy (outbox a) ys \<Longrightarrow> dir_inv s (a\<lparr>outbox := ys\<rparr>) b"
  "dir_inv s a b \<Longrightarrow> lossy (outbox b) ys \<Longrightarrow> dir_inv s a (b\<lparr>outbox := ys\<rparr>)"
  by (auto simp: dir_inv_def [of s a b] intro: dir_lossy_forward dir_lossy_back)

subsection \<open>The invariant\<close>

definition not_started :: "GoBackNConn \<Rightarrow> bool" where
  "not_started g \<longleftrightarrow> submitted g = [] \<and> accepted g = [] \<and> recvSeq g = 0 \<and> spc g = SNotStarted \<and>
     rpc g = RNotStarted"

text \<open>\<open>young y\<close>: the server has not set its window yet.\<close>

definition young :: "endpoint \<Rightarrow> bool" where
  "young y \<longleftrightarrow> (case hs_pc y of SvWaitSYN \<Rightarrow> True | SvReply _ \<Rightarrow> True | SvArm \<Rightarrow> True
                | SvWaitSYNACK \<Rightarrow> True | HsFailed _ \<Rightarrow> True | _ \<Rightarrow> False)"

definition client_ok :: "endpoint \<Rightarrow> bool" where
  "client_ok x \<longleftrightarrow> (case hs_pc x of CSendSYN \<Rightarrow> not_started (ep_conn x)
     | CWaitSYN \<Rightarrow> not_started (ep_conn x) | HsDone \<Rightarrow> not_started (ep_conn x)
     | HsFailed _ \<Rightarrow> not_started (ep_conn x) | Running \<Rightarrow> True | _ \<Rightarrow> False)"

definition young_inv :: "u8 \<Rightarrow> GoBackNConn \<Rightarrow> endpoint \<Rightarrow> bool" where
  "young_inv n c y \<longleftrightarrow> young y \<and> not_started (ep_conn y) \<and> accepted c = [] \<and> recvSeq c = 0 \<and>
     chan_ok handshake_msg (ep_conn y) \<and> chan_ok no_feedback c \<and>
     (hs_pc y = SvArm \<or> hs_pc y = SvWaitSYNACK \<or> hs_resent y \<longrightarrow> hs_n y = n) \<and>
     (\<forall>N. hs_pc y = SvReply N \<longrightarrow> N = n)"

definition grown_inv :: "u8 \<Rightarrow> GoBackNConn \<Rightarrow> endpoint \<Rightarrow> bool" where
  "grown_inv n c y \<longleftrightarrow> dir_inv (n + 1) (ep_conn y) c \<and>
     (hs_pc y = HsDone \<and> not_started (ep_conn y) \<or> hs_pc y = Running)"

definition link_inv :: "u8 \<Rightarrow> endpoint \<times> endpoint \<Rightarrow> bool" where
  "link_inv n l \<longleftrightarrow> (case l of (x, y) \<Rightarrow>
     dir_inv (n + 1) (ep_conn x) (ep_conn y) \<and>
     chan_ok (syn_ok n) (ep_conn x) \<and> chan_ok (syn_ok n) (ep_conn y) \<and> client_ok x \<and>
     (young_inv n (ep_conn x) y \<or> grown_inv n (ep_conn x) y))"

lemma start_unchanged:
  "start now g = Some g' \<Longrightarrow> cfg g' = cfg g \<and> sendQueue g' = sendQueue g \<and> submitted g' = submitted g \<and>
     recvSeq g' = recvSeq g \<and> accepted g' = accepted g \<and> outbox g' = outbox g \<and> spc g' = SLoop"
  by (auto simp: start_def bind_eq_Some_conv split: if_splits)

lemma dir_start_sender:
  assumes "dir_inv s a b" and "not_started a" and "start now a = Some a'"
  shows "dir_inv s a' b"
proof -
  from assms(1) obtain base ms ms' where st: "dir_state s a b base ms ms'"
    by (auto simp: dir_inv_def)
  have "sender_inv s a' base"
    using st assms(2,3) start_unchanged [OF assms(3)] dir_state_n [OF st]
    by (auto simp: dir_state_def sender_inv_def conn_cfg_ok_def not_started_def)
  with st start_unchanged [OF assms(3)] show ?thesis
    by (intro dir_invI [of _ _ _ base ms ms']) (auto simp: dir_state_def)
qed

lemma dir_start_receiver:
  "dir_inv s a b \<Longrightarrow> start now b = Some b' \<Longrightarrow> dir_inv s a b'"
  by (frule start_unchanged) (auto simp: dir_inv_def dir_state_def)

text \<open>\<^verbatim>\<open>setN\<close> with the client's window opens the server's direction.\<close>

lemma setN_grown:
  assumes "young_inv n c y" and "0 < n" and "n < 255"
  shows "dir_inv (n + 1) (setN n (ep_conn y)) c"
proof -
  let ?s = "setN n (ep_conn y)"
  have "unat (n + 1) = unat n + 1" using assms(2,3)
    by (simp add: unat_word_ariths word_less_nat_alt)
  then have s: "n + 1 \<noteq> 0" "1 < n + 1" using assms(2) by (auto simp: word_less_nat_alt)
  obtain ms ms' where out: "outbox ?s = map Serialize ms" "list_all handshake_msg ms"
    "outbox c = map Serialize ms'" "list_all no_feedback ms'"
    using assms(1) by (auto simp: young_inv_def chan_ok_def setN_def)
  have "ack_ok (n + 1) 0 0 ms'" using out(4)
  proof (induction ms')
    case (Cons m ms')
    then show ?case by (cases m) (auto simp: no_feedback_def)
  qed simp
  moreover have "sender_inv (n + 1) ?s 0"
    using assms(1) s ring_rel_newQueue [OF s(1)]
    by (simp add: young_inv_def not_started_def sender_inv_def conn_cfg_ok_def setN_def)
  ultimately show ?thesis using assms(1) out handshake_in_flight [OF out(2)]
    by (intro dir_invI [of _ _ _ 0 ms ms'])
       (auto simp: dir_state_def young_inv_def not_started_def setN_def)
qed

lemma setN_receiver:
  "dir_inv s a b \<Longrightarrow> dir_inv s a (setN n b)"
  by (auto simp: dir_inv_def dir_state_def setN_def)

subsection \<open>Preservation\<close>

lemma chan_ok_hs:
  assumes "chan_ok P g" and "hs_change g g' new" and "list_all P new"
  shows "chan_ok P g'"
proof -
  from assms(1) obtain ms where "outbox g = map Serialize ms" "list_all P ms"
    by (auto simp: chan_ok_def)
  then show ?thesis using assms(2,3)
    by (intro chan_okI [of _ "ms @ new"]) (auto simp: hs_change_def)
qed

lemma not_started_hs: "hs_change g g' new \<Longrightarrow> not_started g' = not_started g"
  by (auto simp: hs_change_def not_started_def)

lemma handshake_no_feedback: "list_all handshake_msg ms \<Longrightarrow> list_all no_feedback ms"
  by (auto simp: list_all_iff no_feedback_def)

lemma link_cfg: "link_inv n (x, y) \<Longrightarrow> cfg_n (cfg (ep_conn x)) = n"
  using dir_inv_cfg [of "n + 1" "ep_conn x" "ep_conn y"] by (auto simp: link_inv_def conn_cfg_ok_def)

lemma link_client_hs:
  assumes "link_inv n (x, y)" and "hs_change (ep_conn x) (ep_conn x') new"
    and "list_all (syn_ok n) new" and "client_ok x'"
  shows "link_inv n (x', y)"
proof -
  have hs: "list_all handshake_msg new" and same: "accepted (ep_conn x') = accepted (ep_conn x)"
    "recvSeq (ep_conn x') = recvSeq (ep_conn x)" using assms(2) by (auto simp: hs_change_def)
  have "young_inv n (ep_conn x') y" if "young_inv n (ep_conn x) y"
    using that same chan_ok_hs [OF _ assms(2) handshake_no_feedback [OF hs]]
    by (auto simp: young_inv_def)
  moreover have "grown_inv n (ep_conn x') y" if "grown_inv n (ep_conn x) y"
    using that dir_hs_receiver [OF _ assms(2)] by (auto simp: grown_inv_def)
  ultimately show ?thesis
    using assms dir_hs_sender [OF _ assms(2)] chan_ok_hs [OF _ assms(2,3)]
    by (auto simp: link_inv_def)
qed

lemma link_server_hs:
  assumes "link_inv n (x, y)" and "young_inv n (ep_conn x) y"
    and "hs_change (ep_conn y) (ep_conn y') new" and "list_all (syn_ok n) new" and "young y'"
    and "hs_pc y' = SvArm \<or> hs_pc y' = SvWaitSYNACK \<or> hs_resent y' \<longrightarrow> hs_n y' = n"
    and "\<forall>N. hs_pc y' = SvReply N \<longrightarrow> N = n"
  shows "link_inv n (x, y')"
proof -
  have hs: "list_all handshake_msg new" using assms(3) by (simp add: hs_change_def)
  have "young_inv n (ep_conn x) y'"
    using assms(2,5-7) not_started_hs [OF assms(3)] chan_ok_hs [OF _ assms(3) hs]
    by (auto simp: young_inv_def)
  then show ?thesis
    using assms(1) dir_hs_receiver [OF _ assms(3)] chan_ok_hs [OF _ assms(3,4)]
    by (auto simp: link_inv_def)
qed

lemma link_server_finish:
  assumes "link_inv n (x, y)" and "young_inv n (ep_conn x) y" and "hs_n y = n"
    and "0 < n" and "n < 255" and "hs_change (ep_conn y) g []"
  shows "link_inv n (x, server_finish (y\<lparr>ep_conn := g\<rparr>))"
proof -
  let ?y = "y\<lparr>ep_conn := g\<rparr>"
  have y: "link_inv n (x, ?y)" "young_inv n (ep_conn x) ?y"
  proof -
    show "link_inv n (x, ?y)"
      by (rule link_server_hs [OF assms(1,2), of _ "[]"])
         (use assms(2,6) in \<open>auto simp: young_inv_def young_def\<close>)
    show "young_inv n (ep_conn x) ?y"
      using assms(2) not_started_hs [OF assms(6)] chan_ok_hs [OF _ assms(6), of handshake_msg]
      by (auto simp: young_inv_def young_def)
  qed
  have "dir_inv (n + 1) (setN n g) (ep_conn x)" using setN_grown [OF y(2) assms(4,5)] by simp
  moreover have "not_started (setN n g)"
    using y(2) by (simp add: young_inv_def not_started_def setN_def)
  ultimately have "grown_inv n (ep_conn x) (server_finish ?y)"
    using assms(3) by (simp add: grown_inv_def server_finish_def)
  then show ?thesis
    using y(1) assms(3) setN_receiver [of "n + 1" "ep_conn x" g n]
      chan_ok_same [of "syn_ok n" g "setN n g"]
    by (auto simp: link_inv_def server_finish_def setN_def)
qed

lemma link_drop_client:
  assumes "link_inv n (x, y)" and "lossy (outbox (ep_conn x)) ys"
  shows "link_inv n (set_ep_outbox ys x, y)"
proof -
  let ?c = "(ep_conn x)\<lparr>outbox := ys\<rparr>"
  have "young_inv n ?c y" if "young_inv n (ep_conn x) y"
    using that chan_ok_lossy [OF _ assms(2), of no_feedback ?c] by (auto simp: young_inv_def)
  moreover have "grown_inv n ?c y" if "grown_inv n (ep_conn x) y"
    using that dir_lossy(2) [OF _ assms(2)] by (auto simp: grown_inv_def)
  moreover have "client_ok (set_ep_outbox ys x) = client_ok x"
    by (simp add: client_ok_def not_started_def cong: hs_pc.case_cong)
  ultimately show ?thesis
    using assms dir_lossy(1) [OF _ assms(2)] chan_ok_lossy [OF _ assms(2), of "syn_ok n" ?c]
    by (auto simp: link_inv_def)
qed

lemma link_drop_server:
  assumes "link_inv n (x, y)" and "lossy (outbox (ep_conn y)) ys"
  shows "link_inv n (x, set_ep_outbox ys y)"
proof -
  let ?s = "(ep_conn y)\<lparr>outbox := ys\<rparr>"
  have "young_inv n (ep_conn x) (set_ep_outbox ys y)" if "young_inv n (ep_conn x) y"
    using that chan_ok_lossy [OF _ assms(2), of handshake_msg ?s]
    by (auto simp: young_inv_def young_def not_started_def)
  moreover have "grown_inv n (ep_conn x) (set_ep_outbox ys y)" if "grown_inv n (ep_conn x) y"
    using that dir_lossy(1) [OF _ assms(2)] by (auto simp: grown_inv_def not_started_def)
  ultimately show ?thesis
    using assms dir_lossy(2) [OF _ assms(2)] chan_ok_lossy [OF _ assms(2), of "syn_ok n" ?s]
    by (auto simp: link_inv_def)
qed

lemma hs_change_simps [simp]:
  "hs_change g g []"
  "hs_change g (tm_received now m g) []"
  "handshake_msg m \<Longrightarrow> hs_change g (tm_sent now m' b (stream_send m g)) [m]"
  "handshake_msg m \<Longrightarrow> hs_change g (stream_send m (tm_received now m' g)) [m]"
  by (simp_all add: hs_change_def tm_received_def tm_sent_def stream_send_def)

lemma not_started_simps [simp]:
  "not_started (tm_received now m g) = not_started g"
  "not_started (tm_sent now m b g) = not_started g"
  "not_started (stream_send m g) = not_started g"
  by (simp_all add: not_started_def tm_received_def tm_sent_def stream_send_def)

lemma syn_ok_simps [simp]: "syn_ok n (PacketSYN N) \<longleftrightarrow> N = n" "syn_ok n PacketSYNACK"
  by (auto simp: syn_ok_def)

text \<open>The client's steps before it is started.\<close>

lemma client_send_syn_link:
  assumes "link_inv n (x, y)" and "hs_pc x = CSendSYN"
  shows "link_inv n (client_send_syn now res x, y)"
proof -
  have ns: "not_started (ep_conn x)" and n: "cfg_n (cfg (ep_conn x)) = n"
    using assms link_cfg [OF assms(1)] by (auto simp: link_inv_def client_ok_def)
  show ?thesis
  proof (cases res)
    case None
    let ?g = "tm_sent now (PacketSYN n) (hs_resent x) (stream_send (PacketSYN n) (ep_conn x))"
    have "hs_change (ep_conn x) ?g [PacketSYN n]" by simp
    with None ns n show ?thesis
      by (intro link_client_hs [OF assms(1), of _ "[PacketSYN n]"])
         (auto simp: client_send_syn_def client_ok_def Let_def)
  next
    case (Some e)
    with ns show ?thesis
      by (intro link_client_hs [OF assms(1), of _ "[]"])
         (auto simp: client_send_syn_def client_ok_def Let_def)
  qed
qed

lemma client_wait_link:
  assumes "link_inv n (x, y)" and "hs_pc x = CWaitSYN"
    and "ev = EvTimeout \<or> ev = EvRecvErr e \<or> (\<exists>m. ev = EvRecv (Serialize m))"
  shows "link_inv n (client_wait now res ev x, y)"
proof -
  have ns: "not_started (ep_conn x)" using assms by (auto simp: link_inv_def client_ok_def)
  have got: "link_inv n (client_got_syn now res N x, y)" for N
  proof (cases "res = None \<and> N = cfg_n (cfg (ep_conn x))")
    case True
    let ?g = "stream_send PacketSYNACK (tm_received now (PacketSYN N) (ep_conn x))"
    have "hs_change (ep_conn x) ?g [PacketSYNACK]" by simp
    with True ns show ?thesis
      by (intro link_client_hs [OF assms(1), of _ "[PacketSYNACK]"])
         (auto simp: client_got_syn_def client_ok_def Let_def)
  next
    case False
    have "hs_change (ep_conn x) (tm_received now (PacketSYN N) (ep_conn x)) []" by simp
    with False ns show ?thesis
      by (intro link_client_hs [OF assms(1), of _ "[]"])
         (auto simp: client_got_syn_def client_ok_def Let_def split: option.splits)
  qed
  have again: "link_inv n (x\<lparr>hs_resent := True, hs_pc := CSendSYN\<rparr>, y)"
    by (rule link_client_hs [OF assms(1), of _ "[]"]) (use ns in \<open>auto simp: client_ok_def\<close>)
  have fail: "link_inv n (x\<lparr>hs_pc := HsFailed f\<rparr>, y)" for f
    by (rule link_client_hs [OF assms(1), of _ "[]"]) (use ns in \<open>auto simp: client_ok_def\<close>)
  from assms(3) consider "ev = EvTimeout" | "ev = EvRecvErr e" | m where "ev = EvRecv (Serialize m)"
    by blast
  then show ?thesis
  proof cases
    case 1
    then show ?thesis using again by (simp add: client_wait_def)
  next
    case 2
    then show ?thesis using fail by (simp add: client_wait_def)
  next
    case (3 m)
    then show ?thesis using got assms(1) by (cases m) (simp_all add: client_wait_def)
  qed
qed

text \<open>The server's steps before it has set its window.\<close>

lemma server_reply_link:
  assumes "link_inv n (x, y)" and "hs_pc y = SvReply N"
  shows "link_inv n (x, server_reply now res N y)"
proof -
  have yi: "young_inv n (ep_conn x) y" and N: "N = n"
    using assms by (auto simp: link_inv_def grown_inv_def young_inv_def)
  show ?thesis
  proof (cases res)
    case None
    then show ?thesis using N
      by (intro link_server_hs [OF assms(1) yi, of _ "[PacketSYN n]"])
         (auto simp: server_reply_def young_def)
  next
    case (Some e)
    then show ?thesis using N
      by (intro link_server_hs [OF assms(1) yi, of _ "[]"])
         (auto simp: server_reply_def young_def)
  qed
qed

lemma server_arm_link:
  assumes "link_inv n (x, y)" and "hs_pc y = SvArm"
  shows "link_inv n (x, server_arm None y)"
proof -
  have yi: "young_inv n (ep_conn x) y" using assms by (auto simp: link_inv_def grown_inv_def)
  then show ?thesis using assms(2)
    by (intro link_server_hs [OF assms(1) yi, of _ "[]"])
       (auto simp: server_arm_def young_def young_inv_def)
qed

lemma server_wait_syn_link:
  assumes "link_inv n (x, y)" and "hs_pc y = SvWaitSYN" and "syn_ok n m" and "0 < n" and "n < 255"
  shows "link_inv n (x, server_wait_syn now (EvRecv (Serialize m)) y)"
proof -
  have yi: "young_inv n (ep_conn x) y" using assms by (auto simp: link_inv_def grown_inv_def)
  have fin: "link_inv n (x, server_finish (y\<lparr>ep_conn := tm_received now m' (ep_conn y)\<rparr>))"
    if "hs_resent y" for m'
    using that yi by (intro link_server_finish [OF assms(1) yi _ assms(4,5)])
      (auto simp: young_inv_def)
  have syn: "link_inv n (x, y\<lparr>hs_pc := SvReply N\<rparr>)" if "m = PacketSYN N" for N
    using that assms(3) yi
    by (intro link_server_hs [OF assms(1) yi, of _ "[]"]) (auto simp: young_def young_inv_def)
  show ?thesis using fin syn assms(1) by (cases m) (simp_all add: server_wait_syn_def)
qed

lemma server_wait_synack_link:
  assumes "link_inv n (x, y)" and "hs_pc y = SvWaitSYNACK" and "0 < n" and "n < 255"
    and "ev = EvTimeout \<or> ev = EvRecvErr e \<or> (\<exists>m. ev = EvRecv (Serialize m) \<and> syn_ok n m)"
  shows "link_inv n (x, server_wait_synack now ev y)"
proof -
  have yi: "young_inv n (ep_conn x) y" using assms by (auto simp: link_inv_def grown_inv_def)
  have n: "hs_n y = n" using yi assms(2) by (auto simp: young_inv_def)
  have fin: "link_inv n (x, server_finish (y\<lparr>ep_conn := tm_received now m' (ep_conn y)\<rparr>))" for m'
    by (intro link_server_finish [OF assms(1) yi n assms(3,4)]) simp
  have pc: "link_inv n (x, y\<lparr>hs_resent := True, hs_pc := pc\<rparr>)"
    if "pc = SvWaitSYN \<or> pc = SvReply n" for pc
    by (rule link_server_hs [OF assms(1) yi, of _ "[]"]) (use that n in \<open>auto simp: young_def\<close>)
  have fail: "link_inv n (x, y\<lparr>hs_pc := HsFailed f\<rparr>)" for f
    by (rule link_server_hs [OF assms(1) yi, of _ "[]"]) (use n in \<open>auto simp: young_def\<close>)
  from assms(5) consider "ev = EvTimeout" | "ev = EvRecvErr e"
    | m where "ev = EvRecv (Serialize m)" "syn_ok n m" by blast
  then show ?thesis
  proof cases
    case 1
    then show ?thesis using pc [of SvWaitSYN] by (simp add: server_wait_synack_def)
  next
    case 2
    then show ?thesis using fail by (simp add: server_wait_synack_def)
  next
    case (3 m)
    then show ?thesis using fin fail pc [of "SvReply n"]
      by (cases m) (simp_all add: server_wait_synack_def)
  qed
qed

text \<open>Starting.\<close>

lemma client_start_link:
  assumes "link_inv n (x, y)" and "hs_pc x = HsDone" and "ep_start now x = Some x'"
  shows "link_inv n (x', y)"
proof -
  from assms(3) obtain g where g: "start now (ep_conn x) = Some g"
    and x': "x' = x\<lparr>ep_conn := g, hs_pc := Running\<rparr>" by (auto simp: ep_start_def bind_eq_Some_conv)
  note same = start_unchanged [OF g]
  have "not_started (ep_conn x)" using assms by (auto simp: link_inv_def client_ok_def)
  then have "dir_inv (n + 1) g (ep_conn y)"
    using dir_start_sender [OF _ _ g] assms(1) by (auto simp: link_inv_def)
  moreover have "young_inv n g y" if "young_inv n (ep_conn x) y"
    using that same chan_ok_same [of no_feedback "ep_conn x" g] by (auto simp: young_inv_def)
  moreover have "grown_inv n g y" if "grown_inv n (ep_conn x) y"
    using that dir_start_receiver [OF _ g] by (auto simp: grown_inv_def)
  ultimately show ?thesis
    using assms(1) same x' chan_ok_same [of "syn_ok n" "ep_conn x" g]
    by (auto simp: link_inv_def client_ok_def)
qed

lemma server_start_link:
  assumes "link_inv n (x, y)" and "hs_pc y = HsDone" and "ep_start now y = Some y'"
  shows "link_inv n (x, y')"
proof -
  from assms(3) obtain g where g: "start now (ep_conn y) = Some g"
    and y': "y' = y\<lparr>ep_conn := g, hs_pc := Running\<rparr>" by (auto simp: ep_start_def bind_eq_Some_conv)
  note same = start_unchanged [OF g]
  have "grown_inv n (ep_conn x) y" using assms(1,2)
    by (auto simp: link_inv_def young_inv_def young_def)
  then have "grown_inv n (ep_conn x) y'"
    using dir_start_sender [OF _ _ g] assms(2) y' by (auto simp: grown_inv_def)
  then show ?thesis
    using assms(1) same y' chan_ok_same [of "syn_ok n" "ep_conn y" g]
      dir_start_receiver [OF _ g, of "n + 1" "ep_conn x"]
    by (auto simp: link_inv_def)
qed

text \<open>The steps of started connections.\<close>

lemma quiet_chan:
  assumes "quiet s g g'" and "chan_ok P g" and "P PacketFIN" and "\<And>p. P (Data p)"
  shows "chan_ok P g'"
proof (cases "outbox g' = outbox g")
  case True
  then show ?thesis using chan_ok_same assms(2) by blast
next
  case False
  with assms(1) obtain m where "outbox g' = outbox g @ [Serialize m]" "sendable s (submitted g') m"
    by (auto simp: quiet_def)
  then show ?thesis using assms(2-) by (auto simp: sendable_def intro: chan_ok_append)
qed

lemma receive_chan:
  assumes "receive_iteration now res r (Serialize m) g = Some g'" and "chan_ok P g"
    and "\<And>x. P (PacketACK x) \<and> P (PacketNACK x)"
  shows "chan_ok P g'"
proof -
  have "outbox g' = outbox g \<or> (\<exists>x. outbox g' = outbox g @ [Serialize (PacketNACK x)] \<or>
          outbox g' = outbox g @ [Serialize (PacketACK x)])"
    using receive_data [of now res r _ g g'] receive_feedback_same [of now res r m g g']
      receive_other [of now res r m g g'] assms(1)
    by (cases m) (auto simp: same_receiver_def)
  then show ?thesis using assms(2,3)
    by (auto intro: chan_ok_append chan_ok_same)
qed

lemma client_run_link:
  assumes "link_inv n (x, y)" and "hs_pc x = Running" and "conn_step e (ep_conn x) g"
    and "\<forall>bs. e \<noteq> Receive bs"
  shows "link_inv n (x\<lparr>ep_conn := g\<rparr>, y)"
proof -
  have d: "dir_inv (n + 1) (ep_conn x) (ep_conn y)" using assms(1) by (simp add: link_inv_def)
  then obtain base where "sender_inv (n + 1) (ep_conn x) base" by (auto simp: dir_inv_def dir_state_def)
  from conn_step_quiet [OF assms(3) this assms(4)]
  have inv: "sender_inv (n + 1) g base" and q: "quiet (n + 1) (ep_conn x) g" by auto
  have d': "dir_inv (n + 1) g (ep_conn y)"
  proof -
    from d obtain base' ms ms' where st: "dir_state (n + 1) (ep_conn x) (ep_conn y) base' ms ms'"
      by (auto simp: dir_inv_def)
    then have "sender_inv (n + 1) (ep_conn x) base'" by (simp add: dir_state_def)
    from conn_step_quiet [OF assms(3) this assms(4)] st show ?thesis
      using dir_sender_quiet by blast
  qed
  have "young_inv n g y" if "young_inv n (ep_conn x) y"
    using that q quiet_chan [OF q, of no_feedback]
    by (auto simp: young_inv_def quiet_def no_feedback_def)
  moreover have "grown_inv n g y" if "grown_inv n (ep_conn x) y"
    using that dir_receiver_quiet [OF _ q] by (auto simp: grown_inv_def dir_inv_def [of _ "ep_conn y" "ep_conn x"])
  moreover have "chan_ok (syn_ok n) g"
    using quiet_chan [OF q, of "syn_ok n"] assms(1) by (auto simp: link_inv_def syn_ok_def)
  ultimately show ?thesis using assms(1,2) d' by (auto simp: link_inv_def client_ok_def)
qed

lemma server_run_link:
  assumes "link_inv n (x, y)" and "hs_pc y = Running" and "conn_step e (ep_conn y) g"
    and "\<forall>bs. e \<noteq> Receive bs"
  shows "link_inv n (x, y\<lparr>ep_conn := g\<rparr>)"
proof -
  have d: "dir_inv (n + 1) (ep_conn x) (ep_conn y)" "dir_inv (n + 1) (ep_conn y) (ep_conn x)"
    using assms(1,2) by (auto simp: link_inv_def grown_inv_def young_inv_def young_def)
  then obtain base where "sender_inv (n + 1) (ep_conn y) base" by (auto simp: dir_inv_def dir_state_def)
  from conn_step_quiet [OF assms(3) this assms(4)] have q: "quiet (n + 1) (ep_conn y) g" by auto
  have "chan_ok (syn_ok n) g"
    using quiet_chan [OF q, of "syn_ok n"] assms(1) by (auto simp: link_inv_def syn_ok_def)
  then show ?thesis using sys_quiet [OF assms(3,4) d(2,1)] assms(1,2)
    by (auto simp: link_inv_def grown_inv_def)
qed

lemma server_recv_link:
  assumes "link_inv n (x, y)" and "hs_pc y = Running" and "conn_step (Receive bs) (ep_conn y) g"
    and "outbox (ep_conn x) = bs # rest"
  shows "link_inv n (set_ep_outbox rest x, y\<lparr>ep_conn := g\<rparr>)"
proof -
  have d: "dir_inv (n + 1) (ep_conn x) (ep_conn y)" "dir_inv (n + 1) (ep_conn y) (ep_conn x)"
    using assms(1,2) by (auto simp: link_inv_def grown_inv_def young_inv_def young_def)
  obtain m where m: "bs = Serialize m"
    using chan_ok_head [of "syn_ok n" "ep_conn x"] assms(1,4) by (auto simp: link_inv_def)
  then obtain now res r where recv: "receive_iteration now res r (Serialize m) (ep_conn y) = Some g"
    using assms(3) by (auto simp: conn_step_Receive)
  have "chan_ok (syn_ok n) g"
    using receive_chan [OF recv, of "syn_ok n"] assms(1) by (auto simp: link_inv_def syn_ok_def)
  then show ?thesis
    using sys_receive [OF assms(3,4) d] link_drop_client [OF assms(1), of rest] assms(2,4)
      lossy_tail [of bs rest]
    by (auto simp: link_inv_def grown_inv_def)
qed

lemma client_recv_link:
  assumes "link_inv n (x, y)" and "hs_pc x = Running" and "conn_step (Receive bs) (ep_conn x) g"
    and "outbox (ep_conn y) = bs # rest"
  shows "link_inv n (x\<lparr>ep_conn := g\<rparr>, set_ep_outbox rest y)"
proof -
  have d: "dir_inv (n + 1) (ep_conn x) (ep_conn y)" using assms(1) by (simp add: link_inv_def)
  obtain m where m: "bs = Serialize m"
    using chan_ok_head [of "syn_ok n" "ep_conn y"] assms(1,4) by (auto simp: link_inv_def)
  then obtain now res r where recv: "receive_iteration now res r (Serialize m) (ep_conn x) = Some g"
    using assms(3) by (auto simp: conn_step_Receive)
  have c: "chan_ok (syn_ok n) g"
    using receive_chan [OF recv, of "syn_ok n"] assms(1) by (auto simp: link_inv_def syn_ok_def)
  have drop: "link_inv n (x, set_ep_outbox rest y)"
    using link_drop_server [OF assms(1)] lossy_tail [of bs rest] assms(4) by simp
  show ?thesis
  proof (cases "young y")
    case False
    then have "dir_inv (n + 1) (ep_conn y) (ep_conn x)"
      using assms(1) by (auto simp: link_inv_def grown_inv_def young_inv_def)
    from sys_receive [OF assms(3,4) this d] show ?thesis
      using drop c assms(2) False
      by (auto simp: link_inv_def grown_inv_def young_inv_def young_def client_ok_def)
  next
    case True
    then have yi: "young_inv n (ep_conn x) y"
      using assms(1) by (auto simp: link_inv_def grown_inv_def young_def)
    then have "handshake_msg m"
      using chan_ok_head [of handshake_msg "ep_conn y" bs rest] assms(4) m inj_Serialize
      by (auto simp: young_inv_def dest: injD)
    then have same: "same_sender (ep_conn x) g" "same_receiver (ep_conn x) g"
      using receive_other [OF recv] handshake_msg_only by blast+
    have "dir_inv (n + 1) g ((ep_conn y)\<lparr>outbox := rest\<rparr>)"
      using drop same same_sender_inv [OF same(1)]
      by (auto simp: link_inv_def dir_inv_def dir_state_def same_sender_def same_receiver_def)
    moreover have "young_inv n g (set_ep_outbox rest y)"
      using drop True same chan_ok_same [of no_feedback "ep_conn x" g]
      by (auto simp: link_inv_def young_inv_def grown_inv_def young_def same_receiver_def)
    ultimately show ?thesis using drop c assms(2)
      by (auto simp: link_inv_def client_ok_def)
  qed
qed

lemma ep_net_link:
  assumes "ep_net l l'" and "link_inv n l" and "0 < n" and "n < 255"
  shows "link_inv n l'"
  using assms
proof (induction rule: ep_net.induct)
  case (en_client e x x' y)
  have wait: "hs_pc x \<noteq> SvReply N \<and> hs_pc x \<noteq> SvArm \<and> hs_pc x \<noteq> SvWaitSYN \<and> hs_pc x \<noteq> SvWaitSYNACK"
    for N using en_client.prems by (auto simp: link_inv_def client_ok_def)
  from en_client.hyps(1) show ?case
    by (cases rule: ep_step.cases)
       (use en_client wait in \<open>auto intro: client_send_syn_link client_wait_link client_start_link
          client_run_link\<close>)
next
  case (en_server e y y' x)
  have wait: "hs_pc y \<noteq> CSendSYN \<and> hs_pc y \<noteq> CWaitSYN"
    using en_server.prems by (auto simp: link_inv_def young_inv_def grown_inv_def young_def)
  from en_server.hyps(1) show ?case
    by (cases rule: ep_step.cases)
       (use en_server wait in \<open>auto intro: server_reply_link server_arm_link server_start_link
          server_wait_synack_link server_run_link\<close>)
next
  case (en_to_server x bs rest y y')
  have wait: "hs_pc y \<noteq> CWaitSYN"
    using en_to_server.prems by (auto simp: link_inv_def young_inv_def grown_inv_def young_def)
  obtain m where m: "bs = Serialize m" "syn_ok n m"
    using chan_ok_head [of "syn_ok n" "ep_conn x"] en_to_server by (auto simp: link_inv_def)
  have drop: "link_inv n (set_ep_outbox rest x, y)"
    using link_drop_client [OF en_to_server.prems(1)] lossy_tail [of bs rest] en_to_server.hyps(1)
    by simp
  from en_to_server.hyps(2) show ?case
    by (cases rule: ep_step.cases)
       (use en_to_server drop wait m in \<open>auto intro: server_wait_syn_link server_wait_synack_link
          server_recv_link\<close>)
next
  case (en_to_client y bs rest x x')
  have wait: "hs_pc x \<noteq> SvWaitSYN \<and> hs_pc x \<noteq> SvWaitSYNACK"
    using en_to_client.prems by (auto simp: link_inv_def client_ok_def)
  obtain m where m: "bs = Serialize m"
    using chan_ok_head [of "syn_ok n" "ep_conn y"] en_to_client by (auto simp: link_inv_def)
  have drop: "link_inv n (x, set_ep_outbox rest y)"
    using link_drop_server [OF en_to_client.prems(1)] lossy_tail [of bs rest] en_to_client.hyps(1)
    by simp
  from en_to_client.hyps(2) show ?case
    by (cases rule: ep_step.cases)
       (use en_to_client drop wait m in \<open>auto intro: client_wait_link client_recv_link\<close>)
qed (auto intro: link_drop_client link_drop_server)

lemma ep_nets_link:
  "ep_net\<^sup>*\<^sup>* l l' \<Longrightarrow> link_inv n l \<Longrightarrow> 0 < n \<Longrightarrow> n < 255 \<Longrightarrow> link_inv n l'"
  by (induction rule: rtranclp_induct) (auto intro: ep_net_link)

text \<open>The options of options.go.\<close>

inductive gbn_option :: "(config \<Rightarrow> config) \<Rightarrow> bool" where
  "gbn_option (WithMaxSendSize sz)"
| "gbn_option (WithTimeoutOptions opts)"
| "gbn_option WithOnFIN"

lemma gbn_options_n:
  "\<forall>opt \<in> set opts. gbn_option opt \<Longrightarrow>
   cfg_n (fold (\<lambda>opt c. opt c) opts c) = cfg_n c \<and> cfg_s (fold (\<lambda>opt c. opt c) opts c) = cfg_s c"
proof (induction opts arbitrary: c)
  case (Cons opt opts)
  then have "cfg_n (opt c) = cfg_n c" "cfg_s (opt c) = cfg_s c"
    by (auto elim!: gbn_option.cases simp: WithMaxSendSize_def WithTimeoutOptions_def WithOnFIN_def)
  with Cons show ?case by simp
qed simp

lemma init_link:
  assumes "NewClientConn n opts = Inr x" and "\<forall>opt \<in> set opts. gbn_option opt" and "0 < n"
  shows "link_inv n (x, NewServerConn opts') \<and> n < 255"
proof -
  let ?y = "NewServerConn opts'" and ?c = "fold (\<lambda>opt c. opt c) opts (newConfig n)"
  have n: "n \<noteq> 255" and x: "x = \<lparr>ep_conn = newGoBackNConn ?c, hs_pc = CSendSYN, hs_resent = False, hs_n = 0\<rparr>"
    using assms(1) by (auto simp: NewClientConn_def Let_def split: if_splits)
  have lt: "n < 255"
  proof -
    have "unat n \<noteq> 255" using n word_unat_eq_iff [of n 255] by simp
    then have "unat n < 255" using unat_u8_less [of n] by linarith
    then show ?thesis by (simp add: word_less_nat_alt)
  qed
  have "unat (n + 1) = unat n + 1" using assms(3) lt
    by (simp add: unat_word_ariths word_less_nat_alt)
  then have s: "n + 1 \<noteq> 0" "1 < n + 1" using assms(3) by (auto simp: word_less_nat_alt)
  have "sender_inv (n + 1) (ep_conn x) 0"
    using gbn_options_n [OF assms(2), of "newConfig n"] s ring_rel_newQueue [OF s(1)]
    by (simp add: x newGoBackNConn_def sender_inv_def conn_cfg_ok_def newConfig_def)
  then have "dir_inv (n + 1) (ep_conn x) (ep_conn ?y)"
    by (intro dir_invI [of _ _ _ 0 "[]" "[]"])
       (auto simp: dir_state_def x newGoBackNConn_def NewServerConn_def)
  then show ?thesis using lt
    by (auto simp: link_inv_def x newGoBackNConn_def NewServerConn_def client_ok_def young_inv_def
        young_def not_started_def chan_ok_def)
qed


text \<open>A handshake without loss, with a static resend timeout on both sides.\<close>

definition static_opts :: "(config \<Rightarrow> config) list" where
  "static_opts = [WithTimeoutOptions [WithStaticResendTimeout Second]]"

definition ex_tm :: TimeoutManager where
  "ex_tm = NewTimeOutManager [WithStaticResendTimeout Second]"

lemma ex_tm_simps [simp]:
  "Sent now m b ex_tm = ex_tm" "Received now m ex_tm = ex_tm"
  "GetResendTimeout ex_tm = Second" "GetPingTime ex_tm = MaxInt64" "GetPongTime ex_tm = MaxInt64"
  by (simp_all add: ex_tm_def NewTimeOutManager_def default_manager_def WithStaticResendTimeout_def
      Sent_def Received_def GetResendTimeout_def GetCurrentTimeout_def NewTimeoutBooster_def
      GetPingTime_def GetPongTime_def int64_def)

definition ex_client :: endpoint where
  "ex_client = \<lparr>ep_conn = newGoBackNConn ((newConfig 2)\<lparr>timeoutOptions := [WithStaticResendTimeout Second]\<rparr>),
     hs_pc = CSendSYN, hs_resent = False, hs_n = 0\<rparr>"

lemma ex_client_new: "NewClientConn 2 static_opts = Inr ex_client"
  by (simp add: NewClientConn_def static_opts_def ex_client_def WithTimeoutOptions_def)

lemmas ex_hs = ex_client_def NewServerConn_def static_opts_def WithTimeoutOptions_def
  newGoBackNConn_def newConfig_def client_send_syn_def server_wait_syn_def server_reply_def
  server_arm_def client_wait_def client_got_syn_def server_wait_synack_def server_finish_def
  tm_sent_def tm_received_def stream_send_def ex_tm_def [symmetric]

lemma ex_handshake:
  "\<exists>x' y'. ep_net\<^sup>*\<^sup>* (ex_client, NewServerConn static_opts) (x', y') \<and> hs_pc y' = Running \<and>
     hs_pc x' = HsDone"
proof -
  let ?y = "NewServerConn static_opts"
  define x1 where "x1 = client_send_syn 1 None ex_client"
  define x2 where "x2 = set_ep_outbox [] x1"
  define y1 where "y1 = server_wait_syn 2 (EvRecv (Serialize (PacketSYN 2))) ?y"
  define y2 where "y2 = server_reply 3 None 2 y1"
  define y3 where "y3 = server_arm None y2"
  define x3 where "x3 = client_wait 4 None (EvRecv (Serialize (PacketSYN 2))) x2"
  define y4 where "y4 = set_ep_outbox [] y3"
  define y5 where "y5 = server_wait_synack 5 (EvRecv (Serialize PacketSYNACK)) y4"
  define x4 where "x4 = set_ep_outbox [] x3"
  note d = x1_def x2_def y1_def y2_def y3_def x3_def y4_def y5_def x4_def
  have 1: "ep_net (ex_client, ?y) (x1, ?y)"
    unfolding x1_def by (rule en_client [OF es_send_syn]) (auto simp: ex_client_def)
  have 2: "ep_net (x1, ?y) (x2, y1)"
    unfolding x2_def y1_def
    by (rule en_to_server [OF _ es_server_syn]) (simp_all add: x1_def ex_hs)
  have 3: "ep_net (x2, y1) (x2, y2)"
    unfolding y2_def by (rule en_server [OF es_server_reply]) (auto simp: y1_def ex_hs)
  have 4: "ep_net (x2, y2) (x2, y3)"
    unfolding y3_def by (rule en_server [OF es_server_arm]) (auto simp: y2_def ex_hs)
  have 5: "ep_net (x2, y3) (x3, y4)"
    unfolding x3_def y4_def
    by (rule en_to_client [OF _ es_client_recv]) (simp_all add: d ex_hs)
  have 6: "ep_net (x3, y4) (x4, y5)"
    unfolding x4_def y5_def
    by (rule en_to_server [OF _ es_server_synack]) (simp_all add: d ex_hs)
  have "start 6 (ep_conn y5) \<noteq> None"
    by (simp add: d ex_hs start_def setN_def NewIntervalAwareForceTicker_def)
  then obtain y6 where y6: "ep_start 6 y5 = Some y6" "hs_pc y6 = Running"
    by (auto simp: ep_start_def)
  have 7: "ep_net (x4, y5) (x4, y6)"
    by (rule en_server [OF es_start [OF _ y6(1)]]) (auto simp: d ex_hs)
  from 1 2 3 4 5 6 7 have "ep_net\<^sup>*\<^sup>* (ex_client, ?y) (x4, y6)"
    by (meson converse_rtranclp_into_rtranclp rtranclp.rtrancl_refl)
  moreover have "hs_pc x4 = HsDone" by (simp add: d ex_hs)
  ultimately show ?thesis using y6(2) by blast
qed



text \<open>
  C35: the server accepts the window size 255 that \<^verbatim>\<open>NewClientConn\<close> refuses. The modulus
  \<open>s = n + 1\<close> is then 0, and the first packet that the server sends or receives in order
  panics.
\<close>

theorem server_window_255_panics:
  assumes "hs_pc y = SvWaitSYN"
  shows "\<exists>y'. y' = server_wait_synack t3 (EvRecv (Serialize PacketSYNACK)) (server_arm None
            (server_reply t2 None 255 (server_wait_syn t1 (EvRecv (Serialize (PacketSYN 255))) y))) \<and>
     hs_pc (server_wait_syn t1 (EvRecv (Serialize (PacketSYN 255))) y) = SvReply 255 \<and>
     hs_pc y' = HsDone \<and> cfg_s (cfg (ep_conn y')) = 0 \<and>
     add_packet p (ep_conn y') = None \<and>
     (recvSeq (ep_conn y') = Seq p \<longrightarrow> recv_data t4 None p (ep_conn y') = None)"
  using assms
  by (simp add: server_wait_synack_def server_arm_def server_reply_def server_wait_syn_def
      server_finish_def setN_def add_packet_def addPacket_def newQueue_def recv_data_def
      sendPacket_def tm_sent_def tm_received_def stream_send_def Let_def go_mod_def)

theorem server_window_255_panics_witness:
  "\<exists>y' :: endpoint. hs_pc y' = HsDone \<and> cfg_s (cfg (ep_conn y')) = 0 \<and> add_packet (pkt 0 [1]) (ep_conn y') = None"
proof -
  have "hs_pc (NewServerConn []) = SvWaitSYN" by (simp add: NewServerConn_def)
  from server_window_255_panics [OF this, of 3 2 1 "pkt 0 [1]" 4] show ?thesis by blast
qed

end
