(* ===== verification/Go_IO.thy ===== *)
theory Go_IO
  imports LNC_Prelude
begin

section \<open>Errors, readers and writers\<close>

text \<open>
  What the packages above gbn share: the errors of package mailbox as one datatype, Go's
  \<^verbatim>\<open>io.Reader\<close> and \<^verbatim>\<open>io.Writer\<close> as functions on the state of a connection,
  \<^verbatim>\<open>bytes.Buffer\<close> and \<^verbatim>\<open>io.ReadFull\<close>. The locale \<open>message_conn\<close> is the contract of a
  connection that keeps the boundaries of messages, which the noise handshake relies on.
\<close>

subsection \<open>Errors\<close>

text \<open>
  \<open>ErrPanic\<close> is a panic (a nil dereference or an index out of range), \<open>ErrConn\<close> an
  error of the connection below with its text, \<open>ErrWrap\<close> an error with a text in front of
  it (\<^verbatim>\<open>fmt.Errorf\<close>). The other constructors are named after the
  errors of \<^verbatim>\<open>mailbox\<close>.
\<close>

datatype go_error =
    ErrPanic
  | ErrEOF
  | ErrUnexpectedEOF
  | ErrConn string
  | ErrWrap string go_error
  | ErrAuth
  | ErrECDH
  | ErrPubKey
  | ErrEphemeral
  | ErrScrypt
  | ErrHandshakeVersion u8
  | ErrUnknownVersion u8
  | ErrUnknownAct u8
  | ErrUnknownToken string
  | ErrNoRemoteStatic
  | ErrKKVersion
  | ErrMaxMessageLengthExceeded
  | ErrMessageNotFlushed
  | ErrCallback string
  | ErrTemporary go_error

subsection \<open>Computations on a connection\<close>

text \<open>
  A call that uses a connection returns an error or a value, and the connection it leaves
  behind; \<open>io_bind\<close> is Go's \<^verbatim>\<open>if err != nil { return err }\<close>.
\<close>

type_synonym ('c, 'a) io = "'c \<Rightarrow> (go_error + 'a) \<times> 'c"

definition io_return :: "'a \<Rightarrow> ('c, 'a) io" where
  "io_return x c = (Inr x, c)"

definition io_fail :: "go_error \<Rightarrow> ('c, 'a) io" where
  "io_fail e c = (Inl e, c)"

definition io_lift :: "go_error + 'a \<Rightarrow> ('c, 'a) io" where
  "io_lift r c = (r, c)"

definition io_bind :: "('c, 'a) io \<Rightarrow> ('a \<Rightarrow> ('c, 'b) io) \<Rightarrow> ('c, 'b) io" where
  "io_bind m f c =
     (case m c of
        (Inl e, c') \<Rightarrow> (Inl e, c')
      | (Inr x, c') \<Rightarrow> f x c')"

lemma io_return_apply: "io_return x c = (Inr x, c)"
  by (simp add: io_return_def)

lemma io_fail_apply: "io_fail e c = (Inl e, c)"
  by (simp add: io_fail_def)

lemma io_lift_apply: "io_lift r c = (r, c)"
  by (simp add: io_lift_def)

lemmas io_apply = io_return_apply io_fail_apply io_lift_apply

lemma io_bind_Inl: "m c = (Inl e, c') \<Longrightarrow> io_bind m f c = (Inl e, c')"
  by (simp add: io_bind_def)

lemma io_bind_Inr: "m c = (Inr x, c') \<Longrightarrow> io_bind m f c = f x c'"
  by (simp add: io_bind_def)

lemma io_bind_return [simp]: "io_bind (io_return x) f = f x"
  by (rule ext) (simp add: io_bind_def io_apply)

lemma io_bind_fail [simp]: "io_bind (io_fail e) f = io_fail e"
  by (rule ext) (simp add: io_bind_def io_apply)

lemma io_bind_lift_Inr [simp]: "io_bind (io_lift (Inr x)) f = f x"
  by (rule ext) (simp add: io_bind_def io_apply)

lemma io_bind_lift_Inl [simp]: "io_bind (io_lift (Inl e)) f = io_fail e"
  by (rule ext) (simp add: io_bind_def io_apply)

lemma io_bind_assoc: "io_bind (io_bind m f) g = io_bind m (\<lambda>x. io_bind (f x) g)"
  by (rule ext) (simp add: io_bind_def split: prod.split sum.split)

lemma io_bind_InrE:
  assumes "io_bind m f c = (Inr y, c')"
  obtains x c1 where "m c = (Inr x, c1)" and "f x c1 = (Inr y, c')"
  using assms by (auto simp: io_bind_def split: prod.splits sum.splits)

text \<open>The same without a connection: \<^verbatim>\<open>if err != nil { return err }\<close> on plain results.\<close>

definition ebind :: "go_error + 'a \<Rightarrow> ('a \<Rightarrow> go_error + 'b) \<Rightarrow> go_error + 'b" where
  "ebind m f = (case m of Inl e \<Rightarrow> Inl e | Inr x \<Rightarrow> f x)"

lemma ebind_simps [simp]: "ebind (Inl e) f = Inl e" "ebind (Inr x) f = f x"
  by (simp_all add: ebind_def)

lemma ebind_Inr: "ebind m f = Inr y \<longleftrightarrow> (\<exists>x. m = Inr x \<and> f x = Inr y)"
  by (cases m) simp_all

subsection \<open>Readers and writers\<close>

text \<open>
  \<open>rd n c\<close> is \<^verbatim>\<open>r.Read(b)\<close> with \<^verbatim>\<open>len(b) = n\<close>: the bytes it put at the front of \<^verbatim>\<open>b\<close>, its
  error, and the connection after it. \<open>wr b c\<close> is \<^verbatim>\<open>w.Write(b)\<close>.
\<close>

type_synonym 'c reader = "nat \<Rightarrow> 'c \<Rightarrow> (bytes \<times> go_error option) \<times> 'c"
type_synonym 'c writer = "bytes \<Rightarrow> 'c \<Rightarrow> (nat \<times> go_error option) \<times> 'c"

text \<open>
  \<^verbatim>\<open>buf := make([]byte, n); _, err := r.Read(buf)\<close>: a short read leaves zeros at the end.
\<close>

definition read_buf :: "'c reader \<Rightarrow> nat \<Rightarrow> ('c, bytes) io" where
  "read_buf rd n c =
     (case rd n c of
        ((bs, Some e), c') \<Rightarrow> (Inl e, c')
      | ((bs, None), c') \<Rightarrow> (Inr (take n (bs @ replicate n 0)), c'))"

text \<open>\<^verbatim>\<open>_, err := w.Write(b)\<close>, with the number of bytes ignored.\<close>

definition write_buf :: "'c writer \<Rightarrow> bytes \<Rightarrow> ('c, unit) io" where
  "write_buf wr b c =
     (case wr b c of
        ((n, Some e), c') \<Rightarrow> (Inl e, c')
      | ((n, None), c') \<Rightarrow> (Inr (), c'))"

text \<open>\<^verbatim>\<open>(*bytes.Buffer).Read\<close>: the bytes read, the error, and the bytes left.\<close>

definition buffer_Read :: "nat \<Rightarrow> bytes \<Rightarrow> (bytes \<times> go_error option) \<times> bytes" where
  "buffer_Read n b =
     (if b = [] then (([], if n = 0 then None else Some ErrEOF), [])
      else ((take n b, None), drop n b))"

text \<open>
  \<^verbatim>\<open>io.ReadFull\<close>: reads until \<open>n\<close> bytes are there. A reader may return no bytes and no
  error for ever; then the call does not return, which is \<open>None\<close>.
\<close>

partial_function (option) read_loop ::
    "'c reader \<Rightarrow> nat \<Rightarrow> bytes \<Rightarrow> 'c \<Rightarrow> ((go_error + bytes) \<times> 'c) option" where
  "read_loop rd n acc c =
     (if n \<le> length acc then Some (Inr acc, c)
      else
        let r = rd (n - length acc) c; got = acc @ fst (fst r)
        in (case snd (fst r) of
              None \<Rightarrow> read_loop rd n got (snd r)
            | Some e \<Rightarrow>
                Some (if n \<le> length got then Inr got
                      else if got \<noteq> [] \<and> e = ErrEOF then Inl ErrUnexpectedEOF else Inl e, snd r)))"

definition ReadFull :: "'c reader \<Rightarrow> nat \<Rightarrow> 'c \<Rightarrow> ((go_error + bytes) \<times> 'c) option" where
  "ReadFull rd n c = read_loop rd n [] c"

lemma read_loop_done [simp]: "n \<le> length acc \<Longrightarrow> read_loop rd n acc c = Some (Inr acc, c)"
  by (simp add: read_loop.simps)

lemma read_loop_step:
  assumes "length acc < n" and "rd (n - length acc) c = ((bs, None), c')"
  shows "read_loop rd n acc c = read_loop rd n (acc @ bs) c'"
  using assms by (subst read_loop.simps) (simp add: Let_def)

lemma read_loop_error:
  assumes "length (acc @ bs) < n" and "rd (n - length acc) c = ((bs, Some e), c')"
  shows "read_loop rd n acc c =
    Some (if acc @ bs \<noteq> [] \<and> e = ErrEOF then Inl ErrUnexpectedEOF else Inl e, c')"
  using assms by (subst read_loop.simps) (simp add: Let_def)

subsection \<open>Connections that keep message boundaries\<close>

text \<open>
  The contract: \<open>inbox\<close> are the messages the peer wrote that were not read yet, \<open>buf\<close>
  the rest of the message that is being read, \<open>outbox\<close> the messages written so far. A read
  never returns bytes of two messages; a read from an exhausted connection fails (the read
  deadline of the handshake passes). Only messages below \<open>lim\<close> bytes can be written.
\<close>

locale message_conn =
  fixes rd :: "'c reader" and wr :: "'c writer"
    and buf :: "'c \<Rightarrow> bytes" and inbox outbox :: "'c \<Rightarrow> bytes list" and lim :: nat
  assumes rd_buffered: "buf c \<noteq> [] \<Longrightarrow>
      \<exists>c'. rd n c = ((take n (buf c), None), c') \<and> buf c' = drop n (buf c) \<and>
        inbox c' = inbox c \<and> outbox c' = outbox c"
    and rd_next: "buf c = [] \<Longrightarrow> inbox c = m # ms \<Longrightarrow> m \<noteq> [] \<Longrightarrow>
      \<exists>c'. rd n c = ((take n m, None), c') \<and> buf c' = drop n m \<and>
        inbox c' = ms \<and> outbox c' = outbox c"
    and rd_blocked: "buf c = [] \<Longrightarrow> inbox c = [] \<Longrightarrow>
      \<exists>e c'. rd n c = (([], Some e), c') \<and> buf c' = [] \<and> inbox c' = [] \<and> outbox c' = outbox c"
    and wr_msg: "length b < lim \<Longrightarrow>
      \<exists>c'. wr b c = ((length b, None), c') \<and> outbox c' = outbox c @ [b] \<and>
        inbox c' = inbox c \<and> buf c' = buf c"
begin

text \<open>A read of bytes that are buffered is exact: no zero padding.\<close>

lemma read_buf_exact:
  assumes "0 < n" and "n \<le> length (buf c)"
  obtains c' where "read_buf rd n c = (Inr (take n (buf c)), c')" and "buf c' = drop n (buf c)"
    and "inbox c' = inbox c" and "outbox c' = outbox c"
proof -
  have "buf c \<noteq> []" using assms by auto
  then obtain c' where "rd n c = ((take n (buf c), None), c')" "buf c' = drop n (buf c)"
      "inbox c' = inbox c" "outbox c' = outbox c"
    using rd_buffered [of c n] by blast
  with assms show thesis by (intro that [of c']) (simp_all add: read_buf_def)
qed

lemma read_buf_next:
  assumes "buf c = []" and "inbox c = m # ms" and "0 < n" and "n \<le> length m"
  obtains c' where "read_buf rd n c = (Inr (take n m), c')" and "buf c' = drop n m"
    and "inbox c' = ms" and "outbox c' = outbox c"
proof -
  have "m \<noteq> []" using assms by auto
  then obtain c' where "rd n c = ((take n m, None), c')" "buf c' = drop n m"
      "inbox c' = ms" "outbox c' = outbox c"
    using rd_next [of c m ms n] assms by blast
  with assms show thesis by (intro that [of c']) (simp_all add: read_buf_def)
qed

lemma read_buf_blocked:
  assumes "buf c = []" and "inbox c = []"
  obtains e c' where "read_buf rd n c = (Inl e, c')" and "outbox c' = outbox c"
    and "buf c' = []" and "inbox c' = []"
  using rd_blocked [OF assms, of n] by (auto simp: read_buf_def)

lemma write_buf_msg:
  assumes "length b < lim"
  obtains c' where "write_buf wr b c = (Inr (), c')" and "outbox c' = outbox c @ [b]"
    and "inbox c' = inbox c" and "buf c' = buf c"
  using wr_msg [OF assms, of c] by (auto simp: write_buf_def)

text \<open>The bytes that reading still returns, when no empty message is among them.\<close>

definition stream :: "'c \<Rightarrow> bytes" where
  "stream c = buf c @ concat (inbox c)"

definition no_empty :: "'c \<Rightarrow> bool" where
  "no_empty c \<longleftrightarrow> [] \<notin> set (inbox c)"

lemma rd_stream:
  assumes "no_empty c" and "stream c \<noteq> []" and "0 < n"
  obtains c' k where "rd n c = ((take k (stream c), None), c')" and "0 < k" and "k \<le> n"
    and "k \<le> length (stream c)" and "stream c' = drop k (stream c)" and "no_empty c'"
    and "outbox c' = outbox c"
proof (cases "buf c = []")
  case False
  then obtain c' where c': "rd n c = ((take n (buf c), None), c')" "buf c' = drop n (buf c)"
      "inbox c' = inbox c" "outbox c' = outbox c"
    using rd_buffered [of c n] by blast
  show thesis
    by (rule that [of "min n (length (buf c))" c'])
      (use c' assms False in \<open>auto simp: stream_def no_empty_def min_def\<close>)
next
  case True
  with assms(2) obtain m ms where m: "inbox c = m # ms"
    by (cases "inbox c") (auto simp: stream_def)
  with assms(1) have "m \<noteq> []" by (auto simp: no_empty_def)
  with True m obtain c' where c': "rd n c = ((take n m, None), c')" "buf c' = drop n m"
      "inbox c' = ms" "outbox c' = outbox c"
    using rd_next [of c m ms n] by blast
  show thesis
    by (rule that [of "min n (length m)" c'])
      (use c' assms True m \<open>m \<noteq> []\<close> in \<open>auto simp: stream_def no_empty_def min_def\<close>)
qed

lemma read_loop_stream:
  assumes "no_empty c" and "n - length acc \<le> length (stream c)" and "length acc \<le> n"
  shows "\<exists>c'. read_loop rd n acc c = Some (Inr (acc @ take (n - length acc) (stream c)), c') \<and>
    stream c' = drop (n - length acc) (stream c) \<and> no_empty c' \<and> outbox c' = outbox c"
  using assms
proof (induction "n - length acc" arbitrary: acc c rule: less_induct)
  case less
  show ?case
  proof (cases "n = length acc")
    case True
    with less.prems show ?thesis by simp
  next
    case False
    with less.prems have n: "0 < n - length acc" "stream c \<noteq> []" by auto
    obtain c1 k where k: "rd (n - length acc) c = ((take k (stream c), None), c1)" "0 < k"
        "k \<le> n - length acc" "k \<le> length (stream c)" "stream c1 = drop k (stream c)" "no_empty c1"
        "outbox c1 = outbox c"
      using rd_stream [OF less.prems(1) n(2,1)] by blast
    let ?acc = "acc @ take k (stream c)"
    have l: "length ?acc = length acc + k" using k(4) by simp
    have m: "n - length ?acc < n - length acc" "n - length ?acc \<le> length (stream c1)"
        "length ?acc \<le> n" using k less.prems l n by auto
    obtain c2 where c2: "read_loop rd n ?acc c1 =
        Some (Inr (?acc @ take (n - length ?acc) (stream c1)), c2)"
        "stream c2 = drop (n - length ?acc) (stream c1)" "no_empty c2" "outbox c2 = outbox c1"
      using less.hyps [OF m(1) k(6) m(2,3)] by blast
    have e: "n - length acc = k + (n - length ?acc)" using k(3) l by simp
    then have "take (n - length acc) (stream c) =
        take k (stream c) @ take (n - length ?acc) (stream c1)"
      by (simp add: take_add k(5))
    moreover have "read_loop rd n acc c = read_loop rd n ?acc c1"
      by (rule read_loop_step) (use k(1) n in simp_all)
    moreover have "stream c2 = drop (n - length acc) (stream c)"
      unfolding c2(2) k(5) e by (simp add: add.commute)
    ultimately show ?thesis using c2 k(7) by auto
  qed
qed

text \<open>\<^verbatim>\<open>io.ReadFull\<close> returns and takes exactly its bytes off the stream.\<close>

lemma ReadFull_stream:
  assumes "no_empty c" and "n \<le> length (stream c)"
  obtains c' where "ReadFull rd n c = Some (Inr (take n (stream c)), c')"
    and "stream c' = drop n (stream c)" and "no_empty c'" and "outbox c' = outbox c"
  using read_loop_stream [of c n "[]"] assms by (auto simp: ReadFull_def)

end

end
