(* ===== verification/Mailbox_Interface.thy ===== *)
theory Mailbox_Interface
  imports Go_IO
begin

section \<open>Control messages and connKit (mailbox/interface.go, mailbox/server.go)\<close>

text \<open>
  The data message that carries the noise traffic over gbn, the byte-stream view
  \<^verbatim>\<open>connKit\<close> of a control connection, and the two stream ids of a session. The
  connection below is a \<^verbatim>\<open>controlConn\<close>, a record of functions as the Go interface is.
\<close>

subsection \<open>MsgData\<close>

record MsgData =
  md_version :: u8
  md_Payload :: bytes

definition NewMsgData :: "u8 \<Rightarrow> bytes \<Rightarrow> MsgData" where
  "NewMsgData v p = \<lparr>md_version = v, md_Payload = p\<rparr>"

definition ProtocolVersion :: u8 where
  "ProtocolVersion = 0"

definition MsgData_Serialize :: "MsgData \<Rightarrow> bytes" where
  "MsgData_Serialize m =
     (let payloadLen = of_nat (length (md_Payload m)) :: u32
      in [md_version m] @ put_u32 payloadLen @ (if payloadLen > 0 then md_Payload m else []))"

text \<open>Go's \<^verbatim>\<open>int\<close> has \<open>w\<close> bits, 64 or 32 depending on the platform; arithmetic wraps.\<close>

definition go_int :: "nat \<Rightarrow> int \<Rightarrow> int" where
  "go_int w x = (x + 2 ^ (w - 1)) mod 2 ^ w - 2 ^ (w - 1)"

lemma go_int_id:
  assumes "0 < w" and "- (2 ^ (w - 1)) \<le> x" and "x < 2 ^ (w - 1)"
  shows "go_int w x = x"
proof -
  have "(2 :: int) ^ w = 2 ^ (w - 1) + 2 ^ (w - 1)"
    using assms(1) by (cases w) simp_all
  with assms show ?thesis by (simp add: go_int_def)
qed

text \<open>
  \<^verbatim>\<open>Deserialize\<close> fills \<open>m\<close>; the slice expression panics when its upper bound is below
  its lower bound.
\<close>

definition MsgData_Deserialize :: "nat \<Rightarrow> bytes \<Rightarrow> MsgData \<Rightarrow> go_error + MsgData" where
  "MsgData_Deserialize w b m =
     (if length b < 5 then Inl ErrEOF
      else
        let payloadLen = get_u32 (drop 1 b); up = go_int w (5 + go_int w (uint payloadLen))
        in if int (length b) < up then Inl ErrEOF
           else if payloadLen > 0 then
             (if up < 5 then Inl ErrPanic
              else Inr \<lparr>md_version = b ! 0, md_Payload = take (nat up - 5) (drop 5 b)\<rparr>)
           else Inr (m\<lparr>md_version := b ! 0\<rparr>))"

text \<open>The payloads that survive: below 4 GiB, and small enough for an \<^verbatim>\<open>int\<close>.\<close>

definition fits :: "nat \<Rightarrow> MsgData \<Rightarrow> bool" where
  "fits w m \<longleftrightarrow> 3 < w \<and> length (md_Payload m) < 2 ^ 32 \<and> length (md_Payload m) + 5 < 2 ^ (w - 1)"

lemma u32_length:
  assumes "length (p :: bytes) < 2 ^ 32"
  shows "unat (of_nat (length p) :: u32) = length p"
  using assms by (simp add: unat_of_nat take_bit_eq_mod)

lemma go_int_nonneg: "0 < w \<Longrightarrow> 0 \<le> x \<Longrightarrow> x < 2 ^ (w - 1) \<Longrightarrow> go_int w x = x"
  by (rule go_int_id) (simp_all add: order_trans [of "- (2 ^ (w - 1))" 0 x])

lemma go_int_length:
  assumes "3 < w" and "n + 5 < 2 ^ (w - 1)"
  shows "go_int w (5 + go_int w (int n)) = int n + 5"
proof -
  have l: "int n + 5 < 2 ^ (w - 1)"
    using assms(2) by (metis of_nat_add of_nat_less_iff of_nat_numeral of_nat_power)
  have "go_int w (int n) = int n"
    by (rule go_int_nonneg) (use assms(1) l in linarith)+
  moreover have "go_int w (int n + 5) = int n + 5"
    by (rule go_int_nonneg) (use assms(1) l in linarith)+
  ultimately show ?thesis by (simp add: add.commute)
qed

lemma Deserialize_MsgData:
  assumes "fits w m" and "md_Payload m0 = []"
  shows "MsgData_Deserialize w (MsgData_Serialize m @ r) m0 = Inr m"
proof -
  let ?p = "md_Payload m" and ?n = "of_nat (length (md_Payload m)) :: u32"
  have n: "unat ?n = length ?p" using assms(1) by (intro u32_length) (simp add: fits_def)
  then have u: "uint ?n = int (length ?p)" by (metis of_nat_unat)
  have up: "go_int w (5 + go_int w (uint ?n)) = int (length ?p) + 5"
    using assms(1) unfolding u by (simp add: go_int_length fits_def)
  have pos: "0 < ?n \<longleftrightarrow> ?p \<noteq> []"
    using n by (simp add: word_greater_zero_iff unat_eq_0 [symmetric])
  show ?thesis
    using assms(2) up pos n
    by (cases "?p = []") (auto simp: MsgData_Deserialize_def MsgData_Serialize_def Let_def)
qed

interpretation msgdata: wire_format
  "MsgData_Serialize" "\<lambda>b. MsgData_Deserialize 64 b (NewMsgData ProtocolVersion [])" "fits 64"
  using Deserialize_MsgData [where r = "[]"]
  by unfold_locales (simp add: NewMsgData_def)

text \<open>With 64-bit integers parsing never panics; an error is always a message that is too short.\<close>

lemma Deserialize_64_total:
  "MsgData_Deserialize 64 b m = Inl e \<longleftrightarrow>
     e = ErrEOF \<and> (length b < 5 \<or> length b < 5 + unat (get_u32 (drop 1 b)))"
proof -
  let ?n = "get_u32 (drop 1 b)"
  have "unat ?n < 2 ^ 32" using unsigned_less [of ?n] by simp
  then have "go_int 64 (5 + go_int 64 (int (unat ?n))) = int (unat ?n) + 5"
    by (intro go_int_length) simp_all
  then have up: "go_int 64 (5 + go_int 64 (uint ?n)) = uint ?n + 5" by simp
  have "int (length b) < int (unat ?n) + 5 \<longleftrightarrow> length b < 5 + unat ?n" by linarith
  then have n: "int (length b) < uint ?n + 5 \<longleftrightarrow> length b < 5 + unat ?n" by simp
  show ?thesis by (auto simp: MsgData_Deserialize_def up n Let_def simp del: One_nat_def)
qed

text \<open>
  C32: a data message survives the wire: parsing a serialized message (also with bytes behind
  it) gives the message back for every payload below 4 GiB, serialization is injective there,
  and with 64-bit integers parsing fails, with \<^verbatim>\<open>io.EOF\<close> and without a panic, exactly
  on inputs that are shorter than their header or than the length it announces.
\<close>

theorem msgdata_wire:
  "(\<forall>m r. fits 64 m \<longrightarrow>
      MsgData_Deserialize 64 (MsgData_Serialize m @ r) (NewMsgData ProtocolVersion []) = Inr m) \<and>
   inj_on MsgData_Serialize (Collect (fits 64)) \<and>
   (\<forall>b m e. MsgData_Deserialize 64 b m = Inl e \<longleftrightarrow>
      e = ErrEOF \<and> (length b < 5 \<or> length b < 5 + unat (get_u32 (drop 1 b))))"
  using Deserialize_MsgData [of 64 _ "NewMsgData ProtocolVersion []"] msgdata.inj_on_enc
    Deserialize_64_total
  by (simp add: NewMsgData_def)

theorem msgdata_wire_witness:
  "fits 64 (NewMsgData 0 [7, 8]) \<and>
   MsgData_Deserialize 64 (MsgData_Serialize (NewMsgData 0 [7, 8]) @ [9])
     (NewMsgData ProtocolVersion []) = Inr (NewMsgData 0 [7, 8])"
proof -
  have "fits 64 (NewMsgData 0 [7, 8])" by (simp add: fits_def NewMsgData_def)
  then show ?thesis using msgdata_wire by blast
qed

text \<open>
  With 32-bit integers five bytes from the wire crash the receiver: a data message that
  announces a payload of \<open>2\<^sup>3\<^sup>2 - 1\<close> bytes passes the length check, since the sum of header
  and payload length wraps to 4, and the slice expression behind it panics.
\<close>

theorem msgdata_32bit_panic:
  "MsgData_Deserialize 32 [0, 255, 255, 255, 255] m = Inl ErrPanic \<and>
   MsgData_Deserialize 64 [0, 255, 255, 255, 255] m = Inl ErrEOF"
proof -
  have "get_u32 [255, 255, 255, 255] = 4294967295"
    by (simp add: get_u32_def)
  then show ?thesis
    by (simp add: MsgData_Deserialize_def go_int_def Let_def)
qed

subsection \<open>Control connections\<close>

text \<open>
  The interface \<^verbatim>\<open>controlConn\<close>: the functions of an implementation with state \<open>'g\<close>.
  \<open>cc_Receive\<close> fills the message it is given.
\<close>

record 'g controlConn =
  cc_Receive :: "MsgData \<Rightarrow> 'g \<Rightarrow> (go_error + MsgData) \<times> 'g"
  cc_Send :: "MsgData \<Rightarrow> 'g \<Rightarrow> go_error option \<times> 'g"
  cc_SetRecvTimeout :: "duration \<Rightarrow> 'g \<Rightarrow> 'g"
  cc_SetSendTimeout :: "duration \<Rightarrow> 'g \<Rightarrow> 'g"

record 'g connKit =
  serverAddr :: string
  impl :: 'g
  readDeadline :: time
  writeDeadline :: time
  receiveSID :: bytes
  sendSID :: bytes
  recvBuffer :: bytes

definition connKit_Read :: "'g controlConn \<Rightarrow> 'g connKit reader" where
  "connKit_Read I n k =
     (if recvBuffer k = [] then
        (case cc_Receive I (NewMsgData ProtocolVersion []) (impl k) of
           (Inl e, g) \<Rightarrow> (([], Some e), k\<lparr>impl := g\<rparr>)
         | (Inr m, g) \<Rightarrow>
             let (r, b) = buffer_Read n (md_Payload m) in (r, k\<lparr>impl := g, recvBuffer := b\<rparr>))
      else let (r, b) = buffer_Read n (recvBuffer k) in (r, k\<lparr>recvBuffer := b\<rparr>))"

definition connKit_Write :: "'g controlConn \<Rightarrow> 'g connKit writer" where
  "connKit_Write I b k =
     (case cc_Send I (NewMsgData ProtocolVersion b) (impl k) of
        (Some e, g) \<Rightarrow> ((0, Some e), k\<lparr>impl := g\<rparr>)
      | (None, g) \<Rightarrow> ((length b, None), k\<lparr>impl := g\<rparr>))"

text \<open>
  A deadline becomes a timeout of the connection below; the zero time means none.
  \<open>now\<close> is the time of the call.
\<close>

definition deadline_timeout :: "time \<Rightarrow> time \<Rightarrow> duration" where
  "deadline_timeout now t = (if t = zero_time then MaxInt64 else time_sub t now)"

definition SetReadDeadline :: "'g controlConn \<Rightarrow> time \<Rightarrow> time \<Rightarrow> 'g connKit \<Rightarrow> 'g connKit" where
  "SetReadDeadline I now t k =
     k\<lparr>readDeadline := t, impl := cc_SetRecvTimeout I (deadline_timeout now t) (impl k)\<rparr>"

definition SetWriteDeadline :: "'g controlConn \<Rightarrow> time \<Rightarrow> time \<Rightarrow> 'g connKit \<Rightarrow> 'g connKit" where
  "SetWriteDeadline I now t k =
     k\<lparr>writeDeadline := t, impl := cc_SetSendTimeout I (deadline_timeout now t) (impl k)\<rparr>"

definition SetDeadline :: "'g controlConn \<Rightarrow> time \<Rightarrow> time \<Rightarrow> 'g connKit \<Rightarrow> 'g connKit" where
  "SetDeadline I now t k = SetWriteDeadline I now t (SetReadDeadline I now t k)"

subsection \<open>Control messages over gbn\<close>

text \<open>
  The methods of \<^verbatim>\<open>gbn.GoBackNConn\<close> that the mailbox connections call, as seen by a
  caller; \<open>'g\<close> is the state of the connection.
\<close>

record 'g gbn_conn =
  gbn_Send :: "bytes \<Rightarrow> 'g \<Rightarrow> go_error option \<times> 'g"
  gbn_Recv :: "'g \<Rightarrow> (go_error + bytes) \<times> 'g"
  gbn_SetSendTimeout :: "duration \<Rightarrow> 'g \<Rightarrow> 'g"
  gbn_SetRecvTimeout :: "duration \<Rightarrow> 'g \<Rightarrow> 'g"

definition ClientConn_ReceiveControlMsg ::
    "nat \<Rightarrow> 'g gbn_conn \<Rightarrow> MsgData \<Rightarrow> 'g \<Rightarrow> (go_error + MsgData) \<times> 'g" where
  "ClientConn_ReceiveControlMsg w G m g =
     (case gbn_Recv G g of
        (Inl e, g') \<Rightarrow> (Inl (ErrWrap ''error receiving from go-back-n connection'' e), g')
      | (Inr b, g') \<Rightarrow> (MsgData_Deserialize w b m, g'))"

definition ServerConn_ReceiveControlMsg ::
    "nat \<Rightarrow> 'g gbn_conn \<Rightarrow> MsgData \<Rightarrow> 'g \<Rightarrow> (go_error + MsgData) \<times> 'g" where
  "ServerConn_ReceiveControlMsg w G m g =
     (case gbn_Recv G g of
        (Inl e, g') \<Rightarrow> (Inl (ErrWrap ''error reading from go-back-n'' e), g')
      | (Inr b, g') \<Rightarrow>
          (case MsgData_Deserialize w b m of
             Inl ErrPanic \<Rightarrow> (Inl ErrPanic, g')
           | Inl e \<Rightarrow> (Inl (ErrWrap ''error parsing control message'' e), g')
           | Inr m' \<Rightarrow> (Inr m', g')))"

definition SendControlMsg :: "'g gbn_conn \<Rightarrow> MsgData \<Rightarrow> 'g \<Rightarrow> go_error option \<times> 'g" where
  "SendControlMsg G m g = gbn_Send G (MsgData_Serialize m) g"

definition client_control :: "nat \<Rightarrow> 'g gbn_conn \<Rightarrow> 'g controlConn" where
  "client_control w G = \<lparr>cc_Receive = ClientConn_ReceiveControlMsg w G,
     cc_Send = SendControlMsg G, cc_SetRecvTimeout = gbn_SetRecvTimeout G,
     cc_SetSendTimeout = gbn_SetSendTimeout G\<rparr>"

definition server_control :: "nat \<Rightarrow> 'g gbn_conn \<Rightarrow> 'g controlConn" where
  "server_control w G = \<lparr>cc_Receive = ServerConn_ReceiveControlMsg w G,
     cc_Send = SendControlMsg G, cc_SetRecvTimeout = gbn_SetRecvTimeout G,
     cc_SetSendTimeout = gbn_SetSendTimeout G\<rparr>"

subsection \<open>connKit keeps message boundaries\<close>

text \<open>
  The contract of a control connection: \<open>inb\<close> are the payloads that will be received,
  \<open>outb\<close> those sent. \<^verbatim>\<open>connKit\<close> on top of any such connection is a \<open>message_conn\<close>.
\<close>

locale message_control =
  fixes I :: "'g controlConn" and inb outb :: "'g \<Rightarrow> bytes list" and lim :: nat
  assumes recv_msg: "inb g = m # ms \<Longrightarrow> m \<noteq> [] \<Longrightarrow>
      \<exists>g' d. cc_Receive I (NewMsgData ProtocolVersion []) g = (Inr d, g') \<and> md_Payload d = m \<and>
        inb g' = ms \<and> outb g' = outb g"
    and recv_blocked: "inb g = [] \<Longrightarrow>
      \<exists>e g'. cc_Receive I (NewMsgData ProtocolVersion []) g = (Inl e, g') \<and>
        inb g' = [] \<and> outb g' = outb g"
    and send_msg: "length b < lim \<Longrightarrow>
      \<exists>g'. cc_Send I (NewMsgData ProtocolVersion b) g = (None, g') \<and> inb g' = inb g \<and>
        outb g' = outb g @ [b]"

sublocale message_control \<subseteq> kit: message_conn "connKit_Read I" "connKit_Write I" recvBuffer
  "\<lambda>k. inb (impl k)" "\<lambda>k. outb (impl k)" lim
proof
  fix c :: "'g connKit" and n
  assume "recvBuffer c \<noteq> []"
  then show "\<exists>c'. connKit_Read I n c = ((take n (recvBuffer c), None), c') \<and>
      recvBuffer c' = drop n (recvBuffer c) \<and> inb (impl c') = inb (impl c) \<and>
      outb (impl c') = outb (impl c)"
    by (simp add: connKit_Read_def buffer_Read_def)
next
  fix c :: "'g connKit" and n m ms
  assume a: "recvBuffer c = []" "inb (impl c) = m # ms" "m \<noteq> []"
  then obtain g' d where "cc_Receive I (NewMsgData ProtocolVersion []) (impl c) = (Inr d, g')"
      "md_Payload d = m" "inb g' = ms" "outb g' = outb (impl c)"
    using recv_msg by blast
  with a show "\<exists>c'. connKit_Read I n c = ((take n m, None), c') \<and> recvBuffer c' = drop n m \<and>
      inb (impl c') = ms \<and> outb (impl c') = outb (impl c)"
    by (simp add: connKit_Read_def buffer_Read_def)
next
  fix c :: "'g connKit" and n
  assume a: "recvBuffer c = []" "inb (impl c) = []"
  then obtain e g' where "cc_Receive I (NewMsgData ProtocolVersion []) (impl c) = (Inl e, g')"
      "inb g' = []" "outb g' = outb (impl c)"
    using recv_blocked by blast
  with a show "\<exists>e c'. connKit_Read I n c = (([], Some e), c') \<and> recvBuffer c' = [] \<and>
      inb (impl c') = [] \<and> outb (impl c') = outb (impl c)"
    by (simp add: connKit_Read_def)
next
  fix c :: "'g connKit" and b :: bytes
  assume "length b < lim"
  then obtain g' where "cc_Send I (NewMsgData ProtocolVersion b) (impl c) = (None, g')"
      "inb g' = inb (impl c)" "outb g' = outb (impl c) @ [b]"
    using send_msg by blast
  then show "\<exists>c'. connKit_Write I b c = ((length b, None), c') \<and>
      outb (impl c') = outb (impl c) @ [b] \<and> inb (impl c') = inb (impl c) \<and>
      recvBuffer c' = recvBuffer c"
    by (simp add: connKit_Write_def)
qed

text \<open>
  A gbn connection as its users see it while it is open: \<^verbatim>\<open>Recv\<close> returns the peer's
  messages in order, and times out when there is none; \<^verbatim>\<open>Send\<close> hands a message over.
  That the messages are those the peer sent is the theorem \<open>message_stream\<close> on the
  connection itself.
\<close>

record gbn_msgs =
  q_in :: "bytes list"
  q_out :: "bytes list"
  q_sendTimeout :: duration
  q_recvTimeout :: duration

definition queue_Recv :: "gbn_msgs \<Rightarrow> (go_error + bytes) \<times> gbn_msgs" where
  "queue_Recv q = (case q_in q of
     [] \<Rightarrow> (Inl (ErrConn ''receive timeout''), q)
   | m # ms \<Rightarrow> (Inr m, q\<lparr>q_in := ms\<rparr>))"

definition queue_gbn :: "gbn_msgs gbn_conn" where
  "queue_gbn = \<lparr>gbn_Send = (\<lambda>b q. (None, q\<lparr>q_out := q_out q @ [b]\<rparr>)), gbn_Recv = queue_Recv,
     gbn_SetSendTimeout = (\<lambda>d q. q\<lparr>q_sendTimeout := d\<rparr>),
     gbn_SetRecvTimeout = (\<lambda>d q. q\<lparr>q_recvTimeout := d\<rparr>)\<rparr>"

text \<open>The payload of a message on the wire; the empty one when it does not parse.\<close>

definition payload_of :: "bytes \<Rightarrow> bytes" where
  "payload_of b = (case MsgData_Deserialize 64 b (NewMsgData ProtocolVersion []) of
     Inl e \<Rightarrow> [] | Inr m \<Rightarrow> md_Payload m)"

definition payloads_in :: "gbn_msgs \<Rightarrow> bytes list" where
  "payloads_in q = map payload_of (q_in q)"

definition payloads_out :: "gbn_msgs \<Rightarrow> bytes list" where
  "payloads_out q = map payload_of (q_out q)"

lemma payload_of_Serialize:
  "length b < 2 ^ 32 \<Longrightarrow> payload_of (MsgData_Serialize (NewMsgData v b)) = b"
  using Deserialize_MsgData [of 64 "NewMsgData v b" "NewMsgData ProtocolVersion []" "[]"]
  by (simp add: payload_of_def fits_def NewMsgData_def)

lemmas queue_defs = queue_gbn_def queue_Recv_def payloads_in_def payloads_out_def

interpretation ckit: message_control "client_control 64 queue_gbn" payloads_in payloads_out "2 ^ 32"
proof
  fix g :: gbn_msgs and m ms assume "payloads_in g = m # ms" and "m \<noteq> []"
  then show "\<exists>g' d. cc_Receive (client_control 64 queue_gbn) (NewMsgData ProtocolVersion []) g =
      (Inr d, g') \<and> md_Payload d = m \<and> payloads_in g' = ms \<and> payloads_out g' = payloads_out g"
    by (auto simp: client_control_def ClientConn_ReceiveControlMsg_def queue_defs payload_of_def
        split: list.splits sum.splits)
next
  fix g :: gbn_msgs assume "payloads_in g = []"
  then show "\<exists>e g'. cc_Receive (client_control 64 queue_gbn) (NewMsgData ProtocolVersion []) g =
      (Inl e, g') \<and> payloads_in g' = [] \<and> payloads_out g' = payloads_out g"
    by (simp add: client_control_def ClientConn_ReceiveControlMsg_def queue_defs)
next
  fix g :: gbn_msgs and b :: bytes assume "length b < 2 ^ 32"
  then show "\<exists>g'. cc_Send (client_control 64 queue_gbn) (NewMsgData ProtocolVersion b) g = (None, g') \<and>
      payloads_in g' = payloads_in g \<and> payloads_out g' = payloads_out g @ [b]"
    by (simp add: client_control_def SendControlMsg_def queue_defs payload_of_Serialize)
qed

interpretation skit: message_control "server_control 64 queue_gbn" payloads_in payloads_out "2 ^ 32"
proof
  fix g :: gbn_msgs and m ms assume "payloads_in g = m # ms" and "m \<noteq> []"
  then show "\<exists>g' d. cc_Receive (server_control 64 queue_gbn) (NewMsgData ProtocolVersion []) g =
      (Inr d, g') \<and> md_Payload d = m \<and> payloads_in g' = ms \<and> payloads_out g' = payloads_out g"
    by (auto simp: server_control_def ServerConn_ReceiveControlMsg_def queue_defs payload_of_def
        split: list.splits sum.splits)
next
  fix g :: gbn_msgs assume "payloads_in g = []"
  then show "\<exists>e g'. cc_Receive (server_control 64 queue_gbn) (NewMsgData ProtocolVersion []) g =
      (Inl e, g') \<and> payloads_in g' = [] \<and> payloads_out g' = payloads_out g"
    by (simp add: server_control_def ServerConn_ReceiveControlMsg_def queue_defs)
next
  fix g :: gbn_msgs and b :: bytes assume "length b < 2 ^ 32"
  then show "\<exists>g'. cc_Send (server_control 64 queue_gbn) (NewMsgData ProtocolVersion b) g = (None, g') \<and>
      payloads_in g' = payloads_in g \<and> payloads_out g' = payloads_out g @ [b]"
    by (simp add: server_control_def SendControlMsg_def queue_defs payload_of_Serialize)
qed

subsection \<open>ProxyConn\<close>

text \<open>
  The interface \<^verbatim>\<open>ProxyConn\<close> has two implementations, \<^verbatim>\<open>ClientConn\<close> and
  \<^verbatim>\<open>ServerConn\<close>; a call goes to the \<^verbatim>\<open>connKit\<close> of the one at hand.
\<close>

datatype 'g ProxyConn = ClientProxy "'g connKit" | ServerProxy "'g connKit"

fun proxy_kit :: "'g ProxyConn \<Rightarrow> 'g connKit" where
  "proxy_kit (ClientProxy k) = k"
| "proxy_kit (ServerProxy k) = k"

definition proxy_Read :: "nat \<Rightarrow> 'g gbn_conn \<Rightarrow> 'g ProxyConn reader" where
  "proxy_Read w G n pc =
     (case pc of
        ClientProxy k \<Rightarrow> apsnd ClientProxy (connKit_Read (client_control w G) n k)
      | ServerProxy k \<Rightarrow> apsnd ServerProxy (connKit_Read (server_control w G) n k))"

definition proxy_Write :: "nat \<Rightarrow> 'g gbn_conn \<Rightarrow> 'g ProxyConn writer" where
  "proxy_Write w G b pc =
     (case pc of
        ClientProxy k \<Rightarrow> apsnd ClientProxy (connKit_Write (client_control w G) b k)
      | ServerProxy k \<Rightarrow> apsnd ServerProxy (connKit_Write (server_control w G) b k))"

definition proxy_SetReadDeadline ::
    "nat \<Rightarrow> 'g gbn_conn \<Rightarrow> time \<Rightarrow> time \<Rightarrow> 'g ProxyConn \<Rightarrow> 'g ProxyConn" where
  "proxy_SetReadDeadline w G now t pc =
     (case pc of
        ClientProxy k \<Rightarrow> ClientProxy (SetReadDeadline (client_control w G) now t k)
      | ServerProxy k \<Rightarrow> ServerProxy (SetReadDeadline (server_control w G) now t k))"

text \<open>The messages of a proxy connection over gbn.\<close>

definition p_buf :: "gbn_msgs ProxyConn \<Rightarrow> bytes" where
  "p_buf pc = recvBuffer (proxy_kit pc)"

definition p_in :: "gbn_msgs ProxyConn \<Rightarrow> bytes list" where
  "p_in pc = payloads_in (impl (proxy_kit pc))"

definition p_out :: "gbn_msgs ProxyConn \<Rightarrow> bytes list" where
  "p_out pc = payloads_out (impl (proxy_kit pc))"

lemmas proxy_defs = proxy_Read_def proxy_Write_def p_buf_def p_in_def p_out_def

interpretation mbox: message_conn "proxy_Read 64 queue_gbn" "proxy_Write 64 queue_gbn"
  p_buf p_in p_out "2 ^ 32"
proof
  fix c n assume "p_buf c \<noteq> []"
  then show "\<exists>c'. proxy_Read 64 queue_gbn n c = ((take n (p_buf c), None), c') \<and>
      p_buf c' = drop n (p_buf c) \<and> p_in c' = p_in c \<and> p_out c' = p_out c"
    using ckit.kit.rd_buffered [of "proxy_kit c" n] skit.kit.rd_buffered [of "proxy_kit c" n]
    by (cases c) (auto simp: proxy_defs)
next
  fix c n m ms assume "p_buf c = []" and "p_in c = m # ms" and "m \<noteq> []"
  then show "\<exists>c'. proxy_Read 64 queue_gbn n c = ((take n m, None), c') \<and> p_buf c' = drop n m \<and>
      p_in c' = ms \<and> p_out c' = p_out c"
    using ckit.kit.rd_next [of "proxy_kit c" m ms n] skit.kit.rd_next [of "proxy_kit c" m ms n]
    by (cases c) (auto simp: proxy_defs)
next
  fix c n assume "p_buf c = []" and "p_in c = []"
  then show "\<exists>e c'. proxy_Read 64 queue_gbn n c = (([], Some e), c') \<and> p_buf c' = [] \<and>
      p_in c' = [] \<and> p_out c' = p_out c"
    using ckit.kit.rd_blocked [of "proxy_kit c" n] skit.kit.rd_blocked [of "proxy_kit c" n]
    by (cases c) (auto simp: proxy_defs)
next
  fix b :: bytes and c assume "length b < 2 ^ 32"
  then show "\<exists>c'. proxy_Write 64 queue_gbn b c = ((length b, None), c') \<and>
      p_out c' = p_out c @ [b] \<and> p_in c' = p_in c \<and> p_buf c' = p_buf c"
    using ckit.kit.wr_msg [of b "proxy_kit c"] skit.kit.wr_msg [of b "proxy_kit c"]
    by (cases c) (auto simp: proxy_defs)
qed

subsection \<open>Stream ids\<close>

text \<open>
  \<^verbatim>\<open>GetSID\<close>: the two directions of a session differ in the last bit of their stream id.
  A \<^verbatim>\<open>[64]byte\<close> is a list of 64 bytes.
\<close>

definition GetSID :: "bytes \<Rightarrow> bool \<Rightarrow> bytes" where
  "GetSID sid serverToClient = (if serverToClient then sid else sid[63 := sid ! 63 XOR 1])"

lemma GetSID_involution: "length sid = 64 \<Longrightarrow> GetSID (GetSID sid False) False = sid"
  by (simp add: GetSID_def xor.assoc)

lemma GetSID_distinct: "length sid = 64 \<Longrightarrow> GetSID sid False \<noteq> GetSID sid True"
proof
  assume l: "length sid = 64" and "GetSID sid False = GetSID sid True"
  then have "sid[63 := sid ! 63 XOR 1] ! 63 = sid ! 63" by (simp add: GetSID_def)
  with l have "sid ! 63 XOR 1 = sid ! 63" by simp
  then have "(sid ! 63 XOR sid ! 63) XOR 1 = sid ! 63 XOR sid ! 63" by (metis xor.assoc)
  then show False by simp
qed

end
