(* ===== verification/Mailbox_Transport.thy ===== *)
theory Mailbox_Transport
  imports GBN_Timeout Mailbox_Interface
begin

section \<open>Transports to the mailbox server (mailbox/client\_transport.go)\<close>

text \<open>
  The interface \<^verbatim>\<open>ClientConnTransport\<close> and its two implementations: WebSockets with JSON
  messages, and gRPC streams. The libraries below (the WebSocket package, the JSON marshaler,
  the generated gRPC client) are functions over a state \<open>'w\<close> of the outside world, collected in
  the record \<open>env\<close>, an argument of every definition that uses them.
\<close>

subsection \<open>The outside world\<close>

text \<open>An error: its text, and the gRPC status code if it carries one.\<close>

record rpc_error =
  err_text :: string
  err_code :: "nat option"

datatype ClientStatus =
  ClientStatusNotConnected | ClientStatusSessionNotFound | ClientStatusSessionInUse | ClientStatusConnected

datatype ServerStatus = ServerStatusNotConnected | ServerStatusInUse | ServerStatusIdle

text \<open>Why a loop has to end: the connection was closed, or the context of the call is done.\<close>

datatype stop = StopQuit | StopContext rpc_error

text \<open>
  Streams and sockets are handles. \<open>stopped\<close> is the state of the two channels that the loops
  poll, \<open>sleep\<close> lets time pass, \<open>close_quit_chan\<close> and \<open>cancel_ctx\<close> close the channel of a
  connection and cancel its context, \<open>client_status\<close> and \<open>server_status\<close> are the calls of the
  status callbacks.
\<close>

record 'w env =
  hm_NewCipherBox :: "bytes \<Rightarrow> 'w \<Rightarrow> rpc_error option \<times> 'w"
  hm_DelCipherBox :: "bytes \<Rightarrow> 'w \<Rightarrow> rpc_error option \<times> 'w"
  hm_RecvStream :: "bytes \<Rightarrow> 'w \<Rightarrow> (rpc_error + nat) \<times> 'w"
  hm_SendStream :: "'w \<Rightarrow> (rpc_error + nat) \<times> 'w"
  hm_Recv :: "nat \<Rightarrow> 'w \<Rightarrow> (rpc_error + bytes) \<times> 'w"
  hm_Send :: "nat \<Rightarrow> bytes \<Rightarrow> bytes \<Rightarrow> 'w \<Rightarrow> rpc_error option \<times> 'w"
  hm_CloseSend :: "nat \<Rightarrow> 'w \<Rightarrow> rpc_error option \<times> 'w"
  ws_Dial :: "string \<Rightarrow> 'w \<Rightarrow> (rpc_error + nat) \<times> 'w"
  ws_SetReadLimit :: "nat \<Rightarrow> int \<Rightarrow> 'w \<Rightarrow> 'w"
  ws_Write :: "nat \<Rightarrow> duration \<Rightarrow> string \<Rightarrow> 'w \<Rightarrow> rpc_error option \<times> 'w"
  ws_Read :: "nat \<Rightarrow> 'w \<Rightarrow> (rpc_error + string) \<times> 'w"
  ws_Close :: "nat \<Rightarrow> string \<Rightarrow> 'w \<Rightarrow> rpc_error option \<times> 'w"
  marshal_desc :: "bytes \<Rightarrow> rpc_error + string"
  marshal_box :: "bytes \<Rightarrow> bytes \<Rightarrow> rpc_error + string"
  unmarshal_box :: "string \<Rightarrow> rpc_error + bytes"
  stopped :: "'w \<Rightarrow> stop option"
  sleep :: "duration \<Rightarrow> 'w \<Rightarrow> 'w"
  close_quit_chan :: "'w \<Rightarrow> 'w"
  cancel_ctx :: "'w \<Rightarrow> 'w"
  client_status :: "ClientStatus \<Rightarrow> 'w \<Rightarrow> 'w"
  server_status :: "ServerStatus \<Rightarrow> 'w \<Rightarrow> 'w"

subsection \<open>Texts\<close>

text \<open>\<^verbatim>\<open>strings.Contains\<close>.\<close>

fun strings_Contains :: "string \<Rightarrow> string \<Rightarrow> bool" where
  "strings_Contains [] sub = (sub = [])"
| "strings_Contains (x # xs) sub = (prefix sub (x # xs) \<or> strings_Contains xs sub)"

definition statusFromError :: "rpc_error \<Rightarrow> ClientStatus" where
  "statusFromError err =
     (if strings_Contains (err_text err) ''stream not found'' then ClientStatusSessionNotFound
      else if strings_Contains (err_text err) ''stream occupied'' then ClientStatusSessionInUse
      else ClientStatusNotConnected)"

definition quote :: char where
  "quote = CHR 0x22"

definition newline :: char where
  "newline = CHR 0x0A"

definition wrapper_tag :: "string \<Rightarrow> string" where
  "wrapper_tag name = CHR 0x7B # quote # name @ quote # '':''"

text \<open>
  The regular expression \<^verbatim>\<open>{"name":(.*)}\<close> at the start of \<open>s\<close>: the group reaches to the
  last closing brace of the line, since the match is greedy and the dot does not match a
  newline. The result is the group and what follows the match.
\<close>

definition group_end :: "string \<Rightarrow> nat option" where
  "group_end s =
     (let line = takeWhile (\<lambda>ch. ch \<noteq> newline) s;
          ends = filter (\<lambda>i. line ! i = CHR 0x7D) [0..<length line]
      in if ends = [] then None else Some (last ends))"

definition match_here :: "string \<Rightarrow> string \<Rightarrow> (string \<times> string) option" where
  "match_here name s =
     (if prefix (wrapper_tag name) s then
        let rest = drop (length (wrapper_tag name)) s
        in map_option (\<lambda>i. (take i rest, drop (Suc i) rest)) (group_end rest)
      else None)"

lemma match_here_shorter: "match_here name s = Some (g, r) \<Longrightarrow> length r < length s"
  by (auto simp: match_here_def Let_def wrapper_tag_def prefix_def split: if_splits)

text \<open>\<^verbatim>\<open>MatchString\<close>, and \<^verbatim>\<open>ReplaceAllString\<close> with the group: leftmost matches first.\<close>

fun MatchString :: "string \<Rightarrow> string \<Rightarrow> bool" where
  "MatchString name [] = False"
| "MatchString name (x # xs) = (match_here name (x # xs) \<noteq> None \<or> MatchString name xs)"

function ReplaceAll :: "string \<Rightarrow> string \<Rightarrow> string" where
  "ReplaceAll name [] = []"
| "ReplaceAll name (x # xs) =
     (case match_here name (x # xs) of
        None \<Rightarrow> x # ReplaceAll name xs
      | Some (g, r) \<Rightarrow> g @ ReplaceAll name r)"
  by pat_completeness auto
termination
  by (relation "measure (length \<circ> snd)") (auto dest: match_here_shorter)

definition stripJSONWrapper :: "string \<Rightarrow> rpc_error + string" where
  "stripJSONWrapper wrapped =
     (if MatchString ''result'' wrapped then Inr (ReplaceAll ''result'' wrapped)
      else if MatchString ''error'' wrapped then
        Inl \<lparr>err_text = ReplaceAll ''error'' wrapped, err_code = None\<rparr>
      else Inl \<lparr>err_text = ''unrecognized JSON message: '' @ wrapped, err_code = None\<rparr>)"

text \<open>The gateway wraps each message of a stream in one of two objects on a line of its own.\<close>

lemma group_end_last:
  assumes "newline \<notin> set x"
  shows "group_end (x @ [CHR 0x7D]) = Some (length x)"
proof -
  have "takeWhile (\<lambda>ch. ch \<noteq> newline) (x @ [CHR 0x7D]) = x @ [CHR 0x7D]"
    using assms by (subst takeWhile_eq_all_conv) (auto simp: newline_def)
  then show ?thesis by (simp add: group_end_def Let_def)
qed

lemma match_wrapped:
  assumes "newline \<notin> set x"
  shows "match_here name (wrapper_tag name @ x @ [CHR 0x7D]) = Some (x, [])"
  using group_end_last [OF assms] by (simp add: match_here_def Let_def)

lemma wrapped_Cons: "wrapper_tag name @ y = CHR 0x7B # quote # name @ quote # CHR '':'' # y"
  by (simp add: wrapper_tag_def)

lemma wrapped_match:
  assumes "newline \<notin> set x"
  shows "MatchString name (wrapper_tag name @ x @ [CHR 0x7D])"
    and "ReplaceAll name (wrapper_tag name @ x @ [CHR 0x7D]) = x"
  using match_wrapped [OF assms, of name] by (simp_all add: wrapped_Cons)

lemma strip_result: "newline \<notin> set x \<Longrightarrow> stripJSONWrapper (wrapper_tag ''result'' @ x @ [CHR 0x7D]) = Inr x"
  by (simp add: stripJSONWrapper_def wrapped_match)

lemma strip_error:
  assumes "newline \<notin> set x" and "\<not> MatchString ''result'' (wrapper_tag ''error'' @ x @ [CHR 0x7D])"
  shows "stripJSONWrapper (wrapper_tag ''error'' @ x @ [CHR 0x7D]) = Inl \<lparr>err_text = x, err_code = None\<rparr>"
  using assms by (simp add: stripJSONWrapper_def wrapped_match)


subsection \<open>The WebSocket transport\<close>

record mailboxInfo =
  mi_addr :: string
  mi_recvSID :: bytes
  mi_sendSID :: bytes

record websocketTransport =
  wt_info :: mailboxInfo
  receiveSocket :: "nat option"
  sendSocket :: "nat option"

definition newWebsocketTransport :: "mailboxInfo \<Rightarrow> websocketTransport" where
  "newWebsocketTransport mb = \<lparr>wt_info = mb, receiveSocket = None, sendSocket = None\<rparr>"

definition wt_Refresh :: "websocketTransport \<Rightarrow> websocketTransport" where
  "wt_Refresh wt = \<lparr>wt_info = wt_info wt, receiveSocket = None, sendSocket = None\<rparr>"

definition webSocketRecvLimit :: int where
  "webSocketRecvLimit = 100 * 1024"

definition sendSocketTimeout :: duration where
  "sendSocketTimeout = 1000 * Millisecond"

definition receivePath :: string where
  "receivePath = ''/v1/lightning-node-connect/hashmail/receive''"

definition sendPath :: string where
  "sendPath = ''/v1/lightning-node-connect/hashmail/send''"

definition socket_addr :: "string \<Rightarrow> string \<Rightarrow> string" where
  "socket_addr addr path = ''wss://'' @ addr @ path @ ''?method=POST''"

definition wt_ConnectSend :: "'w env \<Rightarrow> websocketTransport \<Rightarrow> 'w \<Rightarrow> rpc_error option \<times> websocketTransport \<times> 'w" where
  "wt_ConnectSend E wt s =
     (case ws_Dial E (socket_addr (mi_addr (wt_info wt)) sendPath) s of
        (Inl e, s1) \<Rightarrow> (Some e, wt, s1)
      | (Inr sock, s1) \<Rightarrow> (None, wt\<lparr>sendSocket := Some sock\<rparr>, s1))"

definition wt_ConnectReceive :: "'w env \<Rightarrow> websocketTransport \<Rightarrow> 'w \<Rightarrow> rpc_error option \<times> websocketTransport \<times> 'w" where
  "wt_ConnectReceive E wt s =
     (case ws_Dial E (socket_addr (mi_addr (wt_info wt)) receivePath) s of
        (Inl e, s1) \<Rightarrow> (Some e, wt, s1)
      | (Inr sock, s1) \<Rightarrow>
          let s2 = ws_SetReadLimit E sock webSocketRecvLimit s1; wt1 = wt\<lparr>receiveSocket := Some sock\<rparr> in
          (case marshal_desc E (mi_recvSID (wt_info wt)) of
             Inl e \<Rightarrow> (Some \<lparr>err_text = ''error marshaling receive init bytes '' @ err_text e, err_code = None\<rparr>, wt1, s2)
           | Inr b \<Rightarrow>
               (case ws_Write E sock sendSocketTimeout b s2 of (err, s3) \<Rightarrow> (err, wt1, s3))))"

text \<open>
  \<^verbatim>\<open>Recv\<close> and \<^verbatim>\<open>Send\<close> return whether the call may be retried, and a status. The outer
  \<open>None\<close> is the panic on a nil socket.
\<close>

type_synonym recv_result = "(bytes \<times> bool \<times> ClientStatus \<times> rpc_error option)"
type_synonym send_result = "(bool \<times> ClientStatus \<times> rpc_error option)"

definition wt_Recv :: "'w env \<Rightarrow> websocketTransport \<Rightarrow> 'w \<Rightarrow> (recv_result \<times> 'w) option" where
  "wt_Recv E wt s =
     (case receiveSocket wt of
        None \<Rightarrow> None
      | Some sock \<Rightarrow>
          Some (case ws_Read E sock s of
             (Inl e, s1) \<Rightarrow> (([], True, ClientStatusNotConnected, Some e), s1)
           | (Inr msg, s1) \<Rightarrow>
               (case stripJSONWrapper msg of
                  Inl e \<Rightarrow> (([], True, statusFromError e, Some e), s1)
                | Inr unwrapped \<Rightarrow>
                    (case unmarshal_box E unwrapped of
                       Inl e \<Rightarrow> (([], False, ClientStatusNotConnected, Some e), s1)
                     | Inr m \<Rightarrow> ((m, False, ClientStatusConnected, None), s1)))))"

definition wt_Send :: "'w env \<Rightarrow> bytes \<Rightarrow> bytes \<Rightarrow> websocketTransport \<Rightarrow> 'w \<Rightarrow> (send_result \<times> 'w) option" where
  "wt_Send E streamID payload wt s =
     (case marshal_box E streamID payload of
        Inl e \<Rightarrow> Some ((False, ClientStatusNotConnected, Some e), s)
      | Inr b \<Rightarrow>
          (case sendSocket wt of
             None \<Rightarrow> None
           | Some sock \<Rightarrow>
               Some (case ws_Write E sock sendSocketTimeout b s of
                  (Some e, s1) \<Rightarrow> ((True, statusFromError e, Some e), s1)
                | (None, s1) \<Rightarrow> ((False, ClientStatusConnected, None), s1))))"

definition wt_CloseReceive :: "'w env \<Rightarrow> websocketTransport \<Rightarrow> 'w \<Rightarrow> rpc_error option \<times> 'w" where
  "wt_CloseReceive E wt s =
     (case receiveSocket wt of None \<Rightarrow> (None, s) | Some sock \<Rightarrow> ws_Close E sock ''bye'' s)"

definition wt_CloseSend :: "'w env \<Rightarrow> websocketTransport \<Rightarrow> 'w \<Rightarrow> rpc_error option \<times> 'w" where
  "wt_CloseSend E wt s =
     (case sendSocket wt of None \<Rightarrow> (None, s) | Some sock \<Rightarrow> ws_Close E sock ''bye'' s)"

subsection \<open>The gRPC transport\<close>

record grpcTransport =
  gt_info :: mailboxInfo
  gt_receiveStream :: "nat option"
  gt_sendStream :: "nat option"

definition newGrpcTransport :: "mailboxInfo \<Rightarrow> grpcTransport" where
  "newGrpcTransport mb = \<lparr>gt_info = mb, gt_receiveStream = None, gt_sendStream = None\<rparr>"

definition gt_Refresh :: "grpcTransport \<Rightarrow> grpcTransport" where
  "gt_Refresh gt = \<lparr>gt_info = gt_info gt, gt_receiveStream = None, gt_sendStream = None\<rparr>"

definition gt_ConnectSend :: "'w env \<Rightarrow> grpcTransport \<Rightarrow> 'w \<Rightarrow> rpc_error option \<times> grpcTransport \<times> 'w" where
  "gt_ConnectSend E gt s =
     (case hm_SendStream E s of
        (Inl e, s1) \<Rightarrow> (Some e, gt, s1)
      | (Inr h, s1) \<Rightarrow> (None, gt\<lparr>gt_sendStream := Some h\<rparr>, s1))"

definition gt_ConnectReceive :: "'w env \<Rightarrow> grpcTransport \<Rightarrow> 'w \<Rightarrow> rpc_error option \<times> grpcTransport \<times> 'w" where
  "gt_ConnectReceive E gt s =
     (case hm_RecvStream E (mi_recvSID (gt_info gt)) s of
        (Inl e, s1) \<Rightarrow> (Some e, gt, s1)
      | (Inr h, s1) \<Rightarrow> (None, gt\<lparr>gt_receiveStream := Some h\<rparr>, s1))"

definition gt_Recv :: "'w env \<Rightarrow> grpcTransport \<Rightarrow> 'w \<Rightarrow> (recv_result \<times> 'w) option" where
  "gt_Recv E gt s =
     (case gt_receiveStream gt of
        None \<Rightarrow> None
      | Some h \<Rightarrow>
          Some (case hm_Recv E h s of
             (Inl e, s1) \<Rightarrow> (([], True, statusFromError e, Some e), s1)
           | (Inr m, s1) \<Rightarrow> ((m, False, ClientStatusConnected, None), s1)))"

definition gt_Send :: "'w env \<Rightarrow> bytes \<Rightarrow> bytes \<Rightarrow> grpcTransport \<Rightarrow> 'w \<Rightarrow> (send_result \<times> 'w) option" where
  "gt_Send E streamID payload gt s =
     (case gt_sendStream gt of
        None \<Rightarrow> None
      | Some h \<Rightarrow>
          Some (case hm_Send E h streamID payload s of
             (Some e, s1) \<Rightarrow> ((True, ClientStatusNotConnected, Some e), s1)
           | (None, s1) \<Rightarrow> ((False, ClientStatusConnected, None), s1)))"

definition gt_CloseReceive :: "'w env \<Rightarrow> grpcTransport \<Rightarrow> 'w \<Rightarrow> rpc_error option \<times> 'w" where
  "gt_CloseReceive E gt s =
     (case gt_receiveStream gt of None \<Rightarrow> (None, s) | Some h \<Rightarrow> hm_CloseSend E h s)"

definition gt_CloseSend :: "'w env \<Rightarrow> grpcTransport \<Rightarrow> 'w \<Rightarrow> rpc_error option \<times> 'w" where
  "gt_CloseSend E gt s =
     (case gt_sendStream gt of None \<Rightarrow> (None, s) | Some h \<Rightarrow> hm_CloseSend E h s)"

subsection \<open>The interface\<close>

datatype ClientConnTransport = Websocket websocketTransport | Grpc grpcTransport

fun tr_Refresh :: "ClientConnTransport \<Rightarrow> ClientConnTransport" where
  "tr_Refresh (Websocket wt) = Websocket (wt_Refresh wt)"
| "tr_Refresh (Grpc gt) = Grpc (gt_Refresh gt)"

fun ReceiveConnected :: "ClientConnTransport \<Rightarrow> bool" where
  "ReceiveConnected (Websocket wt) = (receiveSocket wt \<noteq> None)"
| "ReceiveConnected (Grpc gt) = (gt_receiveStream gt \<noteq> None)"

fun SendConnected :: "ClientConnTransport \<Rightarrow> bool" where
  "SendConnected (Websocket wt) = (sendSocket wt \<noteq> None)"
| "SendConnected (Grpc gt) = (gt_sendStream gt \<noteq> None)"

fun ConnectReceive :: "'w env \<Rightarrow> ClientConnTransport \<Rightarrow> 'w \<Rightarrow> rpc_error option \<times> ClientConnTransport \<times> 'w" where
  "ConnectReceive E (Websocket wt) s = (case wt_ConnectReceive E wt s of (e, wt', s') \<Rightarrow> (e, Websocket wt', s'))"
| "ConnectReceive E (Grpc gt) s = (case gt_ConnectReceive E gt s of (e, gt', s') \<Rightarrow> (e, Grpc gt', s'))"

fun ConnectSend :: "'w env \<Rightarrow> ClientConnTransport \<Rightarrow> 'w \<Rightarrow> rpc_error option \<times> ClientConnTransport \<times> 'w" where
  "ConnectSend E (Websocket wt) s = (case wt_ConnectSend E wt s of (e, wt', s') \<Rightarrow> (e, Websocket wt', s'))"
| "ConnectSend E (Grpc gt) s = (case gt_ConnectSend E gt s of (e, gt', s') \<Rightarrow> (e, Grpc gt', s'))"

fun tr_Recv :: "'w env \<Rightarrow> ClientConnTransport \<Rightarrow> 'w \<Rightarrow> (recv_result \<times> 'w) option" where
  "tr_Recv E (Websocket wt) = wt_Recv E wt"
| "tr_Recv E (Grpc gt) = gt_Recv E gt"

fun tr_Send :: "'w env \<Rightarrow> bytes \<Rightarrow> bytes \<Rightarrow> ClientConnTransport \<Rightarrow> 'w \<Rightarrow> (send_result \<times> 'w) option" where
  "tr_Send E sid p (Websocket wt) = wt_Send E sid p wt"
| "tr_Send E sid p (Grpc gt) = gt_Send E sid p gt"

fun CloseReceive :: "'w env \<Rightarrow> ClientConnTransport \<Rightarrow> 'w \<Rightarrow> rpc_error option \<times> 'w" where
  "CloseReceive E (Websocket wt) = wt_CloseReceive E wt"
| "CloseReceive E (Grpc gt) = gt_CloseReceive E gt"

fun CloseSend :: "'w env \<Rightarrow> ClientConnTransport \<Rightarrow> 'w \<Rightarrow> rpc_error option \<times> 'w" where
  "CloseSend E (Websocket wt) = wt_CloseSend E wt"
| "CloseSend E (Grpc gt) = gt_CloseSend E gt"

end
