(* ===== verification/Mailbox_Conn.thy ===== *)
theory Mailbox_Conn
  imports Mailbox_Transport GBN_Handshake
begin

section \<open>Mailbox connections (mailbox/client\_conn.go, mailbox/server\_conn.go)\<close>

text \<open>
  \<^verbatim>\<open>ClientConn\<close> and \<^verbatim>\<open>ServerConn\<close>: the functions that gbn calls to send and receive packets
  over the mailbox server, which reconnect and retry until they succeed or have to stop, and the
  life cycle of the connections. A loop that never returns is \<open>None\<close>.
\<close>

subsection \<open>Loops that retry\<close>

text \<open>
  The shape of the four functions that create a mailbox: look whether to stop, wait, try, and
  start again after a failure.
\<close>

partial_function (option) create_mailbox :: "'w env \<Rightarrow> ('c \<Rightarrow> 'w \<Rightarrow> bool \<times> 'c \<times> 'w) \<Rightarrow> BackoffWaiter \<Rightarrow>
    'c \<Rightarrow> 'w \<Rightarrow> ('c \<times> 'w) option" where
  "create_mailbox E attempt bw c s =
     (if stopped E s \<noteq> None then Some (c, s)
      else
        let r = attempt c (sleep E (fst (Wait bw)) s) in
        if fst r then Some (snd r)
        else create_mailbox E attempt (snd (Wait bw)) (fst (snd r)) (snd (snd r)))"

text \<open>
  The outcome of one try of the four functions that transfer a packet, and the loop around
  it: \<open>again\<close> reconnects before the next try. \<open>Closed\<close> is the return of nil values when the
  connection was closed.
\<close>

datatype 'a tried = Done 'a | Fail rpc_error | Retry | Panic

datatype 'a outcome = Returned 'a | Failed rpc_error | Closed | Panicked

partial_function (option) retry_loop :: "'w env \<Rightarrow> ('c \<Rightarrow> 'w \<Rightarrow> 'a tried \<times> 'c \<times> 'w) \<Rightarrow>
    ('c \<Rightarrow> 'w \<Rightarrow> ('c \<times> 'w) option) \<Rightarrow> 'c \<Rightarrow> 'w \<Rightarrow> ('a outcome \<times> 'c \<times> 'w) option" where
  "retry_loop E op again c s =
     (case stopped E s of
        Some StopQuit \<Rightarrow> Some (Closed, c, s)
      | Some (StopContext e) \<Rightarrow> Some (Failed e, c, s)
      | None \<Rightarrow>
          let r = op c s in
          (case fst r of
             Done x \<Rightarrow> Some (Returned x, snd r)
           | Fail e \<Rightarrow> Some (Failed e, snd r)
           | Panic \<Rightarrow> Some (Panicked, snd r)
           | Retry \<Rightarrow>
               Option.bind (again (fst (snd r)) (snd (snd r)))
                 (\<lambda>cs. retry_loop E op again (fst cs) (snd cs))))"

definition retryWait :: duration where
  "retryWait = 2000 * Millisecond"

definition gbnTimeout :: duration where
  "gbnTimeout = 1000 * Millisecond"

subsection \<open>ClientConn\<close>

text \<open>\<open>c_closed\<close> is set once \<^verbatim>\<open>closeOnce\<close> has run.\<close>

record ClientConn =
  c_transport :: ClientConnTransport
  c_receiveSID :: bytes
  c_sendSID :: bytes
  c_serverAddr :: string
  c_gbnConn :: endpoint
  c_status :: ClientStatus
  c_closed :: bool

definition client_setStatus :: "'w env \<Rightarrow> ClientStatus \<Rightarrow> ClientConn \<Rightarrow> 'w \<Rightarrow> ClientConn \<times> 'w" where
  "client_setStatus E st c s =
     (if st = ClientStatusNotConnected \<and>
         (c_status c = ClientStatusSessionInUse \<or> c_status c = ClientStatusSessionNotFound)
      then (c, s)
      else (c\<lparr>c_status := st\<rparr>, client_status E st s))"

definition client_try_ConnectReceive :: "'w env \<Rightarrow> ClientConn \<Rightarrow> 'w \<Rightarrow> bool \<times> ClientConn \<times> 'w" where
  "client_try_ConnectReceive E c s =
     (case ConnectReceive E (c_transport c) s of (err, tr, s') \<Rightarrow> (err = None, c\<lparr>c_transport := tr\<rparr>, s'))"

definition client_createReceiveMailBox :: "'w env \<Rightarrow> duration \<Rightarrow> ClientConn \<Rightarrow> 'w \<Rightarrow> (ClientConn \<times> 'w) option" where
  "client_createReceiveMailBox E initialBackoff =
     create_mailbox E (client_try_ConnectReceive E) (NewBackoffWaiter initialBackoff retryWait retryWait)"

definition client_try_ConnectSend :: "'w env \<Rightarrow> ClientConn \<Rightarrow> 'w \<Rightarrow> bool \<times> ClientConn \<times> 'w" where
  "client_try_ConnectSend E c s =
     (case ConnectSend E (c_transport c) s of (err, tr, s') \<Rightarrow> (err = None, c\<lparr>c_transport := tr\<rparr>, s'))"

definition client_createSendMailBox :: "'w env \<Rightarrow> duration \<Rightarrow> ClientConn \<Rightarrow> 'w \<Rightarrow> (ClientConn \<times> 'w) option" where
  "client_createSendMailBox E initialBackoff =
     create_mailbox E (client_try_ConnectSend E) (NewBackoffWaiter initialBackoff retryWait retryWait)"

definition client_try_recv :: "'w env \<Rightarrow> ClientConn \<Rightarrow> 'w \<Rightarrow> bytes tried \<times> ClientConn \<times> 'w" where
  "client_try_recv E c s =
     (case tr_Recv E (c_transport c) s of
        None \<Rightarrow> (Panic, c, s)
      | Some ((msg, retry, errStatus, Some e), s1) \<Rightarrow>
          if retry then (Retry, client_setStatus E errStatus c s1) else (Fail e, c, s1)
      | Some ((msg, retry, errStatus, None), s1) \<Rightarrow>
          (Done msg, client_setStatus E ClientStatusConnected c s1))"

definition client_recv :: "'w env \<Rightarrow> ClientConn \<Rightarrow> 'w \<Rightarrow> (bytes outcome \<times> ClientConn \<times> 'w) option" where
  "client_recv E c s = do {
     (c1, s1) \<leftarrow> (if ReceiveConnected (c_transport c) then Some (c, s) else client_createReceiveMailBox E 0 c s);
     retry_loop E (client_try_recv E) (client_createReceiveMailBox E retryWait) c1 s1 }"

definition client_try_send :: "'w env \<Rightarrow> bytes \<Rightarrow> ClientConn \<Rightarrow> 'w \<Rightarrow> unit tried \<times> ClientConn \<times> 'w" where
  "client_try_send E payload c s =
     (case tr_Send E (c_sendSID c) payload (c_transport c) s of
        None \<Rightarrow> (Panic, c, s)
      | Some ((retry, errStatus, Some e), s1) \<Rightarrow>
          if retry then (Retry, client_setStatus E errStatus c s1) else (Fail e, c, s1)
      | Some ((retry, errStatus, None), s1) \<Rightarrow> (Done (), c, s1))"

definition client_send :: "'w env \<Rightarrow> bytes \<Rightarrow> ClientConn \<Rightarrow> 'w \<Rightarrow> (unit outcome \<times> ClientConn \<times> 'w) option" where
  "client_send E payload c s = do {
     (c1, s1) \<leftarrow> (if SendConnected (c_transport c) then Some (c, s) else client_createSendMailBox E 0 c s);
     retry_loop E (client_try_send E payload) (client_createSendMailBox E retryWait) c1 s1 }"


subsection \<open>The life of a ClientConn\<close>

definition gbnN :: u8 where
  "gbnN = DefaultN"

definition gbnResendMultiplier :: int where
  "gbnResendMultiplier = 5"

definition gbnTimeoutUpdateFrequency :: int where
  "gbnTimeoutUpdateFrequency = 200"

definition gbnHandshakeTimeout :: duration where
  "gbnHandshakeTimeout = 2000 * Millisecond"

definition gbnClientPingTimeout :: duration where
  "gbnClientPingTimeout = 10 * Second"

definition gbnServerPingTimeout :: duration where
  "gbnServerPingTimeout = 8 * Second"

definition gbnPongTimeout :: duration where
  "gbnPongTimeout = 5 * Second"

definition gbnPongMultiplier :: int where
  "gbnPongMultiplier = 3"

definition gbnBoostPercent :: fl where
  "gbnBoostPercent = (1, - 1)"

lemmas gbn_consts = gbnN_def gbnResendMultiplier_def gbnTimeoutUpdateFrequency_def gbnHandshakeTimeout_def
  gbnClientPingTimeout_def gbnServerPingTimeout_def gbnPongTimeout_def gbnPongMultiplier_def gbnBoostPercent_def

definition timeout_opts :: "duration \<Rightarrow> (TimeoutManager \<Rightarrow> TimeoutManager) list" where
  "timeout_opts ping =
     [WithResendMultiplier gbnResendMultiplier, WithTimeoutUpdateFrequency gbnTimeoutUpdateFrequency,
      WithHandshakeTimeout gbnHandshakeTimeout, WithKeepalivePing ping gbnPongTimeout,
      WithBoostPercent gbnBoostPercent, WithDynamicPongTimeout gbnPongMultiplier ping]"

definition client_gbnOptions :: "(config \<Rightarrow> config) list" where
  "client_gbnOptions = [WithTimeoutOptions (timeout_opts gbnClientPingTimeout), WithOnFIN]"

definition server_gbnOptions :: "(config \<Rightarrow> config) list" where
  "server_gbnOptions = [WithTimeoutOptions (timeout_opts gbnServerPingTimeout)]"

text \<open>\<open>grpc\<close> tells whether a gRPC client is given.\<close>

definition mailbox_NewClientConn :: "bytes \<Rightarrow> string \<Rightarrow> bool \<Rightarrow> gbn_error + ClientConn" where
  "mailbox_NewClientConn sid serverHost grpc =
     (let receiveSID = GetSID sid True; sendSID = GetSID sid False;
          info = \<lparr>mi_addr = serverHost, mi_recvSID = receiveSID, mi_sendSID = sendSID\<rparr>;
          tr = (if grpc then Grpc (newGrpcTransport info) else Websocket (newWebsocketTransport info))
      in case NewClientConn gbnN client_gbnOptions of
           Inl e \<Rightarrow> Inl e
         | Inr g \<Rightarrow> Inr \<lparr>c_transport = tr, c_receiveSID = receiveSID, c_sendSID = sendSID,
             c_serverAddr = serverHost, c_gbnConn = g, c_status = ClientStatusNotConnected, c_closed = False\<rparr>)"

definition RefreshClientConn :: "ClientConn \<Rightarrow> gbn_error + ClientConn" where
  "RefreshClientConn c =
     (case NewClientConn gbnN client_gbnOptions of
        Inl e \<Rightarrow> Inl e
      | Inr g \<Rightarrow> Inr \<lparr>c_transport = tr_Refresh (c_transport c), c_receiveSID = c_receiveSID c,
          c_sendSID = c_sendSID c, c_serverAddr = c_serverAddr c, c_gbnConn = g,
          c_status = ClientStatusNotConnected, c_closed = False\<rparr>)"

text \<open>\<^verbatim>\<open>returnErr\<close> is the last of the errors; \<open>gclose\<close> is \<^verbatim>\<open>gbnConn.Close\<close>.\<close>

definition last_error :: "'e option list \<Rightarrow> 'e option" where
  "last_error es = fold (\<lambda>e acc. if e \<noteq> None then e else acc) es None"

definition ClientConn_Close :: "'w env \<Rightarrow> (endpoint \<Rightarrow> rpc_error option \<times> endpoint) \<Rightarrow> ClientConn \<Rightarrow> 'w \<Rightarrow>
    rpc_error option \<times> ClientConn \<times> 'w" where
  "ClientConn_Close E gclose c s =
     (if c_closed c then (None, c, s)
      else
        let (ge, g) = gclose (c_gbnConn c);
            (re, s1) = CloseReceive E (c_transport c) s;
            (se, s2) = CloseSend E (c_transport c) s1
        in (last_error [ge, re, se], c\<lparr>c_gbnConn := g, c_closed := True\<rparr>, cancel_ctx E (close_quit_chan E s2)))"

subsection \<open>ServerConn\<close>

record ServerConn =
  s_receiveSID :: bytes
  s_sendSID :: bytes
  s_serverAddr :: string
  s_gbnConn :: endpoint
  receiveBoxCreated :: bool
  receiveStream :: "nat option"
  sendBoxCreated :: bool
  sendStream :: "nat option"
  s_status :: ServerStatus
  s_closed :: bool

text \<open>The callback is always given; it is called when the status changes.\<close>

definition server_setStatus :: "'w env \<Rightarrow> ServerStatus \<Rightarrow> ServerConn \<Rightarrow> 'w \<Rightarrow> ServerConn \<times> 'w" where
  "server_setStatus E st c s = (c\<lparr>s_status := st\<rparr>, if s_status c \<noteq> st then server_status E st s else s)"

definition AlreadyExists :: nat where
  "AlreadyExists = 6"

definition isErrAlreadyExists :: "rpc_error \<Rightarrow> bool" where
  "isErrAlreadyExists err = (err_code err = Some AlreadyExists)"

text \<open>A box that exists already is as good as a new one.\<close>

definition box_ready :: "rpc_error option \<Rightarrow> bool" where
  "box_ready err = (case err of None \<Rightarrow> True | Some e \<Rightarrow> isErrAlreadyExists e)"

definition server_try_receive_box :: "'w env \<Rightarrow> ServerConn \<Rightarrow> 'w \<Rightarrow> bool \<times> ServerConn \<times> 'w" where
  "server_try_receive_box E c s =
     (case hm_NewCipherBox E (s_receiveSID c) s of
        (err, s1) \<Rightarrow>
          if \<not> box_ready err then (False, c, s1)
          else
            let c1 = c\<lparr>receiveBoxCreated := True\<rparr> in
            (case hm_RecvStream E (s_receiveSID c) s1 of
               (Inl e, s2) \<Rightarrow> (False, c1, s2)
             | (Inr h, s2) \<Rightarrow>
                 case server_setStatus E ServerStatusIdle c1 s2 of
                   (c2, s3) \<Rightarrow> (True, c2\<lparr>receiveStream := Some h\<rparr>, s3)))"

definition server_createReceiveMailBox :: "'w env \<Rightarrow> duration \<Rightarrow> ServerConn \<Rightarrow> 'w \<Rightarrow> (ServerConn \<times> 'w) option" where
  "server_createReceiveMailBox E initialBackoff =
     create_mailbox E (server_try_receive_box E) (NewBackoffWaiter initialBackoff gbnTimeout retryWait)"

definition server_try_send_box :: "'w env \<Rightarrow> ServerConn \<Rightarrow> 'w \<Rightarrow> bool \<times> ServerConn \<times> 'w" where
  "server_try_send_box E c s =
     (case hm_NewCipherBox E (s_sendSID c) s of
        (err, s1) \<Rightarrow>
          if \<not> box_ready err then (False, c, s1)
          else
            let c1 = c\<lparr>sendBoxCreated := True\<rparr> in
            (case hm_SendStream E s1 of
               (Inl e, s2) \<Rightarrow> (False, c1, s2)
             | (Inr h, s2) \<Rightarrow> (True, c1\<lparr>sendStream := Some h\<rparr>, s2)))"

definition server_createSendMailBox :: "'w env \<Rightarrow> duration \<Rightarrow> ServerConn \<Rightarrow> 'w \<Rightarrow> (ServerConn \<times> 'w) option" where
  "server_createSendMailBox E initialBackoff =
     create_mailbox E (server_try_send_box E) (NewBackoffWaiter initialBackoff gbnTimeout retryWait)"

definition server_try_recv :: "'w env \<Rightarrow> ServerConn \<Rightarrow> 'w \<Rightarrow> bytes tried \<times> ServerConn \<times> 'w" where
  "server_try_recv E c s =
     (case receiveStream c of
        None \<Rightarrow> (Panic, c, s)
      | Some h \<Rightarrow>
          (case hm_Recv E h s of
             (Inl e, s1) \<Rightarrow> (Retry, server_setStatus E ServerStatusNotConnected c s1)
           | (Inr msg, s1) \<Rightarrow> (Done msg, server_setStatus E ServerStatusInUse c s1)))"

definition recvFromStream :: "'w env \<Rightarrow> ServerConn \<Rightarrow> 'w \<Rightarrow> (bytes outcome \<times> ServerConn \<times> 'w) option" where
  "recvFromStream E c s = do {
     (c1, s1) \<leftarrow> (if receiveStream c \<noteq> None then Some (c, s) else server_createReceiveMailBox E 0 c s);
     retry_loop E (server_try_recv E) (server_createReceiveMailBox E retryWait) c1 s1 }"

definition server_try_send :: "'w env \<Rightarrow> bytes \<Rightarrow> ServerConn \<Rightarrow> 'w \<Rightarrow> unit tried \<times> ServerConn \<times> 'w" where
  "server_try_send E payload c s =
     (case sendStream c of
        None \<Rightarrow> (Panic, c, s)
      | Some h \<Rightarrow>
          (case hm_Send E h (s_sendSID c) payload s of
             (Some e, s1) \<Rightarrow> (Retry, server_setStatus E ServerStatusNotConnected c s1)
           | (None, s1) \<Rightarrow> (Done (), c, s1)))"

definition sendToStream :: "'w env \<Rightarrow> bytes \<Rightarrow> ServerConn \<Rightarrow> 'w \<Rightarrow> (unit outcome \<times> ServerConn \<times> 'w) option" where
  "sendToStream E payload c s = do {
     (c1, s1) \<leftarrow> (if sendStream c \<noteq> None then Some (c, s) else server_createSendMailBox E 0 c s);
     retry_loop E (server_try_send E payload) (server_createSendMailBox E retryWait) c1 s1 }"

subsection \<open>The life of a ServerConn\<close>

definition mailbox_NewServerConn :: "bytes \<Rightarrow> string \<Rightarrow> ServerConn" where
  "mailbox_NewServerConn sid serverHost =
     \<lparr>s_receiveSID = GetSID sid False, s_sendSID = GetSID sid True, s_serverAddr = serverHost,
      s_gbnConn = NewServerConn server_gbnOptions, receiveBoxCreated = False, receiveStream = None,
      sendBoxCreated = False, sendStream = None, s_status = ServerStatusNotConnected, s_closed = False\<rparr>"

definition RefreshServerConn :: "ServerConn \<Rightarrow> ServerConn" where
  "RefreshServerConn c =
     \<lparr>s_receiveSID = s_receiveSID c, s_sendSID = s_sendSID c, s_serverAddr = s_serverAddr c,
      s_gbnConn = NewServerConn server_gbnOptions, receiveBoxCreated = receiveBoxCreated c, receiveStream = None,
      sendBoxCreated = sendBoxCreated c, sendStream = None, s_status = ServerStatusNotConnected, s_closed = False\<rparr>"

text \<open>\<^verbatim>\<open>CloseSend\<close> of a stream that may be nil.\<close>

definition close_stream :: "'w env \<Rightarrow> nat option \<Rightarrow> 'w \<Rightarrow> rpc_error option \<times> 'w" where
  "close_stream E h s = (case h of None \<Rightarrow> (None, s) | Some x \<Rightarrow> hm_CloseSend E x s)"

definition ServerConn_Close :: "'w env \<Rightarrow> (endpoint \<Rightarrow> rpc_error option \<times> endpoint) \<Rightarrow> ServerConn \<Rightarrow> 'w \<Rightarrow>
    rpc_error option \<times> ServerConn \<times> 'w" where
  "ServerConn_Close E gclose c s =
     (if s_closed c then (None, c, s)
      else
        let (ge, g) = gclose (s_gbnConn c);
            (re, s1) = close_stream E (receiveStream c) s;
            (se, s2) = close_stream E (sendStream c) s1
        in (last_error [ge, re, se], c\<lparr>s_gbnConn := g, s_closed := True\<rparr>, close_quit_chan E s2))"

definition del_box :: "'w env \<Rightarrow> bool \<Rightarrow> bytes \<Rightarrow> 'w \<Rightarrow> rpc_error option \<times> 'w" where
  "del_box E created sid s = (if created then hm_DelCipherBox E sid s else (None, s))"

definition ServerConn_Stop :: "'w env \<Rightarrow> (endpoint \<Rightarrow> rpc_error option \<times> endpoint) \<Rightarrow> ServerConn \<Rightarrow> 'w \<Rightarrow>
    rpc_error option \<times> ServerConn \<times> 'w" where
  "ServerConn_Stop E gclose c s =
     (let (ce, c1, s1) = ServerConn_Close E gclose c s;
          (re, s2) = del_box E (receiveBoxCreated c1) (s_receiveSID c1) s1;
          (se, s3) = del_box E (sendBoxCreated c1) (s_sendSID c1) s2
      in (last_error [ce, re, se], c1, cancel_ctx E s3))"


subsection \<open>What the loops guarantee\<close>

lemmas create_mailbox_induct = create_mailbox.raw_induct [rotated, consumes 1, case_names step]

lemmas retry_loop_induct = retry_loop.raw_induct [rotated, consumes 1, case_names step]

lemma create_mailbox_cases:
  assumes "create_mailbox E attempt bw c s = Some y"
  shows "stopped E (snd y) \<noteq> None \<or> (\<exists>c0 s0. attempt c0 s0 = (True, y))"
  using assms
proof (induction rule: create_mailbox_induct)
  case (step f E attempt bw c s y)
  show ?case
  proof (cases "stopped E s = None")
    case True
    obtain ok c1 s1 where a: "attempt c (sleep E (fst (Wait bw)) s) = (ok, c1, s1)" by (metis surj_pair)
    show ?thesis
    proof (cases ok)
      case True
      with step(2) a \<open>stopped E s = None\<close> show ?thesis by (auto simp: Let_def)
    next
      case False
      with step(2) a \<open>stopped E s = None\<close> have "f E attempt (snd (Wait bw)) c1 s1 = Some y"
        by (simp add: Let_def)
      then show ?thesis by (rule step(1))
    qed
  qed (use step(2) in auto)
qed

lemma create_mailbox_inv:
  assumes "create_mailbox E attempt bw c s = Some y"
    and "\<And>c s ok c' s'. attempt c s = (ok, c', s') \<Longrightarrow> I c \<Longrightarrow> I c'" and "I c"
  shows "I (fst y)"
  using assms
proof (induction rule: create_mailbox_induct)
  case (step f E attempt bw c s y)
  show ?case
  proof (cases "stopped E s = None")
    case True
    obtain ok c1 s1 where a: "attempt c (sleep E (fst (Wait bw)) s) = (ok, c1, s1)" by (metis surj_pair)
    have I: "I c1" using step(3) [OF a step(4)] .
    show ?thesis
    proof (cases ok)
      case True
      with step(2) a I \<open>stopped E s = None\<close> show ?thesis by (auto simp: Let_def)
    next
      case False
      with step(2) a \<open>stopped E s = None\<close> have "f E attempt (snd (Wait bw)) c1 s1 = Some y"
        by (simp add: Let_def)
      then show ?thesis by (rule step(1)) (use step(3) I in blast)+
    qed
  qed (use step(2,4) in auto)
qed

text \<open>The shape of the four functions that transfer a packet.\<close>

definition transfer :: "'w env \<Rightarrow> ('c \<Rightarrow> 'w \<Rightarrow> bool \<times> 'c \<times> 'w) \<Rightarrow> ('c \<Rightarrow> 'w \<Rightarrow> 'a tried \<times> 'c \<times> 'w) \<Rightarrow>
    ('c \<Rightarrow> bool) \<Rightarrow> BackoffWaiter \<Rightarrow> BackoffWaiter \<Rightarrow> 'c \<Rightarrow> 'w \<Rightarrow> ('a outcome \<times> 'c \<times> 'w) option" where
  "transfer E attempt op ready bw0 bw c s = do {
     (c1, s1) \<leftarrow> (if ready c then Some (c, s) else create_mailbox E attempt bw0 c s);
     retry_loop E op (create_mailbox E attempt bw) c1 s1 }"

text \<open>
  The contract of a function that retries: \<open>attempt\<close> connects, \<open>op\<close> is one try, \<open>ready\<close> tells
  that there is a stream, which \<open>op\<close> dereferences; both keep \<open>inv\<close>.
\<close>

locale retrying =
  fixes attempt :: "'w env \<Rightarrow> 'c \<Rightarrow> 'w \<Rightarrow> bool \<times> 'c \<times> 'w"
    and op :: "'w env \<Rightarrow> 'c \<Rightarrow> 'w \<Rightarrow> 'a tried \<times> 'c \<times> 'w"
    and ready :: "'c \<Rightarrow> bool" and inv :: "'w env \<Rightarrow> 'c \<Rightarrow> bool"
  assumes attempt_ready: "attempt E c s = (True, c', s') \<Longrightarrow> ready c'"
    and attempt_inv: "attempt E c s = (ok, c', s') \<Longrightarrow> inv E c \<Longrightarrow> inv E c'"
    and op_inv: "op E c s = (r, c', s') \<Longrightarrow> inv E c \<Longrightarrow> inv E c'"
    and op_safe: "ready c \<Longrightarrow> fst (op E c s) \<noteq> Panic"
begin

lemma create_ready:
  assumes "create_mailbox E (attempt E) bw c s = Some y"
  shows "ready (fst y) \<or> stopped E (snd y) \<noteq> None"
  using create_mailbox_cases [OF assms] attempt_ready by (metis prod.collapse)

lemma create_inv: "create_mailbox E (attempt E) bw c s = Some y \<Longrightarrow> inv E c \<Longrightarrow> inv E (fst y)"
  by (erule create_mailbox_inv) (use attempt_inv in blast)+

text \<open>No stream is used before it is there, and a result is the result of a try that succeeded.\<close>

lemma loop_sound:
  assumes "retry_loop F p again c s = Some y" and "F = E" and "p = op E"
    and "again = create_mailbox E (attempt E) bw" and "ready c \<or> stopped E s \<noteq> None" and "inv E c"
  shows "fst y \<noteq> Panicked \<and> inv E (fst (snd y)) \<and>
    (\<forall>x. fst y = Returned x \<longrightarrow> (\<exists>c0 s0. inv E c0 \<and> op E c0 s0 = (Done x, snd y))) \<and>
    (\<forall>e. fst y = Failed e \<longrightarrow> stopped E (snd (snd y)) = Some (StopContext e) \<or>
      (\<exists>c0 s0. inv E c0 \<and> op E c0 s0 = (Fail e, snd y))) \<and>
    (fst y = Closed \<longrightarrow> stopped E (snd (snd y)) = Some StopQuit)"
  using assms
proof (induction rule: retry_loop_induct)
  case (step f F p again c s y)
  show ?case
  proof (cases "stopped E s")
    case (Some st)
    with step(2) step.prems(1,5) show ?thesis by (cases st) auto
  next
    case None
    with step.prems(4) have rc: "ready c" by simp
    obtain r c1 s1 where o: "op E c s = (r, c1, s1)" by (metis surj_pair)
    have i: "inv E c1" using op_inv [OF o step.prems(5)] .
    show ?thesis
    proof (cases r)
      case Retry
      obtain c2 s2 where 2: "create_mailbox E (attempt E) bw c1 s1 = Some (c2, s2)"
          "f E (op E) (create_mailbox E (attempt E) bw) c2 s2 = Some y"
        using step(2) step.prems(1-3) None o Retry by (auto simp: Let_def bind_eq_Some_conv)
      show ?thesis
        by (rule step(1) [OF 2(2)]) (use create_ready [OF 2(1)] create_inv [OF 2(1) i] in auto)
    next
      case (Done x)
      have "y = (Returned x, c1, s1)" using step(2) step.prems(1-3) None o Done by (simp add: Let_def)
      with o i Done step.prems(5) show ?thesis by auto
    next
      case (Fail e)
      have "y = (Failed e, c1, s1)" using step(2) step.prems(1-3) None o Fail by (simp add: Let_def)
      with o i Fail step.prems(5) show ?thesis by auto
    qed (use step(2) step.prems(1-3) None o i rc op_safe [of c E s] in \<open>auto simp: Let_def\<close>)
  qed
qed

lemma transfer_sound:
  assumes "transfer E (attempt E) (op E) ready bw0 bw c s = Some (r, c', s')" and "inv E c"
  shows "r \<noteq> Panicked \<and> inv E c' \<and>
    (\<forall>x. r = Returned x \<longrightarrow> (\<exists>c0 s0. inv E c0 \<and> op E c0 s0 = (Done x, c', s'))) \<and>
    (\<forall>e. r = Failed e \<longrightarrow> stopped E s' = Some (StopContext e) \<or>
      (\<exists>c0 s0. inv E c0 \<and> op E c0 s0 = (Fail e, c', s'))) \<and>
    (r = Closed \<longrightarrow> stopped E s' = Some StopQuit)"
proof -
  obtain c1 s1 where 1: "(if ready c then Some (c, s) else create_mailbox E (attempt E) bw0 c s) = Some (c1, s1)"
      "retry_loop E (op E) (create_mailbox E (attempt E) bw) c1 s1 = Some (r, c', s')"
    using assms(1) by (auto simp: transfer_def bind_eq_Some_conv)
  have "ready c1 \<or> stopped E s1 \<noteq> None" "inv E c1"
    using 1(1) create_ready [of E bw0 c s] create_inv [of E bw0 c s] assms(2) by (auto split: if_splits)
  with loop_sound [OF 1(2) refl refl refl] show ?thesis by auto
qed

lemma transfer_Returned:
  assumes "transfer E (attempt E) (op E) ready bw0 bw c s = Some (Returned x, c', s')" and "inv E c"
  obtains c0 s0 where "inv E c0" and "op E c0 s0 = (Done x, c', s')"
  using transfer_sound [OF assms] by blast

lemma transfer_Failed:
  assumes "transfer E (attempt E) (op E) ready bw0 bw c s = Some (Failed e, c', s')" and "inv E c"
  obtains "stopped E s' = Some (StopContext e)"
    | c0 s0 where "inv E c0" and "op E c0 s0 = (Fail e, c', s')"
  using transfer_sound [OF assms] by blast

text \<open>
  The loops end when only finitely many tries fail: \<open>fl\<close> bounds how many can still fail.
\<close>

lemma create_returns:
  assumes "\<And>c s ok c' s'. attempt E c s = (ok, c', s') \<Longrightarrow> fl s' \<le> fl s \<and> (\<not> ok \<longrightarrow> fl s' < (fl s :: nat))"
    and "\<And>d s. fl (sleep E d s) \<le> fl s"
  shows "\<exists>y. create_mailbox E (attempt E) bw c s = Some y \<and> fl (snd y) \<le> fl s"
proof (induction "fl s" arbitrary: bw c s rule: less_induct)
  case less
  obtain ok c1 s1 where a: "attempt E c (sleep E (fst (Wait bw)) s) = (ok, c1, s1)" by (metis surj_pair)
  have le: "fl s1 \<le> fl s" "\<not> ok \<Longrightarrow> fl s1 < fl s"
    using assms(1) [OF a] assms(2) [of "fst (Wait bw)" s] by auto
  show ?case
  proof (cases "stopped E s = None \<and> \<not> ok")
    case True
    then obtain y where "create_mailbox E (attempt E) (snd (Wait bw)) c1 s1 = Some y" "fl (snd y) \<le> fl s1"
      using less [OF le(2), of "snd (Wait bw)" c1] by blast
    with True a le show ?thesis by (subst create_mailbox.simps) (auto simp: Let_def)
  qed (use a le in \<open>auto simp: create_mailbox.simps [of E _ bw c s] Let_def\<close>)
qed

lemma loop_returns:
  assumes att: "\<And>c s ok c' s'. attempt E c s = (ok, c', s') \<Longrightarrow> fl s' \<le> fl s \<and> (\<not> ok \<longrightarrow> fl s' < (fl s :: nat))"
    and sl: "\<And>d s. fl (sleep E d s) \<le> fl s"
    and op: "\<And>c s c' s'. op E c s = (Retry, c', s') \<Longrightarrow> fl s' < fl s"
  shows "\<exists>y. retry_loop E (op E) (create_mailbox E (attempt E) bw) c s = Some y"
proof (induction "fl s" arbitrary: c s rule: less_induct)
  case less
  obtain r c1 s1 where o: "op E c s = (r, c1, s1)" by (metis surj_pair)
  show ?case
  proof (cases "stopped E s = None \<and> r = Retry")
    case True
    obtain c2 s2 where 2: "create_mailbox E (attempt E) bw c1 s1 = Some (c2, s2)" "fl s2 \<le> fl s1"
      using create_returns [of E fl bw c1 s1] att sl by (metis surj_pair snd_conv)
    then have "fl s2 < fl s" using op o True by (metis order.strict_trans1)
    from less [OF this, of c2] 2 o True show ?thesis by (subst retry_loop.simps) (auto simp: Let_def)
  next
    case False
    then show ?thesis
      by (subst retry_loop.simps) (use o in \<open>auto simp: Let_def split: option.splits stop.splits tried.splits\<close>)
  qed
qed

lemma transfer_returns:
  assumes "\<And>c s ok c' s'. attempt E c s = (ok, c', s') \<Longrightarrow> fl s' \<le> fl s \<and> (\<not> ok \<longrightarrow> fl s' < (fl s :: nat))"
    and "\<And>d s. fl (sleep E d s) \<le> fl s"
    and "\<And>c s c' s'. op E c s = (Retry, c', s') \<Longrightarrow> fl s' < fl s"
  shows "\<exists>y. transfer E (attempt E) (op E) ready bw0 bw c s = Some y"
proof -
  obtain c1 s1 where "(if ready c then Some (c, s) else create_mailbox E (attempt E) bw0 c s) = Some (c1, s1)"
    using create_returns [of E fl bw0 c s] assms(1,2) by (metis surj_pair)
  moreover obtain y where "retry_loop E (op E) (create_mailbox E (attempt E) bw) c1 s1 = Some y"
    using loop_returns [of E fl bw c1 s1] assms by blast
  ultimately show ?thesis by (cases y) (simp add: transfer_def)
qed

end


subsection \<open>The contract holds of both connections\<close>

text \<open>
  Where the streams of a connection come from: a receive stream was opened for the connection's
  receive mailbox, a send stream was opened on the server.
\<close>

definition dialled :: "'w env \<Rightarrow> string \<Rightarrow> nat \<Rightarrow> bool" where
  "dialled E addr k \<longleftrightarrow> (\<exists>s s'. ws_Dial E addr s = (Inr k, s'))"

definition recv_opened :: "'w env \<Rightarrow> bytes \<Rightarrow> nat \<Rightarrow> bool" where
  "recv_opened E sid h \<longleftrightarrow> (\<exists>s s'. hm_RecvStream E sid s = (Inr h, s'))"

definition send_opened :: "'w env \<Rightarrow> nat \<Rightarrow> bool" where
  "send_opened E h \<longleftrightarrow> (\<exists>s s'. hm_SendStream E s = (Inr h, s'))"

lemma opened_intros:
  "ws_Dial E addr s = (Inr k, s') \<Longrightarrow> dialled E addr k"
  "hm_RecvStream E sid s = (Inr h, s') \<Longrightarrow> recv_opened E sid h"
  "hm_SendStream E s = (Inr h, s') \<Longrightarrow> send_opened E h"
  unfolding dialled_def recv_opened_def send_opened_def by blast+

fun transport_inv :: "'w env \<Rightarrow> mailboxInfo \<Rightarrow> ClientConnTransport \<Rightarrow> bool" where
  "transport_inv E info (Websocket wt) =
     (wt_info wt = info \<and>
      pred_option (dialled E (socket_addr (mi_addr info) receivePath)) (receiveSocket wt) \<and>
      pred_option (dialled E (socket_addr (mi_addr info) sendPath)) (sendSocket wt))"
| "transport_inv E info (Grpc gt) =
     (gt_info gt = info \<and>
      pred_option (recv_opened E (mi_recvSID info)) (gt_receiveStream gt) \<and>
      pred_option (send_opened E) (gt_sendStream gt))"

definition client_inv :: "mailboxInfo \<Rightarrow> 'w env \<Rightarrow> ClientConn \<Rightarrow> bool" where
  "client_inv info E c \<longleftrightarrow> transport_inv E info (c_transport c) \<and>
     c_receiveSID c = mi_recvSID info \<and> c_sendSID c = mi_sendSID info \<and> c_serverAddr c = mi_addr info"

definition server_inv :: "bytes \<Rightarrow> bytes \<Rightarrow> 'w env \<Rightarrow> ServerConn \<Rightarrow> bool" where
  "server_inv rsid ssid E c \<longleftrightarrow> s_receiveSID c = rsid \<and> s_sendSID c = ssid \<and>
     pred_option (recv_opened E rsid) (receiveStream c) \<and> pred_option (send_opened E) (sendStream c)"

lemma ConnectReceive_inv:
  assumes "ConnectReceive E tr s = (err, tr', s')" and "transport_inv E info tr"
  shows "transport_inv E info tr'"
proof (cases tr)
  case (Websocket wt)
  with assms show ?thesis
    by (auto simp: wt_ConnectReceive_def Let_def opened_intros split: prod.splits sum.splits)
next
  case (Grpc gt)
  with assms show ?thesis
    by (auto simp: gt_ConnectReceive_def opened_intros split: prod.splits sum.splits)
qed

lemma ConnectSend_inv:
  "ConnectSend E tr s = (err, tr', s') \<Longrightarrow> transport_inv E info tr \<Longrightarrow> transport_inv E info tr'"
  by (cases tr)
    (auto simp: wt_ConnectSend_def gt_ConnectSend_def opened_intros split: prod.splits sum.splits)

lemma ConnectReceive_ready: "ConnectReceive E tr s = (None, tr', s') \<Longrightarrow> ReceiveConnected tr'"
  by (cases tr)
    (auto simp: wt_ConnectReceive_def gt_ConnectReceive_def Let_def split: prod.splits sum.splits)

lemma ConnectSend_ready: "ConnectSend E tr s = (None, tr', s') \<Longrightarrow> SendConnected tr'"
  by (cases tr) (auto simp: wt_ConnectSend_def gt_ConnectSend_def split: prod.splits sum.splits)

lemma Recv_ready: "tr_Recv E tr s = None \<Longrightarrow> \<not> ReceiveConnected tr"
  by (cases tr) (auto simp: wt_Recv_def gt_Recv_def split: option.splits)

lemma Send_ready: "tr_Send E sid p tr s = None \<Longrightarrow> \<not> SendConnected tr"
  by (cases tr) (auto simp: wt_Send_def gt_Send_def split: sum.splits option.splits)

lemma client_setStatus_inv:
  "client_setStatus E st c s = (c', s') \<Longrightarrow> client_inv info E c \<Longrightarrow> client_inv info E c'"
  by (auto simp: client_setStatus_def client_inv_def split: if_splits)

lemma server_setStatus_inv:
  "server_setStatus E st c s = (c', s') \<Longrightarrow> server_inv rsid ssid E c \<Longrightarrow> server_inv rsid ssid E c'"
  by (auto simp: server_setStatus_def server_inv_def)

lemma client_try_ConnectReceive_inv:
  "client_try_ConnectReceive E c s = (ok, c', s') \<Longrightarrow> client_inv info E c \<Longrightarrow> client_inv info E c'"
  by (auto simp: client_try_ConnectReceive_def client_inv_def ConnectReceive_inv split: prod.splits)

lemma client_try_ConnectSend_inv:
  "client_try_ConnectSend E c s = (ok, c', s') \<Longrightarrow> client_inv info E c \<Longrightarrow> client_inv info E c'"
  by (auto simp: client_try_ConnectSend_def client_inv_def ConnectSend_inv split: prod.splits)

lemma client_try_recv_inv:
  "client_try_recv E c s = (r, c', s') \<Longrightarrow> client_inv info E c \<Longrightarrow> client_inv info E c'"
  by (auto simp: client_try_recv_def intro: client_setStatus_inv split: option.splits prod.splits if_splits)

lemma client_try_send_inv:
  "client_try_send E p c s = (r, c', s') \<Longrightarrow> client_inv info E c \<Longrightarrow> client_inv info E c'"
  by (auto simp: client_try_send_def intro: client_setStatus_inv split: option.splits prod.splits if_splits)

interpretation client_rx: retrying client_try_ConnectReceive client_try_recv
    "\<lambda>c. ReceiveConnected (c_transport c)" "client_inv info" for info
proof (unfold_locales, goal_cases)
  case (1 E c s c' s')
  then show ?case by (auto simp: client_try_ConnectReceive_def ConnectReceive_ready split: prod.splits)
next
  case (4 c E s)
  then obtain r s' where "tr_Recv E (c_transport c) s = Some (r, s')"
    using Recv_ready [of E "c_transport c" s] by fastforce
  then show ?case by (auto simp: client_try_recv_def split: prod.splits option.splits)
qed (rule client_try_ConnectReceive_inv client_try_recv_inv; assumption)+

interpretation client_tx: retrying client_try_ConnectSend "\<lambda>E. client_try_send E p"
    "\<lambda>c. SendConnected (c_transport c)" "client_inv info" for info p
proof (unfold_locales, goal_cases)
  case (1 E c s c' s')
  then show ?case by (auto simp: client_try_ConnectSend_def ConnectSend_ready split: prod.splits)
next
  case (4 c E s)
  then obtain r s' where "tr_Send E (c_sendSID c) p (c_transport c) s = Some (r, s')"
    using Send_ready [of E "c_sendSID c" p "c_transport c" s] by fastforce
  then show ?case by (auto simp: client_try_send_def split: prod.splits option.splits)
qed (rule client_try_ConnectSend_inv client_try_send_inv; assumption)+

lemma server_try_receive_box_inv:
  "server_try_receive_box E c s = (ok, c', s') \<Longrightarrow> server_inv rsid ssid E c \<Longrightarrow> server_inv rsid ssid E c'"
  by (auto simp: server_try_receive_box_def server_inv_def server_setStatus_def Let_def opened_intros
      split: prod.splits if_splits sum.splits)

lemma server_try_send_box_inv:
  "server_try_send_box E c s = (ok, c', s') \<Longrightarrow> server_inv rsid ssid E c \<Longrightarrow> server_inv rsid ssid E c'"
  by (auto simp: server_try_send_box_def server_inv_def Let_def opened_intros
      split: prod.splits if_splits sum.splits)

lemma server_try_recv_inv:
  "server_try_recv E c s = (r, c', s') \<Longrightarrow> server_inv rsid ssid E c \<Longrightarrow> server_inv rsid ssid E c'"
  by (auto simp: server_try_recv_def intro: server_setStatus_inv split: option.splits prod.splits sum.splits)

lemma server_try_send_inv:
  "server_try_send E p c s = (r, c', s') \<Longrightarrow> server_inv rsid ssid E c \<Longrightarrow> server_inv rsid ssid E c'"
  by (auto simp: server_try_send_def intro: server_setStatus_inv split: option.splits prod.splits)

interpretation server_rx: retrying server_try_receive_box server_try_recv
    "\<lambda>c. receiveStream c \<noteq> None" "server_inv rsid ssid" for rsid ssid
proof (unfold_locales, goal_cases)
  case (1 E c s c' s')
  then show ?case
    by (auto simp: server_try_receive_box_def Let_def split: prod.splits if_splits sum.splits)
next
  case (4 c E s)
  then show ?case by (auto simp: server_try_recv_def split: prod.splits sum.splits)
qed (rule server_try_receive_box_inv server_try_recv_inv; assumption)+

interpretation server_tx: retrying server_try_send_box "\<lambda>E. server_try_send E p"
    "\<lambda>c. sendStream c \<noteq> None" "server_inv rsid ssid" for rsid ssid p
proof (unfold_locales, goal_cases)
  case (1 E c s c' s')
  then show ?case by (auto simp: server_try_send_box_def Let_def split: prod.splits if_splits sum.splits)
next
  case (4 c E s)
  then show ?case by (auto simp: server_try_send_def split: prod.splits option.splits)
qed (rule server_try_send_box_inv server_try_send_inv; assumption)+


subsection \<open>What a transfer guarantees\<close>

text \<open>
  A message that the server delivered on a stream opened for the mailbox, and a payload that
  was handed to the server for the mailbox.
\<close>

definition received_from :: "'w env \<Rightarrow> bytes \<Rightarrow> bytes \<Rightarrow> bool" where
  "received_from E sid m \<longleftrightarrow> (\<exists>h s s'. recv_opened E sid h \<and> hm_Recv E h s = (Inr m, s'))"

definition read_from :: "'w env \<Rightarrow> string \<Rightarrow> bytes \<Rightarrow> bool" where
  "read_from E addr m \<longleftrightarrow> (\<exists>k raw text s s'. dialled E (socket_addr addr receivePath) k \<and>
     ws_Read E k s = (Inr raw, s') \<and> stripJSONWrapper raw = Inr text \<and> unmarshal_box E text = Inr m)"

definition sent_to :: "'w env \<Rightarrow> bytes \<Rightarrow> bytes \<Rightarrow> bool" where
  "sent_to E sid p \<longleftrightarrow> (\<exists>h s s'. send_opened E h \<and> hm_Send E h sid p s = (None, s'))"

definition written_to :: "'w env \<Rightarrow> string \<Rightarrow> bytes \<Rightarrow> bytes \<Rightarrow> bool" where
  "written_to E addr sid p \<longleftrightarrow> (\<exists>k text s s'. dialled E (socket_addr addr sendPath) k \<and>
     marshal_box E sid p = Inr text \<and> ws_Write E k sendSocketTimeout text s = (None, s'))"

lemma tr_Recv_from:
  assumes "transport_inv E info tr" and "tr_Recv E tr s = Some ((m, retry, st, None), s')"
  shows "received_from E (mi_recvSID info) m \<or> read_from E (mi_addr info) m"
proof (cases tr)
  case (Websocket wt)
  then have "read_from E (mi_addr info) m" unfolding read_from_def
    using assms by (auto simp: wt_Recv_def split: option.splits prod.splits sum.splits)
  then show ?thesis by simp
next
  case (Grpc gt)
  then have "received_from E (mi_recvSID info) m" unfolding received_from_def
    using assms by (auto simp: gt_Recv_def split: option.splits prod.splits sum.splits)
  then show ?thesis by simp
qed

lemma tr_Send_to:
  assumes "transport_inv E info tr" and "tr_Send E sid p tr s = Some ((retry, st, None), s')"
  shows "sent_to E sid p \<or> written_to E (mi_addr info) sid p"
proof (cases tr)
  case (Websocket wt)
  then have "written_to E (mi_addr info) sid p" unfolding written_to_def
    using assms by (auto simp: wt_Send_def split: option.splits prod.splits sum.splits)
  then show ?thesis by simp
next
  case (Grpc gt)
  then have "sent_to E sid p" unfolding sent_to_def
    using assms by (auto simp: gt_Send_def split: option.splits prod.splits)
  then show ?thesis by simp
qed

lemma client_recv_transfer:
  "client_recv E c s = transfer E (client_try_ConnectReceive E) (client_try_recv E)
     (\<lambda>c. ReceiveConnected (c_transport c)) (NewBackoffWaiter 0 retryWait retryWait)
     (NewBackoffWaiter retryWait retryWait retryWait) c s"
  by (simp add: client_recv_def transfer_def client_createReceiveMailBox_def)

lemma client_send_transfer:
  "client_send E p c s = transfer E (client_try_ConnectSend E) (client_try_send E p)
     (\<lambda>c. SendConnected (c_transport c)) (NewBackoffWaiter 0 retryWait retryWait)
     (NewBackoffWaiter retryWait retryWait retryWait) c s"
  by (simp add: client_send_def transfer_def client_createSendMailBox_def)

lemma recvFromStream_transfer:
  "recvFromStream E c s = transfer E (server_try_receive_box E) (server_try_recv E)
     (\<lambda>c. receiveStream c \<noteq> None) (NewBackoffWaiter 0 gbnTimeout retryWait)
     (NewBackoffWaiter retryWait gbnTimeout retryWait) c s"
  by (simp add: recvFromStream_def transfer_def server_createReceiveMailBox_def)

lemma sendToStream_transfer:
  "sendToStream E p c s = transfer E (server_try_send_box E) (server_try_send E p)
     (\<lambda>c. sendStream c \<noteq> None) (NewBackoffWaiter 0 gbnTimeout retryWait)
     (NewBackoffWaiter retryWait gbnTimeout retryWait) c s"
  by (simp add: sendToStream_def transfer_def server_createSendMailBox_def)

lemmas as_transfer = client_recv_transfer client_send_transfer recvFromStream_transfer sendToStream_transfer

lemma client_try_recv_Done:
  assumes "client_inv info E c" and "client_try_recv E c s = (Done m, c', s')"
  shows "c_status c' = ClientStatusConnected \<and> (received_from E (mi_recvSID info) m \<or> read_from E (mi_addr info) m)"
proof -
  from assms(2) obtain retry st s1 where "tr_Recv E (c_transport c) s = Some ((m, retry, st, None), s1)"
      and "client_setStatus E ClientStatusConnected c s1 = (c', s')"
    by (auto simp: client_try_recv_def split: option.splits prod.splits if_splits)
  moreover have "transport_inv E info (c_transport c)" using assms(1) by (simp add: client_inv_def)
  ultimately show ?thesis using tr_Recv_from [of E info] by (auto simp: client_setStatus_def)
qed

lemma client_try_send_Done:
  assumes "client_inv info E c" and "client_try_send E p c s = (Done u, c', s')"
  shows "sent_to E (mi_sendSID info) p \<or> written_to E (mi_addr info) (mi_sendSID info) p"
proof -
  from assms(2) obtain retry st s1 where "tr_Send E (c_sendSID c) p (c_transport c) s = Some ((retry, st, None), s1)"
    by (auto simp: client_try_send_def split: option.splits prod.splits if_splits)
  moreover have "transport_inv E info (c_transport c)" "c_sendSID c = mi_sendSID info"
    using assms(1) by (simp_all add: client_inv_def)
  ultimately show ?thesis using tr_Send_to [of E info] by metis
qed

lemma server_try_recv_Done:
  assumes "server_inv rsid ssid E c" and "server_try_recv E c s = (Done m, c', s')"
  shows "s_status c' = ServerStatusInUse \<and> received_from E rsid m"
proof -
  from assms(2) obtain h s1 where "receiveStream c = Some h" "hm_Recv E h s = (Inr m, s1)"
      "server_setStatus E ServerStatusInUse c s1 = (c', s')"
    by (auto simp: server_try_recv_def split: option.splits prod.splits sum.splits)
  with assms(1) show ?thesis by (auto simp: server_inv_def server_setStatus_def received_from_def)
qed

lemma server_try_send_Done:
  assumes "server_inv rsid ssid E c" and "server_try_send E p c s = (Done u, c', s')"
  shows "sent_to E ssid p"
proof -
  from assms(2) obtain h where "sendStream c = Some h" "hm_Send E h (s_sendSID c) p s = (None, s')"
    by (auto simp: server_try_send_def split: option.splits prod.splits)
  with assms(1) show ?thesis by (auto simp: server_inv_def sent_to_def)
qed

end
