(* ===== verification/Mailbox_Transfer.thy ===== *)
theory Mailbox_Transfer
  imports Mailbox_Conn
begin

section \<open>Receiving and sending over the mailbox server\<close>

text \<open>
  What the functions that gbn calls to send and receive packets guarantee, whatever fails in
  between, and that they return once the server stops failing.
\<close>

lemma tr_Recv_final:
  "tr_Recv E tr s = Some ((m, False, st, Some e), s') \<Longrightarrow> \<exists>text. unmarshal_box E text = Inl e"
  by (cases tr) (auto simp: wt_Recv_def gt_Recv_def split: option.splits prod.splits sum.splits)

lemma tr_Send_final:
  "tr_Send E sid p tr s = Some ((False, st, Some e), s') \<Longrightarrow> marshal_box E sid p = Inl e"
  by (cases tr) (auto simp: wt_Send_def gt_Send_def split: option.splits prod.splits sum.splits)

lemma client_try_recv_Fail:
  assumes "client_try_recv E c s = (Fail e, c', s')"
  shows "\<exists>text. unmarshal_box E text = Inl e"
proof -
  from assms obtain m st s1 where "tr_Recv E (c_transport c) s = Some ((m, False, st, Some e), s1)"
    by (auto simp: client_try_recv_def split: option.splits prod.splits if_splits)
  then show ?thesis by (rule tr_Recv_final)
qed

lemma client_try_send_Fail:
  assumes "client_try_send E p c s = (Fail e, c', s')"
  shows "marshal_box E (c_sendSID c) p = Inl e"
proof -
  from assms obtain st s1 where "tr_Send E (c_sendSID c) p (c_transport c) s = Some ((False, st, Some e), s1)"
    by (auto simp: client_try_send_def split: option.splits prod.splits if_splits)
  then show ?thesis by (rule tr_Send_final)
qed

lemma server_try_no_Fail: "fst (server_try_recv E c s) \<noteq> Fail e" "fst (server_try_send E p c s) \<noteq> Fail e"
  by (auto simp: server_try_recv_def server_try_send_def split: option.splits prod.splits sum.splits)

lemma client_inv_new:
  assumes "mailbox_NewClientConn sid host grpc = Inr c"
  shows "client_inv \<lparr>mi_addr = host, mi_recvSID = GetSID sid True, mi_sendSID = GetSID sid False\<rparr> E c"
  using assms by (cases grpc) (auto simp: mailbox_NewClientConn_def Let_def client_inv_def newGrpcTransport_def
      newWebsocketTransport_def split: sum.splits)

lemma client_inv_refresh:
  assumes "client_inv info E c" and "RefreshClientConn c = Inr c'"
  shows "client_inv info E c'"
  using assms by (cases "c_transport c") (auto simp: RefreshClientConn_def client_inv_def gt_Refresh_def
      wt_Refresh_def split: sum.splits)

lemma server_inv_new:
  "server_inv (GetSID sid False) (GetSID sid True) E (mailbox_NewServerConn sid host)"
  by (simp add: server_inv_def mailbox_NewServerConn_def)

lemma server_inv_refresh: "server_inv rsid ssid E c \<Longrightarrow> server_inv rsid ssid E (RefreshServerConn c)"
  by (simp add: server_inv_def RefreshServerConn_def)

lemma client_recv_Returned:
  assumes "client_inv info E c" and "client_recv E c s = Some (Returned m, c', s')"
  shows "c_status c' = ClientStatusConnected \<and> (received_from E (mi_recvSID info) m \<or> read_from E (mi_addr info) m)"
  using assms(2) unfolding as_transfer
  by (rule client_rx.transfer_Returned [OF _ assms(1)]) (rule client_try_recv_Done)

lemma client_recv_Failed:
  assumes "client_inv info E c" and "client_recv E c s = Some (Failed e, c', s')"
  shows "stopped E s' = Some (StopContext e) \<or> (\<exists>text. unmarshal_box E text = Inl e)"
  using assms(2) unfolding as_transfer
  by (rule client_rx.transfer_Failed [OF _ assms(1)]) (auto dest: client_try_recv_Fail)

lemma client_send_Returned:
  assumes "client_inv info E c" and "client_send E p c s = Some (Returned u, c', s')"
  shows "sent_to E (mi_sendSID info) p \<or> written_to E (mi_addr info) (mi_sendSID info) p"
  using assms(2) unfolding as_transfer
  by (rule client_tx.transfer_Returned [OF _ assms(1)]) (rule client_try_send_Done)

lemma client_send_Failed:
  assumes "client_inv info E c" and "client_send E p c s = Some (Failed e, c', s')"
  shows "stopped E s' = Some (StopContext e) \<or> marshal_box E (mi_sendSID info) p = Inl e"
  using assms(2) unfolding as_transfer
  by (rule client_tx.transfer_Failed [OF _ assms(1)]) (auto simp: client_inv_def dest: client_try_send_Fail)

lemma recvFromStream_Returned:
  assumes "server_inv rsid ssid E c" and "recvFromStream E c s = Some (Returned m, c', s')"
  shows "s_status c' = ServerStatusInUse \<and> received_from E rsid m"
  using assms(2) unfolding as_transfer
  by (rule server_rx.transfer_Returned [OF _ assms(1)]) (rule server_try_recv_Done)

lemma sendToStream_Returned:
  assumes "server_inv rsid ssid E c" and "sendToStream E p c s = Some (Returned u, c', s')"
  shows "sent_to E ssid p"
  using assms(2) unfolding as_transfer
  by (rule server_tx.transfer_Returned [OF _ assms(1)]) (rule server_try_send_Done)

lemma recvFromStream_Failed:
  assumes "server_inv rsid ssid E c" and "recvFromStream E c s = Some (Failed e, c', s')"
  shows "stopped E s' = Some (StopContext e)"
  using assms(2) unfolding as_transfer
  by (rule server_rx.transfer_Failed [OF _ assms(1)]) (simp, use server_try_no_Fail(1) [of E] in \<open>metis fst_conv\<close>)

lemma sendToStream_Failed:
  assumes "server_inv rsid ssid E c" and "sendToStream E p c s = Some (Failed e, c', s')"
  shows "stopped E s' = Some (StopContext e)"
  using assms(2) unfolding as_transfer
  by (rule server_tx.transfer_Failed [OF _ assms(1)]) (simp, use server_try_no_Fail(2) [of E p] in \<open>metis fst_conv\<close>)

text \<open>What the four functions share: they keep the invariant, and do not panic.\<close>

lemma client_recv_keeps:
  assumes "client_inv info E c" and "client_recv E c s = Some (r, c', s')"
  shows "r \<noteq> Panicked \<and> client_inv info E c' \<and> (r = Closed \<longrightarrow> stopped E s' = Some StopQuit)"
  using client_rx.transfer_sound [OF assms(2) [unfolded as_transfer] assms(1)] by blast

lemma client_send_keeps:
  assumes "client_inv info E c" and "client_send E p c s = Some (r, c', s')"
  shows "r \<noteq> Panicked \<and> client_inv info E c' \<and> (r = Closed \<longrightarrow> stopped E s' = Some StopQuit)"
  using client_tx.transfer_sound [OF assms(2) [unfolded as_transfer] assms(1)] by blast

lemma recvFromStream_keeps:
  assumes "server_inv rsid ssid E c" and "recvFromStream E c s = Some (r, c', s')"
  shows "r \<noteq> Panicked \<and> server_inv rsid ssid E c' \<and> (r = Closed \<longrightarrow> stopped E s' = Some StopQuit)"
  using server_rx.transfer_sound [OF assms(2) [unfolded as_transfer] assms(1)] by blast

lemma sendToStream_keeps:
  assumes "server_inv rsid ssid E c" and "sendToStream E p c s = Some (r, c', s')"
  shows "r \<noteq> Panicked \<and> server_inv rsid ssid E c' \<and> (r = Closed \<longrightarrow> stopped E s' = Some StopQuit)"
  using server_tx.transfer_sound [OF assms(2) [unfolded as_transfer] assms(1)] by blast

subsection \<open>An example environment\<close>

text \<open>
  A mailbox server that holds the messages \<open>q\<close> and fails the next \<open>n\<close> calls.
\<close>

definition faulty :: "(bytes list \<times> nat \<Rightarrow> 'r) \<Rightarrow> (rpc_error \<Rightarrow> 'r) \<Rightarrow> (bytes list \<times> nat \<Rightarrow> bytes list \<times> nat) \<Rightarrow>
    bytes list \<times> nat \<Rightarrow> 'r \<times> bytes list \<times> nat" where
  "faulty ok bad upd w =
     (if snd w = 0 then (ok w, upd w) else (bad \<lparr>err_text = ''down'', err_code = None\<rparr>, fst w, snd w - 1))"

definition pop :: "bytes list \<times> nat \<Rightarrow> bytes list \<times> nat" where
  "pop w = (drop 1 (fst w), snd w)"

definition push :: "bytes \<Rightarrow> bytes list \<times> nat \<Rightarrow> bytes list \<times> nat" where
  "push p w = (fst w @ [p], snd w)"

definition first :: "bytes list \<times> nat \<Rightarrow> bytes" where
  "first w = (case fst w of [] \<Rightarrow> [] | m # _ \<Rightarrow> m)"

definition example_env :: "(bytes list \<times> nat) env" where
  "example_env = \<lparr>
     hm_NewCipherBox = (\<lambda>sid. faulty (\<lambda>_. None) Some id),
     hm_DelCipherBox = (\<lambda>sid. faulty (\<lambda>_. None) Some id),
     hm_RecvStream = (\<lambda>sid. faulty (\<lambda>_. Inr 1) Inl id),
     hm_SendStream = faulty (\<lambda>_. Inr 2) Inl id,
     hm_Recv = (\<lambda>h. faulty (\<lambda>w. Inr (first w)) Inl pop),
     hm_Send = (\<lambda>h sid p. faulty (\<lambda>_. None) Some (push p)),
     hm_CloseSend = (\<lambda>h. faulty (\<lambda>_. None) Some id),
     ws_Dial = (\<lambda>addr. faulty (\<lambda>_. Inr 3) Inl id),
     ws_SetReadLimit = (\<lambda>k l w. w),
     ws_Write = (\<lambda>k d b. faulty (\<lambda>_. None) Some id),
     ws_Read = (\<lambda>k. faulty (\<lambda>w. Inr (wrapper_tag ''result'' @ [CHR 0x7D])) Inl pop),
     ws_Close = (\<lambda>k r. faulty (\<lambda>_. None) Some id),
     marshal_desc = (\<lambda>sid. Inr []),
     marshal_box = (\<lambda>sid p. Inr []),
     unmarshal_box = (\<lambda>text. Inr []),
     stopped = (\<lambda>w. None),
     sleep = (\<lambda>d w. w),
     close_quit_chan = (\<lambda>w. w),
     cancel_ctx = (\<lambda>w. w),
     client_status = (\<lambda>st w. w),
     server_status = (\<lambda>st w. w)\<rparr>"

definition example_sid :: bytes where
  "example_sid = replicate 64 1"

lemma strip_empty: "stripJSONWrapper (wrapper_tag ''result'' @ [CHR 0x7D]) = Inr []"
  using strip_result [of "[]"] by simp

lemmas example_eval = example_env_def faulty_def pop_def push_def first_def

lemma example_client_recv:
  assumes "c_transport c = Grpc (newGrpcTransport info)"
  shows "\<exists>c'. client_recv example_env c ([[7]], 1) = Some (Returned [7], c', [], 0)"
  using assms
  by (simp add: client_recv_def client_createReceiveMailBox_def create_mailbox.simps retry_loop.simps
      client_try_ConnectReceive_def gt_ConnectReceive_def newGrpcTransport_def client_try_recv_def gt_Recv_def
      client_setStatus_def example_eval)

lemma example_client_send:
  assumes "c_transport c = Grpc (newGrpcTransport info)"
  shows "\<exists>c'. client_send example_env [7] c ([], 1) = Some (Returned (), c', [[7]], 0)"
  using assms
  by (simp add: client_send_def client_createSendMailBox_def create_mailbox.simps retry_loop.simps
      client_try_ConnectSend_def gt_ConnectSend_def newGrpcTransport_def client_try_send_def gt_Send_def
      client_setStatus_def example_eval)

lemma example_server_recv:
  "\<exists>d'. recvFromStream example_env (mailbox_NewServerConn sid host) ([[7]], 1) = Some (Returned [7], d', [], 0)"
  by (simp add: recvFromStream_def server_createReceiveMailBox_def create_mailbox.simps retry_loop.simps
      mailbox_NewServerConn_def server_try_receive_box_def box_ready_def isErrAlreadyExists_def server_setStatus_def
      server_try_recv_def example_eval)

lemma example_server_send:
  "\<exists>d'. sendToStream example_env [7] (mailbox_NewServerConn sid host) ([], 1) = Some (Returned (), d', [[7]], 0)"
  by (simp add: sendToStream_def server_createSendMailBox_def create_mailbox.simps retry_loop.simps
      mailbox_NewServerConn_def server_try_send_box_def box_ready_def isErrAlreadyExists_def
      server_try_send_def example_eval)

lemma new_client_ok:
  "\<exists>c. mailbox_NewClientConn sid host True = Inr c \<and>
     c_transport c = Grpc (newGrpcTransport \<lparr>mi_addr = host, mi_recvSID = GetSID sid True, mi_sendSID = GetSID sid False\<rparr>)"
  by (simp add: mailbox_NewClientConn_def NewClientConn_def gbnN_def DefaultN_def Let_def)



text \<open>
  C10: The two functions through which gbn sends (\<^verbatim>\<open>ClientConn.send\<close>,
  \<^verbatim>\<open>ServerConn.sendToStream\<close>) never use a stream that is not there. When they return without
  an error the payload was accepted by the server for the connection's own send mailbox,
  unless the connection was closed. They fail only with the error of the cancelled context,
  the client also with that of marshalling the payload.
\<close>

theorem mailbox_send_sound:
  assumes "client_inv info E c" and "client_send E p c s = Some (r, c', s')"
    and "server_inv rsid ssid F d" and "sendToStream F p d t = Some (q, d', t')"
  shows "r \<noteq> Panicked \<and> client_inv info E c' \<and>
      (r = Returned () \<longrightarrow> sent_to E (mi_sendSID info) p \<or> written_to E (mi_addr info) (mi_sendSID info) p) \<and>
      (\<forall>e. r = Failed e \<longrightarrow> stopped E s' = Some (StopContext e) \<or> marshal_box E (mi_sendSID info) p = Inl e) \<and>
      (r = Closed \<longrightarrow> stopped E s' = Some StopQuit) \<and>
    q \<noteq> Panicked \<and> server_inv rsid ssid F d' \<and>
      (q = Returned () \<longrightarrow> sent_to F ssid p) \<and>
      (\<forall>e. q = Failed e \<longrightarrow> stopped F t' = Some (StopContext e)) \<and>
      (q = Closed \<longrightarrow> stopped F t' = Some StopQuit)"
proof -
  note C = client_send_keeps [OF assms(1,2)] and S = sendToStream_keeps [OF assms(3,4)]
  have "r = Returned () \<longrightarrow> sent_to E (mi_sendSID info) p \<or> written_to E (mi_addr info) (mi_sendSID info) p"
    using client_send_Returned assms(1,2) by fast
  moreover have "\<forall>e. r = Failed e \<longrightarrow> stopped E s' = Some (StopContext e) \<or> marshal_box E (mi_sendSID info) p = Inl e"
    using client_send_Failed assms(1,2) by fast
  moreover have "q = Returned () \<longrightarrow> sent_to F ssid p"
    using sendToStream_Returned assms(3,4) by fast
  moreover have "\<forall>e. q = Failed e \<longrightarrow> stopped F t' = Some (StopContext e)"
    using sendToStream_Failed assms(3,4) by fast
  ultimately show ?thesis using C S by simp
qed

theorem mailbox_send_sound_witness:
  "\<exists>c c' d'. mailbox_NewClientConn example_sid ''host'' True = Inr c \<and>
     client_send example_env [7] c ([], 1) = Some (Returned (), c', [[7]], 0) \<and>
     (sent_to example_env (GetSID example_sid False) [7] \<or>
      written_to example_env ''host'' (GetSID example_sid False) [7]) \<and>
     sendToStream example_env [7] (mailbox_NewServerConn example_sid ''host'') ([], 1) = Some (Returned (), d', [[7]], 0) \<and>
     sent_to example_env (GetSID example_sid True) [7]"
proof -
  let ?sid = example_sid and ?E = example_env
  obtain c where c: "mailbox_NewClientConn ?sid ''host'' True = Inr c"
      "c_transport c = Grpc (newGrpcTransport \<lparr>mi_addr = ''host'', mi_recvSID = GetSID ?sid True, mi_sendSID = GetSID ?sid False\<rparr>)"
    using new_client_ok by blast
  obtain c' where r: "client_send ?E [7] c ([], 1) = Some (Returned (), c', [[7]], 0)"
    using example_client_send [OF c(2)] by blast
  obtain d' where q: "sendToStream ?E [7] (mailbox_NewServerConn ?sid ''host'') ([], 1) = Some (Returned (), d', [[7]], 0)"
    using example_server_send by blast
  note this = mailbox_send_sound [OF client_inv_new [OF c(1)] r server_inv_new q]
  then have "sent_to ?E (GetSID ?sid False) [7] \<or> written_to ?E ''host'' (GetSID ?sid False) [7]"
      "sent_to ?E (GetSID ?sid True) [7]"
    by simp_all
  with c(1) r q show ?thesis by (intro exI conjI)
qed

subsection \<open>The transfers return\<close>

text \<open>
  \<open>fl\<close> bounds the number of calls that can still fail: a failing call uses one up, no call adds
  any. A stream that exists already is not a failure.
\<close>

definition settles :: "('w \<Rightarrow> nat) \<Rightarrow> 'w \<Rightarrow> bool \<Rightarrow> 'w \<Rightarrow> bool" where
  "settles fl s ok s' \<longleftrightarrow> fl s' \<le> fl s \<and> (\<not> ok \<longrightarrow> fl s' < fl s)"

definition clean_read :: "rpc_error + string \<Rightarrow> bool" where
  "clean_read r = (case r of Inl e \<Rightarrow> False | Inr raw \<Rightarrow> \<not> isl (stripJSONWrapper raw))"

definition bounded_faults :: "('w \<Rightarrow> nat) \<Rightarrow> 'w env \<Rightarrow> bool" where
  "bounded_faults fl E \<longleftrightarrow>
     (\<forall>sid s. settles fl s (box_ready (fst (hm_NewCipherBox E sid s))) (snd (hm_NewCipherBox E sid s))) \<and>
     (\<forall>sid s. settles fl s (\<not> isl (fst (hm_RecvStream E sid s))) (snd (hm_RecvStream E sid s))) \<and>
     (\<forall>s. settles fl s (\<not> isl (fst (hm_SendStream E s))) (snd (hm_SendStream E s))) \<and>
     (\<forall>h s. settles fl s (\<not> isl (fst (hm_Recv E h s))) (snd (hm_Recv E h s))) \<and>
     (\<forall>h sid p s. settles fl s (fst (hm_Send E h sid p s) = None) (snd (hm_Send E h sid p s))) \<and>
     (\<forall>addr s. settles fl s (\<not> isl (fst (ws_Dial E addr s))) (snd (ws_Dial E addr s))) \<and>
     (\<forall>k d text s. settles fl s (fst (ws_Write E k d text s) = None) (snd (ws_Write E k d text s))) \<and>
     (\<forall>k s. settles fl s (clean_read (fst (ws_Read E k s))) (snd (ws_Read E k s))) \<and>
     (\<forall>k l s. settles fl s True (ws_SetReadLimit E k l s)) \<and>
     (\<forall>d s. settles fl s True (sleep E d s)) \<and>
     (\<forall>st s. settles fl s True (client_status E st s)) \<and>
     (\<forall>st s. settles fl s True (server_status E st s)) \<and>
     (\<forall>sid. \<not> isl (marshal_desc E sid))"

lemma bounded_faultsD:
  assumes "bounded_faults fl E"
  shows "hm_NewCipherBox E sid s = (e, s') \<Longrightarrow> settles fl s (box_ready e) s'"
    and "hm_RecvStream E sid s = (r, s') \<Longrightarrow> settles fl s (\<not> isl r) s'"
    and "hm_SendStream E s = (r, s') \<Longrightarrow> settles fl s (\<not> isl r) s'"
    and "hm_Recv E h s = (m, s') \<Longrightarrow> settles fl s (\<not> isl m) s'"
    and "hm_Send E h sid p s = (e, s') \<Longrightarrow> settles fl s (e = None) s'"
    and "ws_Dial E addr s = (r, s') \<Longrightarrow> settles fl s (\<not> isl r) s'"
    and "ws_Write E k d text s = (e, s') \<Longrightarrow> settles fl s (e = None) s'"
    and "ws_Read E k s = (t, s') \<Longrightarrow> settles fl s (clean_read t) s'"
    and "settles fl s True (ws_SetReadLimit E k l s)" and "settles fl s True (sleep E d s)"
    and "settles fl s True (client_status E cst s)" and "settles fl s True (server_status E sst s)"
    and "\<not> isl (marshal_desc E sid)"
  using assms unfolding bounded_faults_def by (metis fst_conv snd_conv)+

lemma settles_trans: "settles fl s True s1 \<Longrightarrow> settles fl s1 ok s2 \<Longrightarrow> settles fl s ok s2"
  by (auto simp: settles_def)

lemma settles_then: "settles fl s ok s1 \<Longrightarrow> settles fl s1 True s2 \<Longrightarrow> settles fl s ok s2"
  by (auto simp: settles_def)

lemma settles_weaken: "settles fl s ok s1 \<Longrightarrow> settles fl s True s1"
  by (auto simp: settles_def)

lemma client_setStatus_settles:
  assumes "bounded_faults fl E" and "client_setStatus E st c s = (c', s')"
  shows "settles fl s True s'"
  using assms(2) bounded_faultsD(11) [OF assms(1)]
  by (auto simp: client_setStatus_def settles_def split: if_splits)

lemma server_setStatus_settles:
  assumes "bounded_faults fl E" and "server_setStatus E st c s = (c', s')"
  shows "settles fl s True s'"
  using assms(2) bounded_faultsD(12) [OF assms(1)] by (auto simp: server_setStatus_def settles_def)

lemma ConnectReceive_settles:
  assumes E: "bounded_faults fl E" and "ConnectReceive E tr s = (err, tr', s')"
  shows "settles fl s (err = None) s'"
proof (cases tr)
  case (Websocket wt)
  obtain r s1 where d: "ws_Dial E (socket_addr (mi_addr (wt_info wt)) receivePath) s = (r, s1)" by fastforce
  note D = bounded_faultsD(6) [OF E d]
  show ?thesis
  proof (cases r)
    case (Inr k)
    let ?s2 = "ws_SetReadLimit E k webSocketRecvLimit s1"
    obtain b where b: "marshal_desc E (mi_recvSID (wt_info wt)) = Inr b"
      using bounded_faultsD(13) [OF E] by (metis isl_def sum.exhaust)
    obtain e s3 where w: "ws_Write E k sendSocketTimeout b ?s2 = (e, s3)" by fastforce
    have "settles fl s True s1" "settles fl s1 True ?s2" "settles fl ?s2 (e = None) s3"
      using D Inr bounded_faultsD(9) [OF E] bounded_faultsD(7) [OF E w] by (simp_all add: settles_weaken)
    then have "settles fl s (e = None) s3" by (meson settles_trans)
    moreover have "err = e" "s' = s3" using assms(2) Websocket d Inr b w
      by (simp_all add: wt_ConnectReceive_def Let_def)
    ultimately show ?thesis by simp
  qed (use assms(2) Websocket d D in \<open>auto simp: wt_ConnectReceive_def\<close>)
next
  case (Grpc gt)
  obtain r s1 where d: "hm_RecvStream E (mi_recvSID (gt_info gt)) s = (r, s1)" by fastforce
  show ?thesis
    by (cases r) (use assms(2) Grpc d bounded_faultsD(2) [OF E d] in \<open>auto simp: gt_ConnectReceive_def\<close>)
qed

lemma ConnectSend_settles:
  assumes E: "bounded_faults fl E" and "ConnectSend E tr s = (err, tr', s')"
  shows "settles fl s (err = None) s'"
proof (cases tr)
  case (Websocket wt)
  obtain r s1 where d: "ws_Dial E (socket_addr (mi_addr (wt_info wt)) sendPath) s = (r, s1)" by fastforce
  show ?thesis
    by (cases r) (use assms(2) Websocket d bounded_faultsD(6) [OF E d] in \<open>auto simp: wt_ConnectSend_def\<close>)
next
  case (Grpc gt)
  obtain r s1 where d: "hm_SendStream E s = (r, s1)" by fastforce
  show ?thesis
    by (cases r) (use assms(2) Grpc d bounded_faultsD(3) [OF E d] in \<open>auto simp: gt_ConnectSend_def\<close>)
qed

lemma tr_Recv_settles:
  assumes E: "bounded_faults fl E" and "tr_Recv E tr s = Some ((m, True, st, err), s')"
  shows "fl s' < fl s"
proof (cases tr)
  case (Websocket wt)
  with assms(2) obtain k t where "ws_Read E k s = (t, s')" "\<not> clean_read t"
    by (auto simp: wt_Recv_def clean_read_def split: option.splits prod.splits sum.splits)
  from bounded_faultsD(8) [OF E this(1)] this(2) show ?thesis by (simp add: settles_def)
next
  case (Grpc gt)
  with assms(2) obtain h e where "hm_Recv E h s = (Inl e, s')"
    by (auto simp: gt_Recv_def split: option.splits prod.splits sum.splits)
  from bounded_faultsD(4) [OF E this] show ?thesis by (simp add: settles_def)
qed

lemma tr_Send_settles:
  assumes E: "bounded_faults fl E" and "tr_Send E sid p tr s = Some ((True, st, err), s')"
  shows "fl s' < fl s"
proof (cases tr)
  case (Websocket wt)
  with assms(2) obtain k b e where "ws_Write E k sendSocketTimeout b s = (Some e, s')"
    by (auto simp: wt_Send_def split: option.splits prod.splits sum.splits)
  from bounded_faultsD(7) [OF E this] show ?thesis by (simp add: settles_def)
next
  case (Grpc gt)
  with assms(2) obtain h e where "hm_Send E h sid p s = (Some e, s')"
    by (auto simp: gt_Send_def split: option.splits prod.splits)
  from bounded_faultsD(5) [OF E this] show ?thesis by (simp add: settles_def)
qed

lemma client_attempt_settles:
  assumes "bounded_faults fl E"
  shows "client_try_ConnectReceive E c s = (ok, c', s') \<Longrightarrow> settles fl s ok s'"
    and "client_try_ConnectSend E c s = (ok, c', s') \<Longrightarrow> settles fl s ok s'"
  by (auto simp: client_try_ConnectReceive_def client_try_ConnectSend_def split: prod.splits
      dest!: ConnectReceive_settles [OF assms] ConnectSend_settles [OF assms])

lemma client_op_settles:
  assumes "bounded_faults fl E"
  shows "client_try_recv E c s = (Retry, c', s') \<Longrightarrow> fl s' < fl s"
    and "client_try_send E p c s = (Retry, c', s') \<Longrightarrow> fl s' < fl s"
proof -
  assume "client_try_recv E c s = (Retry, c', s')"
  then obtain m st e s1 where "tr_Recv E (c_transport c) s = Some ((m, True, st, e), s1)"
      "client_setStatus E st c s1 = (c', s')"
    by (auto simp: client_try_recv_def split: option.splits prod.splits if_splits)
  then show "fl s' < fl s"
    using tr_Recv_settles [OF assms] client_setStatus_settles [OF assms] by (fastforce simp: settles_def)
next
  assume "client_try_send E p c s = (Retry, c', s')"
  then obtain st e s1 where "tr_Send E (c_sendSID c) p (c_transport c) s = Some ((True, st, e), s1)"
      "client_setStatus E st c s1 = (c', s')"
    by (auto simp: client_try_send_def split: option.splits prod.splits if_splits)
  then show "fl s' < fl s"
    using tr_Send_settles [OF assms] client_setStatus_settles [OF assms] by (fastforce simp: settles_def)
qed

lemma server_attempt_settles:
  assumes E: "bounded_faults fl E"
  shows "server_try_receive_box E c s = (ok, c', s') \<Longrightarrow> settles fl s ok s'"
    and "server_try_send_box E c s = (ok, c', s') \<Longrightarrow> settles fl s ok s'"
proof -
  assume a: "server_try_receive_box E c s = (ok, c', s')"
  obtain e s1 where n: "hm_NewCipherBox E (s_receiveSID c) s = (e, s1)" by fastforce
  obtain r s2 where d: "hm_RecvStream E (s_receiveSID c) s1 = (r, s2)" by fastforce
  note N = bounded_faultsD(1) [OF E n] and D = bounded_faultsD(2) [OF E d]
  show "settles fl s ok s'"
  proof (cases "box_ready e")
    case True
    have 2: "settles fl s (\<not> isl r) s2" by (rule settles_trans [OF _ D]) (use N True in simp)
    show ?thesis
    proof (cases r)
      case (Inr h)
      let ?c1 = "c\<lparr>receiveBoxCreated := True\<rparr>"
      obtain c2 s3 where st: "server_setStatus E ServerStatusIdle ?c1 s2 = (c2, s3)" by fastforce
      have "settles fl s2 True s3" by (rule server_setStatus_settles [OF E st])
      then have "settles fl s True s3" by (rule settles_then [rotated]) (use 2 Inr in simp)
      with a n d True Inr st show ?thesis by (auto simp: server_try_receive_box_def Let_def)
    qed (use a n d True 2 in \<open>auto simp: server_try_receive_box_def Let_def\<close>)
  qed (use a n N in \<open>auto simp: server_try_receive_box_def\<close>)
next
  assume a: "server_try_send_box E c s = (ok, c', s')"
  obtain e s1 where n: "hm_NewCipherBox E (s_sendSID c) s = (e, s1)" by fastforce
  obtain r s2 where d: "hm_SendStream E s1 = (r, s2)" by fastforce
  note N = bounded_faultsD(1) [OF E n] and D = bounded_faultsD(3) [OF E d]
  show "settles fl s ok s'"
  proof (cases "box_ready e")
    case True
    have 2: "settles fl s (\<not> isl r) s2" by (rule settles_trans [OF _ D]) (use N True in simp)
    show ?thesis
      by (cases r) (use a n d True 2 in \<open>auto simp: server_try_send_box_def Let_def\<close>)
  qed (use a n N in \<open>auto simp: server_try_send_box_def\<close>)
qed

lemma server_op_settles:
  assumes E: "bounded_faults fl E"
  shows "server_try_recv E c s = (Retry, c', s') \<Longrightarrow> fl s' < fl s"
    and "server_try_send E p c s = (Retry, c', s') \<Longrightarrow> fl s' < fl s"
proof -
  assume "server_try_recv E c s = (Retry, c', s')"
  then obtain h e s1 where "hm_Recv E h s = (Inl e, s1)" "server_setStatus E ServerStatusNotConnected c s1 = (c', s')"
    by (auto simp: server_try_recv_def split: option.splits prod.splits sum.splits)
  then show "fl s' < fl s"
    using bounded_faultsD(4) [OF E] server_setStatus_settles [OF E] by (fastforce simp: settles_def)
next
  assume "server_try_send E p c s = (Retry, c', s')"
  then obtain h e s1 where "hm_Send E h (s_sendSID c) p s = (Some e, s1)"
      "server_setStatus E ServerStatusNotConnected c s1 = (c', s')"
    by (auto simp: server_try_send_def split: option.splits prod.splits)
  then show "fl s' < fl s"
    using bounded_faultsD(5) [OF E] server_setStatus_settles [OF E] by (fastforce simp: settles_def)
qed

lemma sleep_settles: "bounded_faults fl E \<Longrightarrow> fl (sleep E d s) \<le> fl s"
  using bounded_faultsD(10) [of fl E s d] by (simp add: settles_def)

text \<open>
  C12: The loops of the connections end. When only finitely many of the calls to the mailbox
  server fail, each of the four functions that gbn uses to receive and to send returns, in
  whatever state the connection and the world are when it is called.
\<close>

theorem mailbox_transfers_return:
  assumes "bounded_faults fl E"
  shows "(\<exists>r c' s'. client_recv E c s = Some (r, c', s')) \<and>
    (\<exists>r c' s'. client_send E p c s = Some (r, c', s')) \<and>
    (\<exists>r d' s'. recvFromStream E d s = Some (r, d', s')) \<and>
    (\<exists>r d' s'. sendToStream E p d s = Some (r, d', s'))"
proof -
  have "\<exists>y. client_recv E c s = Some y" unfolding as_transfer
    by (rule client_rx.transfer_returns [where fl = fl], erule client_attempt_settles(1) [OF assms, unfolded settles_def],
      rule sleep_settles [OF assms], erule client_op_settles(1) [OF assms])
  moreover have "\<exists>y. client_send E p c s = Some y" unfolding as_transfer
    by (rule client_tx.transfer_returns [where fl = fl], erule client_attempt_settles(2) [OF assms, unfolded settles_def],
      rule sleep_settles [OF assms], erule client_op_settles(2) [OF assms])
  moreover have "\<exists>y. recvFromStream E d s = Some y" unfolding as_transfer
    by (rule server_rx.transfer_returns [where fl = fl], erule server_attempt_settles(1) [OF assms, unfolded settles_def],
      rule sleep_settles [OF assms], erule server_op_settles(1) [OF assms])
  moreover have "\<exists>y. sendToStream E p d s = Some y" unfolding as_transfer
    by (rule server_tx.transfer_returns [where fl = fl], erule server_attempt_settles(2) [OF assms, unfolded settles_def],
      rule sleep_settles [OF assms], erule server_op_settles(2) [OF assms])
  ultimately show ?thesis by simp
qed

lemma example_bounded_faults: "bounded_faults snd example_env"
  by (simp add: bounded_faults_def settles_def clean_read_def box_ready_def isErrAlreadyExists_def example_env_def
      faulty_def pop_def push_def strip_empty)

theorem mailbox_transfers_return_witness:
  "bounded_faults snd example_env \<and>
   (\<exists>r d' s'. recvFromStream example_env (mailbox_NewServerConn example_sid ''host'') ([[7]], 5) = Some (r, d', s'))"
  using mailbox_transfers_return [OF example_bounded_faults] example_bounded_faults by blast

end
