(* ===== verification/Noise_Cipher.thy ===== *)
theory Noise_Cipher
  imports Go_IO
begin

section \<open>Cipher states (mailbox/noise.go)\<close>

text \<open>
  The cryptographic primitives come from other packages (ChaCha20-Poly1305, HKDF and SHA-256,
  secp256k1). They are the fields of the record \<open>prims\<close>, an argument of every definition
  that uses them; \<open>prims_ok\<close> collects what the code relies on. On top of them
  \<^verbatim>\<open>cipherState\<close>: a key with a counter nonce that is rotated every 1000 messages.
\<close>

subsection \<open>Primitives\<close>

text \<open>
  \<open>'sk\<close> are private keys behind \<^verbatim>\<open>keychain.SingleKeyECDH\<close>, \<open>'pk\<close> are points.
  \<^item> \<open>hkdf secret salt\<close>: the first two reads of 32 bytes from \<^verbatim>\<open>hkdf.New(sha256.New, \<dots>)\<close> with
    an empty info;
  \<^item> \<open>aead_seal key nonce ad plaintext\<close> and \<open>aead_open\<close>: \<^verbatim>\<open>cipher.AEAD\<close> of
    \<^verbatim>\<open>chacha20poly1305\<close>; \<open>None\<close> is a failed authentication;
  \<^item> \<open>ec_dh\<close>: \<^verbatim>\<open>SingleKeyECDH.ECDH\<close>, \<open>None\<close> an error; \<open>pk_ser\<close>, \<open>pk_parse\<close>:
    \<^verbatim>\<open>SerializeCompressed\<close> and \<^verbatim>\<open>btcec.ParsePubKey\<close>;
  \<^item> \<open>ec_add\<close>, \<open>ec_neg\<close>, \<open>ec_mul\<close>: the group operations that the masking uses; the scalar is
    given by its bytes; \<open>ec_N\<close> is the point N;
  \<^item> \<open>sha512\<close>: \<^verbatim>\<open>sha512.Sum512\<close>; \<open>scrypt_key password salt\<close>: \<^verbatim>\<open>scrypt.Key\<close> with the
    parameters of \<^verbatim>\<open>crypto.go\<close>, \<open>None\<close> an error.
\<close>

record ('sk, 'pk) prims =
  sha256 :: "bytes \<Rightarrow> bytes"
  hkdf :: "bytes \<Rightarrow> bytes \<Rightarrow> bytes \<times> bytes"
  aead_seal :: "bytes \<Rightarrow> bytes \<Rightarrow> bytes \<Rightarrow> bytes \<Rightarrow> bytes"
  aead_open :: "bytes \<Rightarrow> bytes \<Rightarrow> bytes \<Rightarrow> bytes \<Rightarrow> bytes option"
  ec_pub :: "'sk \<Rightarrow> 'pk"
  ec_dh :: "'sk \<Rightarrow> 'pk \<Rightarrow> bytes option"
  pk_ser :: "'pk \<Rightarrow> bytes"
  pk_parse :: "bytes \<Rightarrow> 'pk option"
  ec_add :: "'pk \<Rightarrow> 'pk \<Rightarrow> 'pk"
  ec_neg :: "'pk \<Rightarrow> 'pk"
  ec_mul :: "bytes \<Rightarrow> 'pk \<Rightarrow> 'pk"
  ec_N :: 'pk
  sha512 :: "bytes \<Rightarrow> bytes"
  scrypt_key :: "bytes \<Rightarrow> bytes \<Rightarrow> bytes option"

definition macSize :: nat where
  "macSize = 16"

text \<open>
  What the code relies on: opening undoes sealing, a tag has 16 bytes, keys agree under
  Diffie-Hellman, a compressed point has 33 bytes and parses, subtracting a point undoes
  adding it, a SHA-512 digest has 64 bytes.
\<close>

definition prims_ok :: "('sk, 'pk) prims \<Rightarrow> bool" where
  "prims_ok P \<longleftrightarrow>
     (\<forall>k n ad m. aead_open P k n ad (aead_seal P k n ad m) = Some m) \<and>
     (\<forall>k n ad m. length (aead_seal P k n ad m) = length m + macSize) \<and>
     (\<forall>a b. ec_dh P a (ec_pub P b) = ec_dh P b (ec_pub P a) \<and> ec_dh P a (ec_pub P b) \<noteq> None) \<and>
     (\<forall>p. pk_parse P (pk_ser P p) = Some p \<and> length (pk_ser P p) = 33) \<and>
     (\<forall>p q. ec_add P (ec_add P p q) (ec_neg P q) = p) \<and>
     (\<forall>m. length (sha512 P m) = 64)"

lemma prims_okD:
  assumes "prims_ok P"
  shows "aead_open P k n ad (aead_seal P k n ad m) = Some m"
    and "length (aead_seal P k n ad m) = length m + macSize"
    and "ec_dh P a (ec_pub P b) = ec_dh P b (ec_pub P a)"
    and "\<exists>z. ec_dh P a (ec_pub P b) = Some z"
    and "pk_parse P (pk_ser P p) = Some p" and "length (pk_ser P p) = 33"
    and "ec_add P (ec_add P p q) (ec_neg P q) = p" and "length (sha512 P d) = 64"
  using assms unfolding prims_ok_def by (blast, blast, blast, fast, blast, blast, blast, blast)

subsection \<open>cipherState\<close>

definition keyRotationInterval :: u64 where
  "keyRotationInterval = 1000"

text \<open>
  \<^verbatim>\<open>cipher\<close> is nil before the first key is set and else an AEAD instance, represented by
  its key.
\<close>

record cipherState =
  cs_nonce :: u64
  secretKey :: bytes
  cs_salt :: bytes
  cs_cipher :: "bytes option"

definition zero32 :: bytes where
  "zero32 = replicate 32 0"

text \<open>The Go zero value \<^verbatim>\<open>cipherState{}\<close>.\<close>

definition empty_cipherState :: cipherState where
  "empty_cipherState = \<lparr>cs_nonce = 0, secretKey = zero32, cs_salt = zero32, cs_cipher = None\<rparr>"

definition InitializeKey :: "bytes \<Rightarrow> 'a cipherState_scheme \<Rightarrow> 'a cipherState_scheme" where
  "InitializeKey key c = c\<lparr>secretKey := key, cs_nonce := 0, cs_cipher := Some key\<rparr>"

definition InitializeKeyWithSalt ::
    "bytes \<Rightarrow> bytes \<Rightarrow> 'a cipherState_scheme \<Rightarrow> 'a cipherState_scheme" where
  "InitializeKeyWithSalt slt key c = InitializeKey key (c\<lparr>cs_salt := slt\<rparr>)"

definition rotateKey :: "('sk, 'pk) prims \<Rightarrow> 'a cipherState_scheme \<Rightarrow> 'a cipherState_scheme" where
  "rotateKey P c =
     (let (slt, nextKey) = hkdf P (secretKey c) (cs_salt c)
      in InitializeKey nextKey (c\<lparr>cs_salt := slt\<rparr>))"

text \<open>\<^verbatim>\<open>binary.LittleEndian.PutUint64\<close> into the last 8 of 12 bytes.\<close>

definition put_u64_le :: "u64 \<Rightarrow> bytes" where
  "put_u64_le x = map (\<lambda>i. ucast (drop_bit (8 * i) x)) [0..<8]"

definition nonce_bytes :: "u64 \<Rightarrow> bytes" where
  "nonce_bytes n = replicate 4 0 @ put_u64_le n"

text \<open>The deferred function of \<^verbatim>\<open>Encrypt\<close> and \<^verbatim>\<open>Decrypt\<close>; it runs also after a failure.\<close>

definition bump :: "('sk, 'pk) prims \<Rightarrow> 'a cipherState_scheme \<Rightarrow> 'a cipherState_scheme" where
  "bump P c =
     (let c' = c\<lparr>cs_nonce := cs_nonce c + 1\<rparr>
      in if cs_nonce c' = keyRotationInterval then rotateKey P c' else c')"

text \<open>\<open>None\<close> is the panic on a nil cipher.\<close>

definition Encrypt :: "('sk, 'pk) prims \<Rightarrow> bytes \<Rightarrow> bytes \<Rightarrow> 'a cipherState_scheme \<Rightarrow>
    (bytes \<times> 'a cipherState_scheme) option" where
  "Encrypt P ad plainText c =
     (case cs_cipher c of
        None \<Rightarrow> None
      | Some k \<Rightarrow> Some (aead_seal P k (nonce_bytes (cs_nonce c)) ad plainText, bump P c))"

definition Decrypt :: "('sk, 'pk) prims \<Rightarrow> bytes \<Rightarrow> bytes \<Rightarrow> 'a cipherState_scheme \<Rightarrow>
    (bytes option \<times> 'a cipherState_scheme) option" where
  "Decrypt P ad cipherText c =
     (case cs_cipher c of
        None \<Rightarrow> None
      | Some k \<Rightarrow> Some (aead_open P k (nonce_bytes (cs_nonce c)) ad cipherText, bump P c))"

lemmas cipher_ops = InitializeKey_def InitializeKeyWithSalt_def rotateKey_def bump_def
  Encrypt_def Decrypt_def

subsection \<open>Lock step\<close>

text \<open>Two parties with equal states: what one encrypts the other decrypts, and they stay equal.\<close>

lemma Decrypt_Encrypt:
  assumes "prims_ok P" and "Encrypt P ad m c = Some (ct, c')"
  shows "Decrypt P ad ct c = Some (Some m, c')"
  using assms(2) prims_okD(1) [OF assms(1)]
  by (auto simp: Encrypt_def Decrypt_def split: option.splits)

text \<open>A run of messages with their associated data.\<close>

fun encrypt_all :: "('sk, 'pk) prims \<Rightarrow> (bytes \<times> bytes) list \<Rightarrow> cipherState \<Rightarrow>
    (bytes list \<times> cipherState) option" where
  "encrypt_all P [] c = Some ([], c)"
| "encrypt_all P ((ad, m) # ms) c =
     do { (ct, c1) \<leftarrow> Encrypt P ad m c;
          (cts, c2) \<leftarrow> encrypt_all P ms c1;
          Some (ct # cts, c2) }"

fun decrypt_all :: "('sk, 'pk) prims \<Rightarrow> (bytes \<times> bytes) list \<Rightarrow> cipherState \<Rightarrow>
    (bytes option list \<times> cipherState) option" where
  "decrypt_all P [] c = Some ([], c)"
| "decrypt_all P ((ad, ct) # cts) c =
     do { (m, c1) \<leftarrow> Decrypt P ad ct c;
          (ms, c2) \<leftarrow> decrypt_all P cts c1;
          Some (m # ms, c2) }"

text \<open>The invariant of a keyed state.\<close>

definition cipher_inv :: "'a cipherState_scheme \<Rightarrow> bool" where
  "cipher_inv c \<longleftrightarrow> cs_cipher c = Some (secretKey c) \<and> cs_nonce c < keyRotationInterval"

lemma InitializeKey_inv [simp]: "cipher_inv (InitializeKey k c)"
  by (simp add: cipher_inv_def InitializeKey_def keyRotationInterval_def)

lemma bump_inv:
  assumes "cipher_inv c"
  shows "cipher_inv (bump P c)"
proof (cases "cs_nonce c + 1 = keyRotationInterval")
  case True
  then show ?thesis by (simp add: bump_def rotateKey_def split: prod.split)
next
  case False
  have "cs_nonce c < keyRotationInterval" using assms by (simp add: cipher_inv_def)
  then have "unat (cs_nonce c) < 1000" by (simp add: keyRotationInterval_def word_less_nat_alt)
  then have u: "unat (cs_nonce c + 1) = unat (cs_nonce c) + 1"
    by (simp add: unat_word_ariths)
  with False have "unat (cs_nonce c) + 1 \<noteq> 1000"
    by (auto simp: keyRotationInterval_def word_unat_eq_iff)
  with u \<open>unat (cs_nonce c) < 1000\<close> have "cs_nonce c + 1 < keyRotationInterval"
    by (simp add: keyRotationInterval_def word_less_nat_alt)
  with False assms show ?thesis by (simp add: bump_def cipher_inv_def Let_def)
qed

lemma cipher_inv_cipher: "cipher_inv c \<Longrightarrow> cs_cipher c = Some (secretKey c)"
  by (simp add: cipher_inv_def)

lemma Encrypt_inv:
  "cipher_inv c \<Longrightarrow> Encrypt P ad m c =
     Some (aead_seal P (secretKey c) (nonce_bytes (cs_nonce c)) ad m, bump P c)"
  by (simp add: Encrypt_def cipher_inv_def)

subsection \<open>Keys and nonces of a run\<close>

text \<open>The key after \<open>e\<close> rotations.\<close>

definition epoch_key :: "('sk, 'pk) prims \<Rightarrow> cipherState \<Rightarrow> nat \<Rightarrow> bytes" where
  "epoch_key P c e = secretKey ((rotateKey P ^^ e) c)"

lemma rotateKey_nonce [simp]: "rotateKey P (c\<lparr>cs_nonce := n\<rparr>) = rotateKey P c"
  by (simp add: rotateKey_def InitializeKey_def split: prod.split)

lemma rotateKey_simps [simp]:
  "cs_nonce (rotateKey P c) = 0" "cs_cipher (rotateKey P c) = Some (secretKey (rotateKey P c))"
  by (simp_all add: rotateKey_def InitializeKey_def split: prod.split)

lemma bump_step:
  assumes "n < 1000"
  shows "bump P (c\<lparr>cs_nonce := of_nat n\<rparr>) =
    (if Suc n = 1000 then rotateKey P c else c\<lparr>cs_nonce := of_nat (Suc n)\<rparr>)"
proof -
  have "(of_nat (Suc n) :: u64) = 1000 \<longleftrightarrow> Suc n = 1000"
    using assms by (simp add: word_unat_eq_iff unat_of_nat take_bit_eq_mod del: of_nat_Suc)
  then show ?thesis
    by (simp add: bump_def keyRotationInterval_def Let_def add.commute)
qed

lemma rotations_nonce: "cs_nonce c = 0 \<Longrightarrow> cs_nonce ((rotateKey P ^^ e) c) = 0"
  by (cases e) simp_all

lemma bump_pow:
  assumes "cs_nonce c = 0"
  shows "(bump P ^^ j) c = ((rotateKey P ^^ (j div 1000)) c)\<lparr>cs_nonce := of_nat (j mod 1000)\<rparr>"
proof (induction j)
  case 0
  with assms show ?case by simp
next
  case (Suc j)
  let ?c = "(rotateKey P ^^ (j div 1000)) c"
  have *: "bump P (?c\<lparr>cs_nonce := of_nat (j mod 1000)\<rparr>) = (if Suc (j mod 1000) = 1000
      then rotateKey P ?c else ?c\<lparr>cs_nonce := of_nat (Suc (j mod 1000))\<rparr>)"
    by (rule bump_step) simp
  show ?case
  proof (cases "Suc (j mod 1000) = 1000")
    case True
    then have "Suc j div 1000 = Suc (j div 1000)" "Suc j mod 1000 = 0"
      by (simp_all add: div_Suc mod_Suc)
    with Suc True * show ?thesis by simp
  next
    case False
    then have "Suc j div 1000 = j div 1000" "Suc j mod 1000 = Suc (j mod 1000)"
      by (simp_all add: div_Suc mod_Suc)
    with Suc False * show ?thesis by simp
  qed
qed

lemma bump_pow_inv: "cipher_inv c \<Longrightarrow> cipher_inv ((bump P ^^ j) c)"
  by (induction j) (simp_all add: bump_inv)

lemma nonce_bytes_inj: "nonce_bytes a = nonce_bytes b \<Longrightarrow> a = b"
proof (rule bit_word_eqI)
  fix n assume "nonce_bytes a = nonce_bytes b" and "n < LENGTH(64)"
  then have "put_u64_le a ! (n div 8) = put_u64_le b ! (n div 8)" and i: "n div 8 < 8"
    by (auto simp: nonce_bytes_def)
  then have "bit (ucast (drop_bit (8 * (n div 8)) a) :: u8) (n mod 8) =
      bit (ucast (drop_bit (8 * (n div 8)) b) :: u8) (n mod 8)"
    by (simp add: put_u64_le_def)
  then show "bit a n = bit b n" using \<open>n < LENGTH(64)\<close> by (simp add: bit_simps)
qed

lemma encrypt_all_seal:
  assumes "cipher_inv c"
  shows "encrypt_all P ms c = Some (map (\<lambda>j. aead_seal P (secretKey ((bump P ^^ j) c))
      (nonce_bytes (cs_nonce ((bump P ^^ j) c))) (fst (ms ! j)) (snd (ms ! j))) [0..<length ms],
      (bump P ^^ length ms) c)"
  using assms
proof (induction ms arbitrary: c)
  case Nil
  then show ?case by simp
next
  case (Cons am ms)
  obtain ad m where am: "am = (ad, m)" by fastforce
  have IH: "encrypt_all P ms (bump P c) = Some (map (\<lambda>j. aead_seal P
      (secretKey ((bump P ^^ Suc j) c)) (nonce_bytes (cs_nonce ((bump P ^^ Suc j) c)))
      (fst (ms ! j)) (snd (ms ! j))) [0..<length ms], (bump P ^^ Suc (length ms)) c)"
    using Cons.IH [OF bump_inv [OF Cons.prems]] by (simp add: funpow_swap1)
  show ?case
    unfolding am encrypt_all.simps Encrypt_inv [OF Cons.prems] bind.bind_lunit
    by (simp add: IH upt_conv_Cons map_Suc_upt [symmetric] del: upt_Suc funpow.simps(2))
qed

lemma decrypt_all_encrypt:
  assumes "prims_ok P" and "encrypt_all P ms c = Some (cts, c')"
  shows "decrypt_all P (zip (map fst ms) cts) c = Some (map (Some \<circ> snd) ms, c')"
  using assms(2)
proof (induction ms arbitrary: c cts)
  case Nil
  then show ?case by simp
next
  case (Cons am ms)
  obtain ad m where am: "am = (ad, m)" by fastforce
  from Cons.prems am obtain ct c1 cts1 where e: "Encrypt P ad m c = Some (ct, c1)"
      "encrypt_all P ms c1 = Some (cts1, c')" "cts = ct # cts1"
    by (auto split: bind_splits)
  then show ?case using Decrypt_Encrypt [OF assms(1) e(1)] Cons.IH [OF e(2)] am by simp
qed

subsection \<open>A concrete instance of the primitives\<close>

text \<open>
  Functions with the properties of \<open>prims_ok\<close> and without any security: keys and points
  are bytes under addition, a tag is 16 zero bytes.
\<close>

definition example_prims :: "(u8, u8) prims" where
  "example_prims = \<lparr>
     sha256 = (\<lambda>m. take 32 (m @ zero32)), hkdf = (\<lambda>k s. (take 32 (k @ zero32), take 32 (s @ zero32))),
     aead_seal = (\<lambda>k n ad m. m @ replicate 16 0),
     aead_open = (\<lambda>k n ad c. if length c < 16 then None else Some (take (length c - 16) c)),
     ec_pub = (\<lambda>a. a), ec_dh = (\<lambda>a p. Some [a * p]),
     pk_ser = (\<lambda>p. 2 # p # replicate 31 0),
     pk_parse = (\<lambda>b. if length b = 33 then Some (b ! 1) else None),
     ec_add = (+), ec_neg = uminus, ec_mul = (\<lambda>s p. sum_list s * p), ec_N = 1,
     sha512 = (\<lambda>m. take 64 (m @ replicate 64 0)), scrypt_key = (\<lambda>p s. Some (take 32 (p @ zero32)))\<rparr>"

lemma example_prims_ok: "prims_ok example_prims"
  by (auto simp: prims_ok_def example_prims_def macSize_def mult.commute)



end
