(* ===== verification/Noise_Handshake.thy ===== *)
theory Noise_Handshake
  imports Noise_Cipher
begin

section \<open>The noise handshake (mailbox/noise.go, mailbox/noise_patterns.go)\<close>

text \<open>
  Patterns, the symmetric state, the handshake state, and the reading and writing of the acts
  of a handshake, token by token. Readers and writers are arguments, so that the definitions
  apply to every connection. The last part shows that the two ends of a handshake stay in
  agreement for every pattern that uses a key only after it is known.
\<close>

subsection \<open>Patterns\<close>

text \<open>A token is a string in the code; \<open>Tok_other\<close> are the strings that are no token.\<close>

datatype Token = Tok_e | Tok_s | Tok_ee | Tok_es | Tok_se | Tok_ss | Tok_me | Tok_other string

record MessagePattern =
  Tokens :: "Token list"
  mp_Initiator :: bool
  ActNum :: u8

record HandshakePattern =
  PreMessages :: "MessagePattern list"
  Pattern :: "MessagePattern list"
  pat_Name :: string

definition XX :: string where
  "XX = ''XXeke+SPAKE2''"

definition KK :: string where
  "KK = ''KK''"

definition XXPattern :: HandshakePattern where
  "XXPattern = \<lparr>PreMessages = [],
     Pattern =
       [\<lparr>Tokens = [Tok_me], mp_Initiator = True, ActNum = 1\<rparr>,
        \<lparr>Tokens = [Tok_e, Tok_ee, Tok_s, Tok_es], mp_Initiator = False, ActNum = 2\<rparr>,
        \<lparr>Tokens = [Tok_s, Tok_se], mp_Initiator = True, ActNum = 3\<rparr>],
     pat_Name = XX\<rparr>"

definition KKPattern :: HandshakePattern where
  "KKPattern = \<lparr>PreMessages =
       [\<lparr>Tokens = [Tok_s], mp_Initiator = True, ActNum = 0\<rparr>,
        \<lparr>Tokens = [Tok_s], mp_Initiator = False, ActNum = 0\<rparr>],
     Pattern =
       [\<lparr>Tokens = [Tok_e, Tok_es, Tok_ss], mp_Initiator = True, ActNum = 1\<rparr>,
        \<lparr>Tokens = [Tok_e, Tok_ee, Tok_se], mp_Initiator = False, ActNum = 2\<rparr>],
     pat_Name = KK\<rparr>"

subsection \<open>symmetricState\<close>

record symmetricState = cipherState +
  chainingKey :: bytes
  tempKey :: bytes
  handshakeDigest :: bytes

definition mixKey :: "('sk, 'pk) prims \<Rightarrow> bytes \<Rightarrow> 'a symmetricState_scheme \<Rightarrow>
    'a symmetricState_scheme" where
  "mixKey P input s =
     (let (ck, tk) = hkdf P input (chainingKey s)
      in InitializeKey tk (s\<lparr>chainingKey := ck, tempKey := tk\<rparr>))"

definition mixHash :: "('sk, 'pk) prims \<Rightarrow> bytes \<Rightarrow> 'a symmetricState_scheme \<Rightarrow>
    'a symmetricState_scheme" where
  "mixHash P data s = s\<lparr>handshakeDigest := sha256 P (handshakeDigest s @ data)\<rparr>"

definition EncryptAndHash :: "('sk, 'pk) prims \<Rightarrow> bytes \<Rightarrow> 'a symmetricState_scheme \<Rightarrow>
    go_error + bytes \<times> 'a symmetricState_scheme" where
  "EncryptAndHash P plaintext s =
     (case Encrypt P (handshakeDigest s) plaintext s of
        None \<Rightarrow> Inl ErrPanic
      | Some (ciphertext, s') \<Rightarrow> Inr (ciphertext, mixHash P ciphertext s'))"

definition DecryptAndHash :: "('sk, 'pk) prims \<Rightarrow> bytes \<Rightarrow> 'a symmetricState_scheme \<Rightarrow>
    go_error + bytes \<times> 'a symmetricState_scheme" where
  "DecryptAndHash P ciphertext s =
     (case Decrypt P (handshakeDigest s) ciphertext s of
        None \<Rightarrow> Inl ErrPanic
      | Some (None, s') \<Rightarrow> Inl ErrAuth
      | Some (Some plaintext, s') \<Rightarrow> Inr (plaintext, mixHash P ciphertext s'))"

definition InitializeSymmetric :: "('sk, 'pk) prims \<Rightarrow> bytes \<Rightarrow> 'a symmetricState_scheme \<Rightarrow>
    'a symmetricState_scheme" where
  "InitializeSymmetric P protocolName s =
     InitializeKey zero32 (s\<lparr>handshakeDigest := sha256 P protocolName,
       chainingKey := sha256 P protocolName\<rparr>)"

subsection \<open>handshakeState\<close>

text \<open>
  \<open>eph_gen i\<close> is the result of call number \<open>i\<close> of \<^verbatim>\<open>ephemeralGen\<close>, \<open>None\<close> an error.
  \<open>payloadToSend\<close> distinguishes the nil slice, which version 0 tests for.
\<close>

record ('sk, 'pk) handshakeState = symmetricState +
  initiator :: bool
  localStatic :: 'sk
  localEphemeral :: "'sk option"
  remoteStatic :: "'pk option"
  remoteEphemeral :: "'pk option"
  passphraseEntropy :: bytes
  payloadToSend :: "bytes option"
  receivedPayload :: bytes
  pattern :: HandshakePattern
  minVersion :: u8
  maxVersion :: u8
  version :: u8
  eph_gen :: "nat \<Rightarrow> 'sk option"
  eph_calls :: nat

definition str_bytes :: "string \<Rightarrow> bytes" where
  "str_bytes = map of_char"

definition protocol_name :: "HandshakePattern \<Rightarrow> bytes" where
  "protocol_name pat = str_bytes (''Noise_'' @ pat_Name pat @ ''_secp256k1_ChaChaPoly_SHA256'')"

fun mix_premessages :: "('sk, 'pk) prims \<Rightarrow> MessagePattern list \<Rightarrow>
    ('sk, 'pk, 'a) handshakeState_scheme \<Rightarrow> go_error + ('sk, 'pk, 'a) handshakeState_scheme" where
  "mix_premessages P [] h = Inr h"
| "mix_premessages P (m # ms) h =
     (if mp_Initiator m = initiator h then
        mix_premessages P ms (mixHash P (pk_ser P (ec_pub P (localStatic h))) h)
      else
        (case remoteStatic h of
           None \<Rightarrow> Inl ErrNoRemoteStatic
         | Some r \<Rightarrow> mix_premessages P ms (mixHash P (pk_ser P r) h)))"

definition newHandshakeState :: "('sk, 'pk) prims \<Rightarrow> u8 \<Rightarrow> u8 \<Rightarrow> HandshakePattern \<Rightarrow> bool \<Rightarrow> bytes \<Rightarrow>
    'sk \<Rightarrow> 'pk option \<Rightarrow> bytes \<Rightarrow> bytes option \<Rightarrow> (nat \<Rightarrow> 'sk option) \<Rightarrow>
    go_error + ('sk, 'pk) handshakeState" where
  "newHandshakeState P minV maxV pat init prologue localPub remote pw authData gen =
     (let h = \<lparr>cs_nonce = 0, secretKey = zero32, cs_salt = zero32, cs_cipher = None,
            chainingKey = zero32, tempKey = zero32, handshakeDigest = zero32,
            initiator = init, localStatic = localPub, localEphemeral = None,
            remoteStatic = remote, remoteEphemeral = None, passphraseEntropy = pw,
            payloadToSend = authData, receivedPayload = [], pattern = pat,
            minVersion = minV, maxVersion = maxV, version = (if init then minV else maxV),
            eph_gen = gen, eph_calls = 0\<rparr>
      in mix_premessages P (PreMessages pat)
           (mixHash P prologue (InitializeSymmetric P (protocol_name pat) h)))"

subsection \<open>Keys\<close>

text \<open>A nil key is a nil dereference inside \<^verbatim>\<open>ECDH\<close>.\<close>

definition ecdh :: "('sk, 'pk) prims \<Rightarrow> 'pk option \<Rightarrow> 'sk option \<Rightarrow> go_error + bytes" where
  "ecdh P pub priv =
     (case (pub, priv) of
        (Some p, Some k) \<Rightarrow> (case ec_dh P k p of None \<Rightarrow> Inl ErrECDH | Some z \<Rightarrow> Inr z)
      | _ \<Rightarrow> Inl ErrPanic)"

definition ekeMask :: "('sk, 'pk) prims \<Rightarrow> 'pk \<Rightarrow> bytes \<Rightarrow> 'pk" where
  "ekeMask P p pw = ec_add P p (ec_mul P pw (ec_N P))"

definition ekeUnmask :: "('sk, 'pk) prims \<Rightarrow> 'pk \<Rightarrow> bytes \<Rightarrow> 'pk" where
  "ekeUnmask P mp pw = ec_add P mp (ec_neg P (ec_mul P pw (ec_N P)))"

definition new_ephemeral :: "('sk, 'pk, 'a) handshakeState_scheme \<Rightarrow>
    go_error + 'sk \<times> ('sk, 'pk, 'a) handshakeState_scheme" where
  "new_ephemeral h =
     (case eph_gen h (eph_calls h) of
        None \<Rightarrow> Inl ErrEphemeral
      | Some k \<Rightarrow> Inr (k, h\<lparr>localEphemeral := Some k, eph_calls := Suc (eph_calls h)\<rparr>))"

text \<open>The Diffie-Hellman tokens, which reading and writing treat alike.\<close>

fun dh_input :: "('sk, 'pk) prims \<Rightarrow> Token \<Rightarrow> ('sk, 'pk, 'a) handshakeState_scheme \<Rightarrow>
    go_error + bytes" where
  "dh_input P Tok_ee h = ecdh P (remoteEphemeral h) (localEphemeral h)"
| "dh_input P Tok_ss h = ecdh P (remoteStatic h) (Some (localStatic h))"
| "dh_input P Tok_es h =
     (if initiator h then ecdh P (remoteStatic h) (localEphemeral h)
      else ecdh P (remoteEphemeral h) (Some (localStatic h)))"
| "dh_input P Tok_se h =
     (if initiator h then ecdh P (remoteEphemeral h) (Some (localStatic h))
      else ecdh P (remoteStatic h) (localEphemeral h))"
| "dh_input P (Tok_other t) h = Inl (ErrUnknownToken t)"
| "dh_input P tok h = Inl ErrPanic"

definition dh_token :: "('sk, 'pk) prims \<Rightarrow> Token \<Rightarrow> ('sk, 'pk, 'a) handshakeState_scheme \<Rightarrow>
    go_error + ('sk, 'pk, 'a) handshakeState_scheme" where
  "dh_token P tok h = ebind (dh_input P tok h) (\<lambda>z. Inr (mixKey P z h))"

subsection \<open>Tokens\<close>

definition write_token :: "('sk, 'pk) prims \<Rightarrow> Token \<Rightarrow> ('sk, 'pk, 'a) handshakeState_scheme \<Rightarrow>
    go_error + bytes \<times> ('sk, 'pk, 'a) handshakeState_scheme" where
  "write_token P tok h =
     (case tok of
        Tok_e \<Rightarrow>
          ebind (new_ephemeral h) (\<lambda>(k, h1).
            let b = pk_ser P (ec_pub P k) in Inr (b, mixHash P b h1))
      | Tok_me \<Rightarrow>
          ebind (new_ephemeral h) (\<lambda>(k, h1).
            Inr (pk_ser P (ekeMask P (ec_pub P k) (passphraseEntropy h1)),
                 mixHash P (pk_ser P (ec_pub P k)) h1))
      | Tok_s \<Rightarrow> EncryptAndHash P (pk_ser P (ec_pub P (localStatic h))) h
      | _ \<Rightarrow> ebind (dh_token P tok h) (\<lambda>h1. Inr ([], h1)))"

fun writeTokens :: "('sk, 'pk) prims \<Rightarrow> Token list \<Rightarrow> ('sk, 'pk, 'a) handshakeState_scheme \<Rightarrow>
    go_error + bytes \<times> ('sk, 'pk, 'a) handshakeState_scheme" where
  "writeTokens P [] h = Inr ([], h)"
| "writeTokens P (tok # toks) h =
     ebind (write_token P tok h) (\<lambda>(b, h1).
     ebind (writeTokens P toks h1) (\<lambda>(bs, h2). Inr (b @ bs, h2)))"

definition read_token :: "('sk, 'pk) prims \<Rightarrow> 'c reader \<Rightarrow> Token \<Rightarrow>
    ('sk, 'pk, 'a) handshakeState_scheme \<Rightarrow> ('c, ('sk, 'pk, 'a) handshakeState_scheme) io" where
  "read_token P rd tok h =
     (case tok of
        Tok_e \<Rightarrow>
          io_bind (read_buf rd 33) (\<lambda>b.
            case pk_parse P b of
              None \<Rightarrow> io_fail ErrPubKey
            | Some r \<Rightarrow> io_return (mixHash P (pk_ser P r) (h\<lparr>remoteEphemeral := Some r\<rparr>)))
      | Tok_me \<Rightarrow>
          io_bind (read_buf rd 33) (\<lambda>b.
            case pk_parse P b of
              None \<Rightarrow> io_fail ErrPubKey
            | Some r \<Rightarrow>
                let u = ekeUnmask P r (passphraseEntropy h)
                in io_return (mixHash P (pk_ser P u) (h\<lparr>remoteEphemeral := Some u\<rparr>)))
      | Tok_s \<Rightarrow>
          io_bind (read_buf rd (33 + macSize)) (\<lambda>b.
          io_bind (io_lift (DecryptAndHash P b h)) (\<lambda>(rs, h1).
            case pk_parse P rs of
              None \<Rightarrow> io_fail ErrPubKey
            | Some r \<Rightarrow> io_return (h1\<lparr>remoteStatic := Some r\<rparr>)))
      | _ \<Rightarrow> io_lift (dh_token P tok h))"

fun readTokens :: "('sk, 'pk) prims \<Rightarrow> 'c reader \<Rightarrow> Token list \<Rightarrow>
    ('sk, 'pk, 'a) handshakeState_scheme \<Rightarrow> ('c, ('sk, 'pk, 'a) handshakeState_scheme) io" where
  "readTokens P rd [] h = io_return h"
| "readTokens P rd (tok # toks) h =
     io_bind (read_token P rd tok h) (\<lambda>h1. readTokens P rd toks h1)"

subsection \<open>Acts\<close>

definition ActTwoPayloadSize :: nat where
  "ActTwoPayloadSize = 500"

definition lengthHeaderSize :: nat where
  "lengthHeaderSize = 2"

text \<open>Version 0: length and auth data, copied into a block of zeros of fixed size.\<close>

definition v0_payload :: "bytes option \<Rightarrow> bytes" where
  "v0_payload d =
     take ActTwoPayloadSize
       ((case d of None \<Rightarrow> [] | Some a \<Rightarrow> put_u16 (of_nat (length a)) @ a) @
        replicate ActTwoPayloadSize 0)"

definition MaxInt32 :: nat where
  "MaxInt32 = 2147483647"

definition write_payload :: "('sk, 'pk) prims \<Rightarrow> MessagePattern \<Rightarrow>
    ('sk, 'pk, 'a) handshakeState_scheme \<Rightarrow>
    go_error + bytes \<times> ('sk, 'pk, 'a) handshakeState_scheme" where
  "write_payload P mp h =
     (if version h = 0 then
        (if ActNum mp = 1 \<or> ActNum mp = 3 then EncryptAndHash P [] h
         else if ActNum mp = 2 then EncryptAndHash P (v0_payload (payloadToSend h)) h
         else Inl (ErrUnknownAct (ActNum mp)))
      else if version h = 1 \<or> version h = 2 then
        (if ActNum mp = 1 \<or> ActNum mp = 3 then EncryptAndHash P [] h
         else if ActNum mp = 2 then
           (let payload = (case payloadToSend h of None \<Rightarrow> [] | Some a \<Rightarrow> a)
            in if length payload \<ge> MaxInt32 then Inl ErrMaxMessageLengthExceeded
               else
                 ebind (EncryptAndHash P (put_u32 (of_nat (length payload))) h) (\<lambda>(c1, h1).
                 ebind (EncryptAndHash P payload h1) (\<lambda>(c2, h2). Inr (c1 @ c2, h2))))
         else Inl (ErrUnknownAct (ActNum mp)))
      else Inl (ErrUnknownVersion (version h)))"

definition writeMsgPattern :: "('sk, 'pk) prims \<Rightarrow> 'c writer \<Rightarrow> MessagePattern \<Rightarrow>
    ('sk, 'pk, 'a) handshakeState_scheme \<Rightarrow> ('c, ('sk, 'pk, 'a) handshakeState_scheme) io" where
  "writeMsgPattern P wr mp h =
     io_bind (io_lift (writeTokens P (Tokens mp) h)) (\<lambda>(tb, h1).
     io_bind (io_lift (write_payload P mp h1)) (\<lambda>(pb, h2).
     io_bind (write_buf wr ([version h] @ tb @ pb)) (\<lambda>_. io_return h2)))"

text \<open>The version check of an incoming act; the initiator adapts to the responder.\<close>

definition check_version :: "MessagePattern \<Rightarrow> u8 \<Rightarrow> ('sk, 'pk, 'a) handshakeState_scheme \<Rightarrow>
    go_error + ('sk, 'pk, 'a) handshakeState_scheme" where
  "check_version mp v h =
     (if ActNum mp = 1 \<or> ActNum mp = 2 then
        (if v < minVersion h \<or> maxVersion h < v then Inl (ErrHandshakeVersion v)
         else Inr (if initiator h then h\<lparr>version := v\<rparr> else h))
      else if ActNum mp = 3 then
        (if v \<noteq> version h then Inl (ErrHandshakeVersion v) else Inr h)
      else Inl (ErrUnknownAct (ActNum mp)))"

definition read_payload_v0 :: "('sk, 'pk) prims \<Rightarrow> 'c reader \<Rightarrow> MessagePattern \<Rightarrow>
    ('sk, 'pk, 'a) handshakeState_scheme \<Rightarrow> ('c, ('sk, 'pk, 'a) handshakeState_scheme) io" where
  "read_payload_v0 P rd mp h =
     io_bind (read_buf rd ((if ActNum mp = 2 then ActTwoPayloadSize else 0) + macSize)) (\<lambda>ct.
     io_bind (io_lift (DecryptAndHash P ct h)) (\<lambda>(payload, h1).
       if payload = [] then io_return h1
       else if length payload < lengthHeaderSize then io_fail ErrPanic
       else
         let payloadLen = unat (get_u16 payload); rest = drop lengthHeaderSize payload
         in if rest = [] then io_fail ErrEOF
            else io_return
              (h1\<lparr>receivedPayload := take payloadLen (rest @ replicate payloadLen 0)\<rparr>)))"

definition read_payload_v1 :: "('sk, 'pk) prims \<Rightarrow> 'c reader \<Rightarrow> MessagePattern \<Rightarrow>
    ('sk, 'pk, 'a) handshakeState_scheme \<Rightarrow> ('c, ('sk, 'pk, 'a) handshakeState_scheme) io" where
  "read_payload_v1 P rd mp h =
     io_bind
       (if ActNum mp = 1 \<or> ActNum mp = 3 then io_return (of_nat macSize :: u32, h)
        else if ActNum mp = 2 then
          io_bind (read_buf rd (4 + macSize)) (\<lambda>hdr.
          io_bind (io_lift (DecryptAndHash P hdr h)) (\<lambda>(pktLen, h1).
            if length pktLen < 4 then io_fail ErrPanic
            else io_return (of_nat macSize + get_u32 pktLen, h1)))
        else io_fail (ErrUnknownAct (ActNum mp)))
       (\<lambda>(payloadSize, h1).
          io_bind (read_buf rd (unat payloadSize)) (\<lambda>ct.
          io_bind (io_lift (DecryptAndHash P ct h1)) (\<lambda>(authData, h2).
            io_return (if ActNum mp = 2 then h2\<lparr>receivedPayload := authData\<rparr> else h2))))"

definition readMsgPattern :: "('sk, 'pk) prims \<Rightarrow> 'c reader \<Rightarrow> MessagePattern \<Rightarrow>
    ('sk, 'pk, 'a) handshakeState_scheme \<Rightarrow> ('c, ('sk, 'pk, 'a) handshakeState_scheme) io" where
  "readMsgPattern P rd mp h =
     io_bind (read_buf rd 1) (\<lambda>vb.
       let v = vb ! 0 in
       io_bind (io_lift (check_version mp v h)) (\<lambda>h1.
       io_bind (readTokens P rd (Tokens mp) h1) (\<lambda>h2.
         if v = 0 then read_payload_v0 P rd mp h2
         else if v = 1 \<or> v = 2 then read_payload_v1 P rd mp h2
         else io_fail (ErrUnknownVersion (version h2)))))"

subsection \<open>What an operation leaves alone\<close>

text \<open>
  \<open>sym\<close> is the symmetric state of a handshake, \<open>settings\<close> the part that no token changes.
\<close>

definition sym where
  "sym s = (cs_nonce s, secretKey s, cs_salt s, cs_cipher s, chainingKey s, tempKey s,
     handshakeDigest s)"

definition settings where
  "settings h = (initiator h, localStatic h, passphraseEntropy h, payloadToSend h,
     receivedPayload h, pattern h, (minVersion h, maxVersion h, version h), eph_gen h)"

definition keys where
  "keys h = (localEphemeral h, remoteStatic h, remoteEphemeral h)"

text \<open>A key has been set.\<close>

definition keyed :: "'a cipherState_scheme \<Rightarrow> bool" where
  "keyed s \<longleftrightarrow> cs_cipher s \<noteq> None"

lemmas hs_views = sym_def settings_def keys_def keyed_def

lemma mixHash_views [simp]:
  "settings (mixHash P d h) = settings h" "keys (mixHash P d h) = keys h"
  "keyed (mixHash P d h) = keyed h"
  by (simp_all add: mixHash_def hs_views)

lemma mixKey_views [simp]:
  "settings (mixKey P z h) = settings h" "keys (mixKey P z h) = keys h"
  "keyed (mixKey P z h)"
  by (simp_all add: mixKey_def InitializeKey_def hs_views split: prod.split)

lemma bump_views [simp]:
  "settings (bump P h) = settings h" "keys (bump P h) = keys h"
  "handshakeDigest (bump P h) = handshakeDigest h"
  "keyed h \<Longrightarrow> keyed (bump P h)"
  by (auto simp: bump_def rotateKey_def InitializeKey_def hs_views Let_def split: prod.split)

lemma sym_mixHash: "sym x = sym y \<Longrightarrow> sym (mixHash P d x) = sym (mixHash P d y)"
  by (simp add: sym_def mixHash_def)

lemma sym_mixKey: "sym x = sym y \<Longrightarrow> sym (mixKey P z x) = sym (mixKey P z y)"
  by (simp add: sym_def mixKey_def InitializeKey_def split: prod.split)

lemma sym_bump: "sym x = sym y \<Longrightarrow> sym (bump P x) = sym (bump P y)"
  by (simp add: sym_def bump_def rotateKey_def InitializeKey_def Let_def split: prod.split)

lemma sym_keyed: "sym x = sym y \<Longrightarrow> keyed x \<longleftrightarrow> keyed y"
  by (simp add: sym_def keyed_def)

lemma keyed_updates [simp]:
  "keyed (h\<lparr>localEphemeral := a\<rparr>) = keyed h" "keyed (h\<lparr>eph_calls := n\<rparr>) = keyed h"
  "keyed (h\<lparr>remoteStatic := b\<rparr>) = keyed h" "keyed (h\<lparr>remoteEphemeral := b\<rparr>) = keyed h"
  "keyed (h\<lparr>receivedPayload := d\<rparr>) = keyed h" "keyed (h\<lparr>version := v\<rparr>) = keyed h"
  by (simp_all add: keyed_def)

lemma sym_updates [simp]:
  "sym (h\<lparr>localEphemeral := a\<rparr>) = sym h" "sym (h\<lparr>eph_calls := n\<rparr>) = sym h"
  "sym (h\<lparr>remoteStatic := b\<rparr>) = sym h" "sym (h\<lparr>remoteEphemeral := b\<rparr>) = sym h"
  "sym (h\<lparr>receivedPayload := d\<rparr>) = sym h" "sym (h\<lparr>version := v\<rparr>) = sym h"
  by (simp_all add: sym_def)

text \<open>What one end encrypts the other decrypts, and the symmetric states stay equal.\<close>

lemma EncryptAndHash_sync:
  assumes "prims_ok P" and "sym x = sym y" and "keyed x"
  obtains ct x' y' where "EncryptAndHash P m x = Inr (ct, x')" and "DecryptAndHash P ct y = Inr (m, y')"
    and "sym x' = sym y'" and "keyed x'" and "length ct = length m + macSize"
    and "settings x' = settings x" and "keys x' = keys x"
    and "settings y' = settings y" and "keys y' = keys y"
proof -
  obtain k where k: "cs_cipher x = Some k" using assms(3) by (auto simp: keyed_def)
  let ?ct = "aead_seal P k (nonce_bytes (cs_nonce x)) (handshakeDigest x) m"
  have y: "cs_cipher y = Some k" "cs_nonce y = cs_nonce x" "handshakeDigest y = handshakeDigest x"
    using assms(2) k by (simp_all add: sym_def)
  have "sym (mixHash P ?ct (bump P x)) = sym (mixHash P ?ct (bump P y))"
    by (intro sym_mixHash sym_bump assms(2))
  then show thesis
    by (rule that [of ?ct "mixHash P ?ct (bump P x)" "mixHash P ?ct (bump P y)", rotated 2])
      (use k y assms(3) prims_okD(1,2) [OF assms(1)] in \<open>simp_all add: EncryptAndHash_def
        DecryptAndHash_def Encrypt_def Decrypt_def\<close>)
qed

subsection \<open>Agreement\<close>

text \<open>
  What is known at a point of a handshake: the ephemeral keys of the initiator and of the
  responder, the static key of the initiator (to the responder) and of the responder (to the
  initiator). \<open>learn w tok\<close> is the effect of a token written by the initiator (\<open>w\<close>) or the
  responder; \<open>None\<close> when it uses a key that is not known.
\<close>

record knowledge =
  k_eI :: bool
  k_eR :: bool
  k_sI :: bool
  k_sR :: bool

fun learn :: "bool \<Rightarrow> Token \<Rightarrow> knowledge \<Rightarrow> knowledge option" where
  "learn w Tok_e K = Some (if w then K\<lparr>k_eI := True\<rparr> else K\<lparr>k_eR := True\<rparr>)"
| "learn w Tok_me K = Some (if w then K\<lparr>k_eI := True\<rparr> else K\<lparr>k_eR := True\<rparr>)"
| "learn w Tok_s K = Some (if w then K\<lparr>k_sI := True\<rparr> else K\<lparr>k_sR := True\<rparr>)"
| "learn w Tok_ee K = (if k_eI K \<and> k_eR K then Some K else None)"
| "learn w Tok_ss K = (if k_sI K \<and> k_sR K then Some K else None)"
| "learn w Tok_es K = (if k_eI K \<and> k_sR K then Some K else None)"
| "learn w Tok_se K = (if k_eR K \<and> k_sI K then Some K else None)"
| "learn w (Tok_other t) K = None"

fun learn_all :: "bool \<Rightarrow> Token list \<Rightarrow> knowledge \<Rightarrow> knowledge option" where
  "learn_all w [] K = Some K"
| "learn_all w (tok # toks) K = do { K' \<leftarrow> learn w tok K; learn_all w toks K' }"

definition agree :: "('sk, 'pk) prims \<Rightarrow> knowledge \<Rightarrow> ('sk, 'pk) handshakeState \<Rightarrow>
    ('sk, 'pk) handshakeState \<Rightarrow> bool" where
  "agree P K hI hR \<longleftrightarrow> sym hI = sym hR \<and> keyed hI \<and> keyed hR \<and> initiator hI \<and> \<not> initiator hR \<and>
     passphraseEntropy hI = passphraseEntropy hR \<and>
     remoteEphemeral hR = map_option (ec_pub P) (localEphemeral hI) \<and>
     remoteEphemeral hI = map_option (ec_pub P) (localEphemeral hR) \<and>
     (k_eI K \<longrightarrow> localEphemeral hI \<noteq> None) \<and> (k_eR K \<longrightarrow> localEphemeral hR \<noteq> None) \<and>
     (k_sI K \<longrightarrow> remoteStatic hR = Some (ec_pub P (localStatic hI))) \<and>
     (k_sR K \<longrightarrow> remoteStatic hI = Some (ec_pub P (localStatic hR)))"

lemma dh_agree:
  assumes "prims_ok P" and "agree P K hI hR" and "learn w tok K = Some K'"
    and "tok \<notin> {Tok_e, Tok_me, Tok_s}"
  obtains z where "dh_input P tok hI = Inr z" and "dh_input P tok hR = Inr z" and "K' = K"
proof -
  have dh: "ec_dh P a (ec_pub P b) = ec_dh P b (ec_pub P a)" "\<exists>z. ec_dh P a (ec_pub P b) = Some z"
    for a b using prims_okD(3,4) [OF assms(1)] by blast+
  have "\<exists>z. dh_input P tok hI = Inr z \<and> dh_input P tok hR = Inr z \<and> K' = K"
    using assms(2-4) dh(2) [of "the (localEphemeral hI)" "the (localEphemeral hR)"]
      dh(2) [of "localStatic hI" "localStatic hR"]
      dh(2) [of "the (localEphemeral hI)" "localStatic hR"]
      dh(2) [of "localStatic hI" "the (localEphemeral hR)"]
      dh(1) [of "the (localEphemeral hR)" "the (localEphemeral hI)"]
      dh(1) [of "localStatic hR" "localStatic hI"]
      dh(1) [of "localStatic hR" "the (localEphemeral hI)"]
      dh(1) [of "the (localEphemeral hR)" "localStatic hI"]
    by (cases tok) (auto simp: agree_def ecdh_def split: if_splits)
  then show thesis using that by blast
qed

text \<open>The same with the writer and the reader of an act in place of the two roles.\<close>

definition agree_w :: "('sk, 'pk) prims \<Rightarrow> bool \<Rightarrow> knowledge \<Rightarrow> ('sk, 'pk) handshakeState \<Rightarrow>
    ('sk, 'pk) handshakeState \<Rightarrow> bool" where
  "agree_w P w K hW hX = (if w then agree P K hW hX else agree P K hX hW)"

lemma agree_w_sym: "agree_w P w K hW hX \<Longrightarrow> sym hW = sym hX \<and> keyed hW"
  by (cases w) (simp_all add: agree_w_def agree_def)

lemma agree_w_transfer:
  assumes "agree_w P w K hW hX" and "sym hW' = sym hX'" and "keyed hW'"
    and "settings hW' = settings hW" and "settings hX' = settings hX"
    and "keys hW' = keys hW" and "keys hX' = keys hX"
  shows "agree_w P w K hW' hX'"
  using assms sym_keyed [OF assms(2)]
  by (cases w) (simp_all add: agree_w_def agree_def settings_def keys_def)

lemma eke_inverse: "prims_ok P \<Longrightarrow> ekeUnmask P (ekeMask P p pw) pw = p"
  by (simp add: ekeMask_def ekeUnmask_def prims_okD)

lemma agree_ephemeral:
  assumes "agree_w P w K hW hX"
  shows "agree_w P w (if w then K\<lparr>k_eI := True\<rparr> else K\<lparr>k_eR := True\<rparr>)
    (mixHash P d (hW\<lparr>localEphemeral := Some k, eph_calls := n\<rparr>))
    (mixHash P d (hX\<lparr>remoteEphemeral := Some (ec_pub P k)\<rparr>))"
  using assms sym_mixHash [of hW hX P d] sym_mixHash [of hX hW P d]
  by (cases w) (simp_all add: agree_w_def agree_def mixHash_def sym_def keyed_def)

lemma agree_static:
  assumes "agree_w P w K hW hX" and "sym hW' = sym hX'" and "keyed hW'"
    and "settings hW' = settings hW" and "settings hX' = settings hX"
    and "keys hW' = keys hW" and "keys hX' = keys hX"
  shows "agree_w P w (if w then K\<lparr>k_sI := True\<rparr> else K\<lparr>k_sR := True\<rparr>) hW'
    (hX'\<lparr>remoteStatic := Some (ec_pub P (localStatic hW))\<rparr>)"
  using assms sym_keyed [OF assms(2)]
  by (cases w) (simp_all add: agree_w_def agree_def settings_def keys_def)

context message_conn
begin

text \<open>\<open>reads m bs x\<close>: the computation \<open>m\<close> takes the bytes \<open>bs\<close> off the buffer and returns \<open>x\<close>.\<close>

definition reads :: "('c, 'a) io \<Rightarrow> bytes \<Rightarrow> 'a \<Rightarrow> bool" where
  "reads m bs x \<longleftrightarrow> (\<forall>c. prefix bs (buf c) \<longrightarrow>
     (\<exists>c'. m c = (Inr x, c') \<and> buf c' = drop (length bs) (buf c) \<and> inbox c' = inbox c \<and>
        outbox c' = outbox c))"

lemma readsE:
  assumes "reads m bs x" and "buf c = bs @ r"
  obtains c' where "m c = (Inr x, c')" and "buf c' = r" and "inbox c' = inbox c"
    and "outbox c' = outbox c"
proof -
  have "prefix bs (buf c)" "drop (length bs) (buf c) = r" using assms(2) by simp_all
  with assms(1) that show thesis unfolding reads_def by metis
qed

lemma reads_return: "reads (io_return x) [] x"
  by (simp add: reads_def io_apply)

lemma reads_lift: "r = Inr x \<Longrightarrow> reads (io_lift r) [] x"
  by (simp add: reads_def io_apply)

lemma reads_buf: "length bs = n \<Longrightarrow> 0 < n \<Longrightarrow> reads (read_buf rd n) bs bs"
  unfolding reads_def
proof (intro allI impI)
  fix c assume "length bs = n" and "0 < n" and "prefix bs (buf c)"
  then have "n \<le> length (buf c)" and "take n (buf c) = bs"
    by (auto simp: prefix_def)
  with read_buf_exact [OF \<open>0 < n\<close>, of c] \<open>length bs = n\<close> show "\<exists>c'. read_buf rd n c = (Inr bs, c') \<and>
      buf c' = drop (length bs) (buf c) \<and> inbox c' = inbox c \<and> outbox c' = outbox c"
    by metis
qed

lemma reads_bind:
  assumes "reads m bs x" and "reads (f x) cs y"
  shows "reads (io_bind m f) (bs @ cs) y"
  unfolding reads_def
proof (intro allI impI)
  fix c assume "prefix (bs @ cs) (buf c)"
  then obtain r where r: "buf c = bs @ cs @ r" by (auto simp: prefix_def)
  then obtain c1 where c1: "m c = (Inr x, c1)" "buf c1 = cs @ r" "inbox c1 = inbox c"
      "outbox c1 = outbox c"
    using readsE [OF assms(1)] by blast
  then obtain c2 where "f x c1 = (Inr y, c2)" "buf c2 = r" "inbox c2 = inbox c" "outbox c2 = outbox c"
    using readsE [OF assms(2) c1(2)] by metis
  with c1 r show "\<exists>c'. io_bind m f c = (Inr y, c') \<and> buf c' = drop (length (bs @ cs)) (buf c) \<and>
      inbox c' = inbox c \<and> outbox c' = outbox c"
    by (simp add: io_bind_Inr)
qed

lemma reads_last: "reads m bs x \<Longrightarrow> reads (f x) [] y \<Longrightarrow> reads (io_bind m f) bs y"
  using reads_bind [of m bs x f "[]" y] by simp

lemma reads_first: "reads m [] x \<Longrightarrow> reads (f x) cs y \<Longrightarrow> reads (io_bind m f) cs y"
  using reads_bind [of m "[]" x f cs y] by simp

text \<open>Reading an act: the first read takes the next message into the buffer.\<close>

lemma reads_message:
  assumes "buf c = []" and "inbox c = (v # bs) # ms" and "reads (f [v]) bs x"
  obtains c' where "io_bind (read_buf rd 1) f c = (Inr x, c')" and "buf c' = []"
    and "inbox c' = ms" and "outbox c' = outbox c"
proof -
  obtain c1 where c1: "read_buf rd 1 c = (Inr [v], c1)" "buf c1 = bs" "inbox c1 = ms"
      "outbox c1 = outbox c"
    using read_buf_next [OF assms(1,2), of 1] by auto
  then obtain c2 where "f [v] c1 = (Inr x, c2)" "buf c2 = []" "inbox c2 = ms" "outbox c2 = outbox c"
    using readsE [OF assms(3), of c1 "[]"] by auto
  with c1 show thesis by (intro that [of c2]) (simp_all add: io_bind_Inr)
qed

lemma token_static_sync:
  assumes P: "prims_ok P" and a: "agree_w P w K hW hX" and l: "learn w Tok_s K = Some K'"
  obtains bs hW' hX' where "write_token P Tok_s hW = Inr (bs, hW')"
    and "reads (read_token P rd Tok_s hX) bs hX'" and "agree_w P w K' hW' hX'"
    and "settings hW' = settings hW" and "settings hX' = settings hX" and "length bs \<le> 49"
proof -
  note parse = prims_okD(5,6) [OF P]
  let ?b = "pk_ser P (ec_pub P (localStatic hW))"
  obtain ct hW' hX' where e: "EncryptAndHash P ?b hW = Inr (ct, hW')"
      "DecryptAndHash P ct hX = Inr (?b, hX')" "sym hW' = sym hX'" "keyed hW'"
      "length ct = length ?b + macSize" "settings hW' = settings hW" "keys hW' = keys hW"
      "settings hX' = settings hX" "keys hX' = keys hX"
    using EncryptAndHash_sync [OF P, of hW hX ?b] agree_w_sym [OF a] by blast
  let ?X = "hX'\<lparr>remoteStatic := Some (ec_pub P (localStatic hW))\<rparr>"
  have "reads (read_token P rd Tok_s hX) (ct @ [] @ []) ?X"
    unfolding read_token_def Token.case
    by (rule reads_bind [OF reads_buf], simp add: e(5) parse, simp add: macSize_def,
        rule reads_bind [OF reads_lift], rule e(2)) (simp add: parse reads_return)
  moreover have "settings ?X = settings hX" using e(8) by (simp add: settings_def)
  ultimately show thesis
    using l agree_static [OF a e(3,4,6,8,7,9)] e(1,5,6)
    by (intro that [of ct hW' ?X]) (auto simp: write_token_def parse macSize_def split: if_splits)
qed

lemma token_dh_sync:
  assumes P: "prims_ok P" and a: "agree_w P w K hW hX" and l: "learn w tok K = Some K'"
    and 4: "tok \<notin> {Tok_e, Tok_me, Tok_s}"
  obtains bs hW' hX' where "write_token P tok hW = Inr (bs, hW')"
    and "reads (read_token P rd tok hX) bs hX'" and "agree_w P w K' hW' hX'"
    and "settings hW' = settings hW" and "settings hX' = settings hX" and "length bs \<le> 49"
proof -
  obtain z where z: "dh_input P tok hW = Inr z" "dh_input P tok hX = Inr z" "K' = K"
    using dh_agree [OF P _ l 4, of hW hX] dh_agree [OF P _ l 4, of hX hW] a
    unfolding agree_w_def by metis
  have d: "dh_token P tok hW = Inr (mixKey P z hW)" "dh_token P tok hX = Inr (mixKey P z hX)"
    using z by (simp_all add: dh_token_def)
  have "agree_w P w K (mixKey P z hW) (mixKey P z hX)"
    using agree_w_transfer [OF a] agree_w_sym [OF a] sym_mixKey [of hW hX P z] by simp
  moreover have "write_token P tok hW = Inr ([], mixKey P z hW)"
    using 4 d by (cases tok) (simp_all add: write_token_def)
  moreover have "read_token P rd tok hX = io_lift (Inr (mixKey P z hX))"
    using 4 d by (cases tok) (simp_all add: read_token_def)
  ultimately show thesis
    using z(3) by (intro that [of "[]" "mixKey P z hW" "mixKey P z hX"]) (simp_all add: reads_lift)
qed

lemma token_sync:
  assumes P: "prims_ok P" and a: "agree_w P w K hW hX" and l: "learn w tok K = Some K'"
    and g: "\<forall>i. eph_gen hW i \<noteq> None"
  obtains bs hW' hX' where "write_token P tok hW = Inr (bs, hW')"
    and "reads (read_token P rd tok hX) bs hX'" and "agree_w P w K' hW' hX'"
    and "settings hW' = settings hW" and "settings hX' = settings hX" and "length bs \<le> 49"
proof -
  obtain k where k: "eph_gen hW (eph_calls hW) = Some k" using g by blast
  let ?W = "hW\<lparr>localEphemeral := Some k, eph_calls := Suc (eph_calls hW)\<rparr>"
  let ?X = "hX\<lparr>remoteEphemeral := Some (ec_pub P k)\<rparr>"
  have new: "new_ephemeral hW = Inr (k, ?W)" by (simp add: new_ephemeral_def k)
  have frame: "settings (mixHash P d ?W) = settings hW" "settings (mixHash P d ?X) = settings hX" for d
    by (simp_all add: settings_def mixHash_def)
  note parse = prims_okD(5,6) [OF P]
  have pw: "passphraseEntropy hW = passphraseEntropy hX"
    using a by (auto simp: agree_w_def agree_def split: if_splits)
  consider "tok = Tok_e" | "tok = Tok_me" | "tok = Tok_s" | "tok \<notin> {Tok_e, Tok_me, Tok_s}" by blast
  then show thesis
  proof cases
    case 1
    let ?b = "pk_ser P (ec_pub P k)"
    have "reads (read_token P rd tok hX) (?b @ []) (mixHash P ?b ?X)"
      unfolding 1 read_token_def Token.case
      by (rule reads_bind [OF reads_buf]) (simp_all add: parse reads_return)
    then show thesis
      using 1 l agree_ephemeral [OF a, where d = ?b and k = k] new frame
      by (intro that [of ?b "mixHash P ?b ?W" "mixHash P ?b ?X"])
        (auto simp: write_token_def Let_def parse split: if_splits)
  next
    case 2
    let ?b = "pk_ser P (ec_pub P k)" and ?m = "pk_ser P (ekeMask P (ec_pub P k) (passphraseEntropy hX))"
    have "reads (read_token P rd tok hX) (?m @ []) (mixHash P ?b ?X)"
      unfolding 2 read_token_def Token.case
      by (rule reads_bind [OF reads_buf]) (simp_all add: parse reads_return eke_inverse [OF P] Let_def)
    then show thesis
      using 2 l agree_ephemeral [OF a, where d = ?b and k = k] new frame pw
      by (intro that [of ?m "mixHash P ?b ?W" "mixHash P ?b ?X"])
        (auto simp: write_token_def parse split: if_splits)
  next
    case 3
    show thesis by (rule token_static_sync [OF P a l [unfolded 3]]) (rule that [unfolded 3])
  next
    case 4
    show thesis by (rule token_dh_sync [OF P a l 4]) (rule that)
  qed
qed

end

subsection \<open>Payloads\<close>

definition auth_bytes :: "bytes option \<Rightarrow> bytes" where
  "auth_bytes d = (case d of None \<Rightarrow> [] | Some a \<Rightarrow> a)"

text \<open>The auth data that the initiator ends up with when the responder sends \<open>d\<close>.\<close>

definition received :: "u8 \<Rightarrow> bytes option \<Rightarrow> bytes" where
  "received v d =
     (if v = 0 then
        let p = v0_payload d; n = unat (get_u16 p) in take n (drop 2 p @ replicate n 0)
      else auth_bytes d)"

lemma length_v0_payload [simp]: "length (v0_payload d) = 500"
  by (simp add: v0_payload_def ActTwoPayloadSize_def split: option.split)

lemma get_u16_zeros: "get_u16 (0 # 0 # r) = 0"
  by (simp add: get_u16_def)

lemma v0_payload_Some:
  "v0_payload (Some a) = put_u16 (of_nat (length a)) @ take 498 (a @ replicate 498 0)"
proof -
  have "v0_payload (Some a) = put_u16 (of_nat (length a)) @ take 498 (a @ replicate 500 0)"
    by (simp add: v0_payload_def ActTwoPayloadSize_def)
  also have "take 498 (a @ replicate 500 (0 :: u8)) = take 498 (a @ replicate 498 0)" by simp
  finally show ?thesis .
qed

lemma received_v0:
  "received 0 (Some a) =
     (let n = length a mod 65536 in take n (take 498 a @ replicate n 0))"
proof -
  let ?n = "length a mod 65536"
  have "unat (of_nat (length a) :: u16) = ?n" by (simp add: unat_of_nat take_bit_eq_mod)
  then have "received 0 (Some a) = take ?n (take 498 (a @ replicate 498 0) @ replicate ?n 0)"
    by (simp add: received_def v0_payload_Some Let_def)
  also have "\<dots> = take ?n (take 498 a @ replicate ?n 0)"
    by (cases "length a \<le> 498") simp_all
  finally show ?thesis by (simp add: Let_def)
qed

lemma received_exact: "v \<noteq> 0 \<or> length (auth_bytes d) \<le> 498 \<Longrightarrow> received v d = auth_bytes d"
proof (cases d)
  case None
  then show ?thesis
    by (simp add: received_def auth_bytes_def v0_payload_def ActTwoPayloadSize_def get_u16_def)
next
  case (Some a)
  assume *: "v \<noteq> 0 \<or> length (auth_bytes d) \<le> 498"
  show ?thesis
  proof (cases "v = 0")
    case True
    with * Some show ?thesis by (simp add: received_v0 auth_bytes_def Let_def)
  next
    case False
    then show ?thesis by (simp add: received_def)
  qed
qed

subsection \<open>Agreement over a whole act\<close>

lemma agree_w_received:
  "agree_w P w K hW hX \<Longrightarrow> agree_w P w K hW (hX\<lparr>receivedPayload := d\<rparr>)"
  by (cases w) (simp_all add: agree_w_def agree_def)

lemma agree_w_version: "agree_w P w K hW hX \<Longrightarrow> agree_w P w K hW (hX\<lparr>version := v\<rparr>)"
  by (cases w) (simp_all add: agree_w_def agree_def)

lemma settings_received:
  "settings h = settings h' \<Longrightarrow>
   settings (h\<lparr>receivedPayload := d\<rparr>) = settings (h'\<lparr>receivedPayload := d\<rparr>)"
  by (simp add: settings_def)

text \<open>
  When an act goes through whose version byte arrives as \<open>v\<close>: a known version in the range of
  the reader, or equal to its own, and in the format the writer used, and auth data that can
  be sent.
\<close>

definition act_ok :: "MessagePattern \<Rightarrow> u8 \<Rightarrow> ('sk, 'pk) handshakeState \<Rightarrow>
    ('sk, 'pk) handshakeState \<Rightarrow> bool" where
  "act_ok mp v hW hX \<longleftrightarrow> version hW \<le> 2 \<and> v \<le> 2 \<and> (v = 0 \<longleftrightarrow> version hW = 0) \<and>
     (ActNum mp \<in> {1, 2} \<and> minVersion hX \<le> v \<and> v \<le> maxVersion hX \<or>
      ActNum mp = 3 \<and> v = version hX) \<and>
     (ActNum mp = 2 \<and> version hW \<noteq> 0 \<longrightarrow> length (auth_bytes (payloadToSend hW)) < MaxInt32)"

text \<open>The reader after the act, up to the keys.\<close>

definition after_act :: "MessagePattern \<Rightarrow> u8 \<Rightarrow> ('sk, 'pk) handshakeState \<Rightarrow>
    ('sk, 'pk) handshakeState \<Rightarrow> ('sk, 'pk) handshakeState" where
  "after_act mp v hW hX = hX\<lparr>
     version := (if ActNum mp \<in> {1, 2} \<and> initiator hX then v else version hX),
     receivedPayload :=
       (if ActNum mp = 2 then received (version hW) (payloadToSend hW) else receivedPayload hX)\<rparr>"

lemma version_le_2: "(v :: u8) \<le> 2 \<Longrightarrow> v = 0 \<or> v = 1 \<or> v = 2"
proof -
  assume "v \<le> 2"
  then have "unat v \<le> 2" by (simp add: word_le_nat_alt)
  then have "unat v = 0 \<or> unat v = 1 \<or> unat v = 2" by linarith
  then show ?thesis by (auto simp: word_unat_eq_iff)
qed

context message_conn
begin

lemma tokens_sync:
  assumes P: "prims_ok P" and "agree_w P w K hW hX" and "learn_all w toks K = Some K'"
    and "\<forall>i. eph_gen hW i \<noteq> None"
  shows "\<exists>bs hW' hX'. writeTokens P toks hW = Inr (bs, hW') \<and> reads (readTokens P rd toks hX) bs hX' \<and>
    agree_w P w K' hW' hX' \<and> settings hW' = settings hW \<and> settings hX' = settings hX \<and>
    length bs \<le> 49 * length toks"
  using assms(2-)
proof (induction toks arbitrary: K hW hX)
  case Nil
  then show ?case by (auto intro!: exI [of _ hX] reads_return)
next
  case (Cons tok toks)
  from Cons.prems(2) obtain K1 where K1: "learn w tok K = Some K1" "learn_all w toks K1 = Some K'"
    by (auto split: bind_splits)
  obtain b hW1 hX1 where s: "write_token P tok hW = Inr (b, hW1)"
      "reads (read_token P rd tok hX) b hX1" "agree_w P w K1 hW1 hX1"
      "settings hW1 = settings hW" "settings hX1 = settings hX" "length b \<le> 49"
    using token_sync [OF P Cons.prems(1) K1(1) Cons.prems(3)] .
  have g: "\<forall>i. eph_gen hW1 i \<noteq> None" using s(4) Cons.prems(3) by (simp add: settings_def)
  obtain bs hW2 hX2 where t: "writeTokens P toks hW1 = Inr (bs, hW2)"
      "reads (readTokens P rd toks hX1) bs hX2" "agree_w P w K' hW2 hX2"
      "settings hW2 = settings hW1" "settings hX2 = settings hX1" "length bs \<le> 49 * length toks"
    using Cons.IH [OF s(3) K1(2) g] by blast
  have r: "reads (readTokens P rd (tok # toks) hX) (b @ bs) hX2"
    using reads_bind [OF s(2), where f = "readTokens P rd toks", OF t(2)] by simp
  with s t show ?case by (intro exI [of _ "b @ bs"] exI [of _ hW2] exI [of _ hX2]) simp
qed

text \<open>Encrypting at one end, reading and decrypting at the other.\<close>

lemma sealed_sync:
  assumes "prims_ok P" and "agree_w P w K hW hX"
  obtains ct hW' hX' where "EncryptAndHash P m hW = Inr (ct, hW')"
    and "DecryptAndHash P ct hX = Inr (m, hX')"
    and "agree_w P w K hW' hX'" and "settings hW' = settings hW" and "settings hX' = settings hX"
    and "length ct = length m + macSize" and "reads (read_buf rd (length m + macSize)) ct ct"
proof -
  obtain ct hW' hX' where e: "EncryptAndHash P m hW = Inr (ct, hW')"
      "DecryptAndHash P ct hX = Inr (m, hX')" "sym hW' = sym hX'" "keyed hW'"
      "length ct = length m + macSize" "settings hW' = settings hW" "keys hW' = keys hW"
      "settings hX' = settings hX" "keys hX' = keys hX"
    using EncryptAndHash_sync [OF assms(1), of hW hX m] agree_w_sym [OF assms(2)] by blast
  show thesis
    by (rule that [of ct hW' hX'])
      (use e agree_w_transfer [OF assms(2) e(3,4,6,8,7,9)] in \<open>simp_all add: reads_buf macSize_def\<close>)
qed

text \<open>The payload of an act.\<close>

lemma payload_short_sync:
  assumes P: "prims_ok P" and a: "agree_w P w K hW hX" and v: "version hW \<le> 2"
    and n: "ActNum mp \<in> {1, 2, 3}" and short: "ActNum mp \<noteq> 2"
  shows "\<exists>bs hW' hX'. write_payload P mp hW = Inr (bs, hW') \<and>
    reads (if version hW = 0 then read_payload_v0 P rd mp hX else read_payload_v1 P rd mp hX) bs hX' \<and>
    agree_w P w K hW' hX' \<and> settings hW' = settings hW \<and>
    settings hX' = settings (hX\<lparr>receivedPayload :=
      (if ActNum mp = 2 then received (version hW) (payloadToSend hW) else receivedPayload hX)\<rparr>) \<and>
    length bs \<le> 600 + length (auth_bytes (payloadToSend hW))"
proof -
  obtain ct hW' hX' where e: "EncryptAndHash P [] hW = Inr (ct, hW')"
      "DecryptAndHash P ct hX = Inr ([], hX')"
      "agree_w P w K hW' hX'" "settings hW' = settings hW" "settings hX' = settings hX"
      "length ct = macSize" "reads (read_buf rd macSize) ct ct"
    using sealed_sync [OF P a, of "[]"] by (metis add_0 list.size(3))
  have w: "write_payload P mp hW = Inr (ct, hW')"
    using short n version_le_2 [OF v] e(1) by (auto simp: write_payload_def)
  have r0: "reads (read_payload_v0 P rd mp hX) ct hX'"
    unfolding read_payload_v0_def
    by (rule reads_last [where x = ct]) (use short e(7) in \<open>simp_all add: e(2) reads_return\<close>)
  have r1: "reads (read_payload_v1 P rd mp hX) ct hX'"
    unfolding read_payload_v1_def
    by (rule reads_first [where x = "(of_nat macSize, hX)"], use short n in \<open>simp add: reads_return\<close>)
      (use short e(7) in \<open>auto simp: e(2) reads_return macSize_def intro!: reads_last [where x = ct]\<close>)
  show ?thesis
    by (rule exI [of _ ct], rule exI [of _ hW'], rule exI [of _ hX'])
      (use w e short r0 r1 in \<open>simp add: macSize_def settings_def\<close>)
qed

lemma payload_v0_sync:
  assumes P: "prims_ok P" and a: "agree_w P w K hW hX"
    and v0: "ActNum mp = 2" "version hW = 0"
  shows "\<exists>bs hW' hX'. write_payload P mp hW = Inr (bs, hW') \<and>
    reads (if version hW = 0 then read_payload_v0 P rd mp hX else read_payload_v1 P rd mp hX) bs hX' \<and>
    agree_w P w K hW' hX' \<and> settings hW' = settings hW \<and>
    settings hX' = settings (hX\<lparr>receivedPayload :=
      (if ActNum mp = 2 then received (version hW) (payloadToSend hW) else receivedPayload hX)\<rparr>) \<and>
    length bs \<le> 600 + length (auth_bytes (payloadToSend hW))"
proof -
  let ?d = "payloadToSend hW"
  obtain ct hW' hX' where e: "EncryptAndHash P (v0_payload ?d) hW = Inr (ct, hW')"
      "DecryptAndHash P ct hX = Inr (v0_payload ?d, hX')"
      "agree_w P w K hW' hX'" "settings hW' = settings hW" "settings hX' = settings hX"
      "length ct = 500 + macSize" "reads (read_buf rd (500 + macSize)) ct ct"
    using sealed_sync [OF P a, of "v0_payload ?d"] by (metis length_v0_payload)
  let ?X = "hX'\<lparr>receivedPayload := received 0 ?d\<rparr>"
  have ne: "v0_payload ?d \<noteq> []" "drop 2 (v0_payload ?d) \<noteq> []"
    using length_v0_payload [of ?d] by (metis list.size(3) zero_neq_numeral, simp)
  have r0: "reads (read_payload_v0 P rd mp hX) ct ?X"
    unfolding read_payload_v0_def
    by (rule reads_last [where x = ct]) (use v0 e(7) ne in \<open>simp_all add: e(2) reads_return ActTwoPayloadSize_def
        lengthHeaderSize_def received_def Let_def\<close>)
  have w: "write_payload P mp hW = Inr (ct, hW')"
    using v0 e(1) by (simp add: write_payload_def)
  show ?thesis
    by (rule exI [of _ ct], rule exI [of _ hW'], rule exI [of _ ?X])
      (use w v0 e agree_w_received [OF e(3)] settings_received [OF e(5)] r0 in \<open>simp add: macSize_def\<close>)
qed

lemma payload_v1_sync:
  assumes P: "prims_ok P" and a: "agree_w P w K hW hX"
    and v1: "ActNum mp = 2" "version hW = 1 \<or> version hW = 2"
    and l: "length (auth_bytes (payloadToSend hW)) < MaxInt32"
  shows "\<exists>bs hW' hX'. write_payload P mp hW = Inr (bs, hW') \<and>
    reads (if version hW = 0 then read_payload_v0 P rd mp hX else read_payload_v1 P rd mp hX) bs hX' \<and>
    agree_w P w K hW' hX' \<and> settings hW' = settings hW \<and>
    settings hX' = settings (hX\<lparr>receivedPayload :=
      (if ActNum mp = 2 then received (version hW) (payloadToSend hW) else receivedPayload hX)\<rparr>) \<and>
    length bs \<le> 600 + length (auth_bytes (payloadToSend hW))"
proof -
  let ?d = "payloadToSend hW"
  let ?a = "auth_bytes ?d"
  let ?len = "of_nat (length ?a) :: u32"
  have v: "version hW \<noteq> 0" using v1 by auto
  obtain c1 hW1 hX1 where e: "EncryptAndHash P (put_u32 ?len) hW = Inr (c1, hW1)"
      "DecryptAndHash P c1 hX = Inr (put_u32 ?len, hX1)"
      "agree_w P w K hW1 hX1" "settings hW1 = settings hW" "settings hX1 = settings hX"
      "length c1 = 4 + macSize" "reads (read_buf rd (4 + macSize)) c1 c1"
    using sealed_sync [OF P a, of "put_u32 ?len"] by (metis length_put_u32)
  obtain c2 hW2 hX2 where e2: "EncryptAndHash P ?a hW1 = Inr (c2, hW2)"
      "DecryptAndHash P c2 hX1 = Inr (?a, hX2)"
      "agree_w P w K hW2 hX2" "settings hW2 = settings hW1" "settings hX2 = settings hX1"
      "length c2 = length ?a + macSize" "reads (read_buf rd (length ?a + macSize)) c2 c2"
    using sealed_sync [OF P e(3), of ?a] by metis
  let ?X = "hX2\<lparr>receivedPayload := ?a\<rparr>"
  from l have "unat (of_nat macSize + ?len) = length ?a + macSize"
    by (simp add: MaxInt32_def macSize_def unat_word_ariths unat_of_nat take_bit_eq_mod)
  then have sz: "unat (of_nat macSize + get_u32 (put_u32 ?len)) = length ?a + macSize"
    using get_put_u32 [of ?len "[]"] by simp
  have r1: "reads (read_payload_v1 P rd mp hX) (c1 @ c2) ?X"
    unfolding read_payload_v1_def
  proof (rule reads_bind)
    show "reads (if ActNum mp = 1 \<or> ActNum mp = 3 then io_return (of_nat macSize, hX)
      else if ActNum mp = 2 then io_bind (read_buf rd (4 + macSize)) (\<lambda>hdr.
        io_bind (io_lift (DecryptAndHash P hdr hX)) (\<lambda>(pktLen, h1).
          if length pktLen < 4 then io_fail ErrPanic
          else io_return (of_nat macSize + get_u32 pktLen, h1)))
      else io_fail (ErrUnknownAct (ActNum mp))) c1
      (of_nat macSize + get_u32 (put_u32 ?len), hX1)"
      unfolding v1 if_False if_True by (simp, rule reads_last [OF e(7)]) (simp add: e(2) reads_return)
    show "reads ((\<lambda>(payloadSize, h1). io_bind (read_buf rd (unat payloadSize)) (\<lambda>ct.
        io_bind (io_lift (DecryptAndHash P ct h1)) (\<lambda>(authData, h2).
          io_return (if ActNum mp = 2 then h2\<lparr>receivedPayload := authData\<rparr> else h2))))
        (of_nat macSize + get_u32 (put_u32 ?len), hX1)) c2 ?X"
      unfolding prod.case sz by (rule reads_last [OF e2(7)]) (simp add: v1 e2(2) reads_return)
  qed
  have w: "write_payload P mp hW = Inr (c1 @ c2, hW2)"
    using v1 v e(1) e2(1) l
    by (simp add: write_payload_def auth_bytes_def [symmetric] Let_def)
  show ?thesis
    by (rule exI [of _ "c1 @ c2"], rule exI [of _ hW2], rule exI [of _ ?X])
      (use w v v1 e e2 agree_w_received [OF e2(3)] settings_received [of hX2 hX ?a] r1 in \<open>simp add: macSize_def received_def\<close>)
qed

lemma payload_sync:
  assumes P: "prims_ok P" and a: "agree_w P w K hW hX" and v: "version hW \<le> 2"
    and n: "ActNum mp \<in> {1, 2, 3}"
    and l: "ActNum mp = 2 \<and> version hW \<noteq> 0 \<longrightarrow> length (auth_bytes (payloadToSend hW)) < MaxInt32"
  shows "\<exists>bs hW' hX'. write_payload P mp hW = Inr (bs, hW') \<and>
    reads (if version hW = 0 then read_payload_v0 P rd mp hX else read_payload_v1 P rd mp hX) bs hX' \<and>
    agree_w P w K hW' hX' \<and> settings hW' = settings hW \<and>
    settings hX' = settings (hX\<lparr>receivedPayload :=
      (if ActNum mp = 2 then received (version hW) (payloadToSend hW) else receivedPayload hX)\<rparr>) \<and>
    length bs \<le> 600 + length (auth_bytes (payloadToSend hW))"
proof -
  consider (short) "ActNum mp \<noteq> 2" | (v0) "ActNum mp = 2" "version hW = 0"
    | (v1) "ActNum mp = 2" "version hW = 1 \<or> version hW = 2"
    using version_le_2 [OF v] by blast
  then show ?thesis
  proof cases
    case short
    then show ?thesis by (rule payload_short_sync [OF P a v n])
  next
    case v0
    then show ?thesis by (rule payload_v0_sync [OF P a])
  next
    case v1
    have "version hW \<noteq> 0" using v1(2) by auto
    with l v1(1) have "length (auth_bytes (payloadToSend hW)) < MaxInt32" by blast
    with v1 show ?thesis by (intro payload_v1_sync [OF P a])
  qed
qed

text \<open>
  A whole act: the writer's message takes the reader to a state in agreement, also when its
  version byte arrives changed.
\<close>

lemma act_sync:
  assumes P: "prims_ok P" and a: "agree_w P (mp_Initiator mp) K hW hX"
    and k: "learn_all (mp_Initiator mp) (Tokens mp) K = Some K'"
    and g: "\<forall>i. eph_gen hW i \<noteq> None" and ok: "act_ok mp v hW hX"
    and l: "700 + 49 * length (Tokens mp) + length (auth_bytes (payloadToSend hW)) < lim"
  obtains m hW' hX' where
    "\<And>c. \<exists>c'. writeMsgPattern P wr mp hW c = (Inr hW', c') \<and>
       outbox c' = outbox c @ [version hW # m] \<and>
       inbox c' = inbox c \<and> buf c' = buf c"
    and "\<And>c ms. buf c = [] \<Longrightarrow> inbox c = (v # m) # ms \<Longrightarrow>
       \<exists>c'. readMsgPattern P rd mp hX c = (Inr hX', c') \<and> buf c' = [] \<and> inbox c' = ms \<and>
         outbox c' = outbox c"
    and "agree_w P (mp_Initiator mp) K' hW' hX'" and "settings hW' = settings hW"
    and "settings hX' = settings (after_act mp v hW hX)"
proof -
  let ?w = "mp_Initiator mp" and ?v = "version hW"
  let ?X = "hX\<lparr>version := (if ActNum mp \<in> {1, 2} \<and> initiator hX then v else version hX)\<rparr>"
  have chk: "check_version mp v hX = Inr ?X"
    using ok by (auto simp: act_ok_def check_version_def not_less)
  have aX: "agree_w P ?w K hW ?X" using a by (rule agree_w_version)
  obtain tb hW1 hX1 where t: "writeTokens P (Tokens mp) hW = Inr (tb, hW1)"
      "reads (readTokens P rd (Tokens mp) ?X) tb hX1" "agree_w P ?w K' hW1 hX1"
      "settings hW1 = settings hW" "settings hX1 = settings ?X" "length tb \<le> 49 * length (Tokens mp)"
    using tokens_sync [OF P aX k g] by blast
  have s1: "version hW1 = ?v" "payloadToSend hW1 = payloadToSend hW"
    using t(4) by (simp_all add: settings_def)
  have ok1: "version hW1 \<le> 2" "ActNum mp \<in> {1, 2, 3}"
      "ActNum mp = 2 \<and> version hW1 \<noteq> 0 \<longrightarrow> length (auth_bytes (payloadToSend hW1)) < MaxInt32"
    using ok s1 by (auto simp: act_ok_def)
  obtain pb hW2 hX2 where p: "write_payload P mp hW1 = Inr (pb, hW2)"
      "reads (if ?v = 0 then read_payload_v0 P rd mp hX1 else read_payload_v1 P rd mp hX1) pb hX2"
      "agree_w P ?w K' hW2 hX2" "settings hW2 = settings hW1"
      "settings hX2 = settings (hX1\<lparr>receivedPayload := (if ActNum mp = 2
         then received ?v (payloadToSend hW) else receivedPayload hX1)\<rparr>)"
      "length pb \<le> 600 + length (auth_bytes (payloadToSend hW))"
    using payload_sync [OF P t(3) ok1] unfolding s1 by blast
  let ?m = "tb @ pb"
  have lm: "length (?v # ?m) < lim" using l t(6) p(6) by simp
  have wr: "\<exists>c'. writeMsgPattern P wr mp hW c = (Inr hW2, c') \<and> outbox c' = outbox c @ [?v # ?m] \<and>
      inbox c' = inbox c \<and> buf c' = buf c" for c
  proof -
    obtain c' where "write_buf wr (?v # ?m) c = (Inr (), c')" "outbox c' = outbox c @ [?v # ?m]"
        "inbox c' = inbox c" "buf c' = buf c"
      using write_buf_msg [OF lm, of c] .
    then show ?thesis by (simp add: writeMsgPattern_def t(1) p(1) io_bind_Inr io_apply)
  qed
  have v: "v = 0 \<or> v = 1 \<or> v = 2" "v = 0 \<longleftrightarrow> ?v = 0"
    using version_le_2 [of v] ok by (auto simp: act_ok_def)
  let ?f = "\<lambda>vb. let v = vb ! 0 in io_bind (io_lift (check_version mp v hX)) (\<lambda>h1.
      io_bind (readTokens P rd (Tokens mp) h1) (\<lambda>h2.
        if v = 0 then read_payload_v0 P rd mp h2
        else if v = 1 \<or> v = 2 then read_payload_v1 P rd mp h2
        else io_fail (ErrUnknownVersion (version h2))))"
  have "reads (io_bind (readTokens P rd (Tokens mp) ?X) (\<lambda>h2.
      if v = 0 then read_payload_v0 P rd mp h2 else if v = 1 \<or> v = 2
      then read_payload_v1 P rd mp h2 else io_fail (ErrUnknownVersion (version h2)))) (tb @ pb) hX2"
    by (rule reads_bind [OF t(2)]) (use p(2) v in \<open>auto split: if_splits\<close>)
  then have f: "reads (?f [v]) (tb @ pb) hX2" by (simp add: chk Let_def)
  have rd: "\<exists>c'. readMsgPattern P rd mp hX c = (Inr hX2, c') \<and> buf c' = [] \<and> inbox c' = ms \<and>
      outbox c' = outbox c" if "buf c = []" "inbox c = (v # ?m) # ms" for c ms
    using reads_message [OF that, where f = ?f, OF f] unfolding readMsgPattern_def by blast
  have sX: "settings hX2 = settings (after_act mp v hW hX)"
    using p(5) t(5) by (auto simp: settings_def after_act_def)
  show thesis
    by (rule that [OF wr rd p(3)]) (use p(4) t(4) sX in simp_all)
qed

end

end
