(* ===== verification/Mailbox_ConnData.thy ===== *)
theory Mailbox_ConnData
  imports Mailbox_Interface Noise_Handshake
begin

section \<open>Connection data and stream ids (mailbox/conndata.go)\<close>

text \<open>
  \<^verbatim>\<open>ConnData\<close> holds the keys and secrets of a session, decides which handshake pattern to use
  and derives the stream ids. The object is shared between the owner of a connection and the
  noise machine; an operation that changes it is a computation on its state.
\<close>

subsection \<open>ConnData\<close>

text \<open>The callbacks may be nil; a callback returns an error or nothing.\<close>

record ('sk, 'pk) ConnData =
  cd_localKey :: 'sk
  cd_remoteKey :: "'pk option"
  cd_passphraseEntropy :: bytes
  cd_authData :: "bytes option"
  onRemoteStatic :: "('pk option \<Rightarrow> go_error option) option"
  onAuthData :: "(bytes \<Rightarrow> go_error option) option"

definition NewConnData :: "'sk \<Rightarrow> 'pk option \<Rightarrow> bytes \<Rightarrow> bytes option \<Rightarrow>
    ('pk option \<Rightarrow> go_error option) option \<Rightarrow> (bytes \<Rightarrow> go_error option) option \<Rightarrow>
    ('sk, 'pk) ConnData" where
  "NewConnData lk rk pw auth onR onA = \<lparr>cd_localKey = lk, cd_remoteKey = rk,
     cd_passphraseEntropy = pw, cd_authData = auth, onRemoteStatic = onR, onAuthData = onA\<rparr>"

text \<open>A nil callback, or the result of calling it.\<close>

definition call_back :: "('x \<Rightarrow> go_error option) option \<Rightarrow> 'x \<Rightarrow> go_error option" where
  "call_back f x = (case f of None \<Rightarrow> None | Some g \<Rightarrow> g x)"

definition SetRemote :: "'pk option \<Rightarrow> (('sk, 'pk) ConnData, unit) io" where
  "SetRemote key d =
     (case call_back (onRemoteStatic d) key of
        Some e \<Rightarrow> (Inl e, d)
      | None \<Rightarrow> (Inr (), d\<lparr>cd_remoteKey := key\<rparr>))"

definition SetAuthData :: "bytes \<Rightarrow> (('sk, 'pk) ConnData, unit) io" where
  "SetAuthData data d =
     (case call_back (onAuthData d) data of
        Some e \<Rightarrow> (Inl e, d)
      | None \<Rightarrow> (Inr (), d\<lparr>cd_authData := Some data\<rparr>))"

definition ConnData_HandshakePattern :: "('sk, 'pk) ConnData \<Rightarrow> HandshakePattern" where
  "ConnData_HandshakePattern d = (if cd_remoteKey d = None then XXPattern else KKPattern)"

subsection \<open>Stream ids\<close>

text \<open>\<^verbatim>\<open>hmac256\<close>: HMAC over SHA-256, whose blocks have 64 bytes.\<close>

definition hmac256 :: "('sk, 'pk) prims \<Rightarrow> bytes \<Rightarrow> bytes \<Rightarrow> bytes" where
  "hmac256 P key message =
     (let k = take 64 ((if 64 < length key then sha256 P key else key) @ replicate 64 0)
      in sha256 P (map (\<lambda>b. b XOR 0x5C) k @ sha256 P (map (\<lambda>b. b XOR 0x36) k @ message)))"

definition SID :: "('sk, 'pk) prims \<Rightarrow> ('sk, 'pk) ConnData \<Rightarrow> go_error + bytes" where
  "SID P d =
     (case cd_remoteKey d of
        None \<Rightarrow> Inr (sha512 P (cd_passphraseEntropy d))
      | Some r \<Rightarrow>
          ebind (ecdh P (Some r) (Some (cd_localKey d))) (\<lambda>hash.
            Inr (sha512 P (hmac256 P hash (str_bytes ''mailbox'')))))"

text \<open>
  The streams of the two ends: \<^verbatim>\<open>NewClientConn\<close> receives on the first id and sends on the
  second, \<^verbatim>\<open>NewServerConn\<close> the other way round.
\<close>

definition client_streams :: "bytes \<Rightarrow> bytes \<times> bytes" where
  "client_streams sid = (GetSID sid True, GetSID sid False)"

definition server_streams :: "bytes \<Rightarrow> bytes \<times> bytes" where
  "server_streams sid = (GetSID sid False, GetSID sid True)"

text \<open>
  The two ends of a session: unpaired with the same passphrase, or paired with each other's
  static key.
\<close>

definition peers :: "('sk, 'pk) prims \<Rightarrow> ('sk, 'pk) ConnData \<Rightarrow> ('sk, 'pk) ConnData \<Rightarrow> bool" where
  "peers P c s \<longleftrightarrow>
     cd_remoteKey c = None \<and> cd_remoteKey s = None \<and> cd_passphraseEntropy c = cd_passphraseEntropy s \<or>
     cd_remoteKey c = Some (ec_pub P (cd_localKey s)) \<and> cd_remoteKey s = Some (ec_pub P (cd_localKey c))"

lemma SID_agree:
  assumes "prims_ok P" and "peers P c s"
  obtains sid where "SID P c = Inr sid" and "SID P s = Inr sid" and "length sid = 64"
proof -
  obtain z where "ec_dh P (cd_localKey c) (ec_pub P (cd_localKey s)) = Some z"
      "ec_dh P (cd_localKey s) (ec_pub P (cd_localKey c)) = Some z"
    using prims_okD(3,4) [OF assms(1)] by metis
  then show ?thesis
    using assms(2) prims_okD(8) [OF assms(1)] that unfolding peers_def
    by (auto simp: SID_def ecdh_def)
qed

text \<open>
  Client and server meet on the mailbox. With the same passphrase before they are paired,
  and with each other's static key afterwards, they derive the same id; the client receives on
  the stream the server sends on and the other way round, and the two streams differ.
\<close>

theorem stream_ids_match:
  assumes "prims_ok P"
    and "peers P c s"
  shows "\<exists>sid. SID P c = Inr sid \<and> SID P s = Inr sid \<and> length sid = 64 \<and>
    fst (client_streams sid) = snd (server_streams sid) \<and>
    snd (client_streams sid) = fst (server_streams sid) \<and>
    fst (client_streams sid) \<noteq> snd (client_streams sid)"
proof -
  obtain sid where sid: "SID P c = Inr sid" "SID P s = Inr sid" "length sid = 64"
    using SID_agree [OF assms] by blast
  then show ?thesis
    using GetSID_distinct [OF sid(3)] by (auto simp: client_streams_def server_streams_def)
qed

end
