(* ===== verification/Mailbox_Session.thy ===== *)
theory Mailbox_Session
  imports Mailbox_Transfer Mailbox_ConnData
begin

section \<open>Sessions over the mailbox (mailbox/client.go, mailbox/server.go)\<close>

text \<open>
  \<^verbatim>\<open>Client\<close> and \<^verbatim>\<open>Server\<close> own the mailbox connection of a session. They hand out one
  connection at a time, refresh it when the peer reconnects and move to other mailboxes once
  the two parties are paired. Parameters of the operations are
  \<^item> \<open>hs\<close>, the result of the gbn handshake that the constructors of gbn wait for;
  \<^item> \<open>gclose\<close>, \<^verbatim>\<open>GoBackNConn.Close\<close>;
  \<^item> \<open>newQuit\<close>, the world with the quit channel of a new connection;
  \<^item> \<open>dialErr\<close>, the error of \<^verbatim>\<open>grpc.Dial\<close>.
  An operation that waits for another goroutine has no result: \<open>None\<close>.
\<close>

subsection \<open>Client\<close>

text \<open>
  The status is kept by the callback that \<^verbatim>\<open>Dial\<close> gives to the connection, the world of
  \<open>client_status\<close>. \<open>cl_grpc\<close> tells whether \<^verbatim>\<open>grpcClient\<close> is set.
\<close>

record ('sk, 'pk) Client =
  cl_serverHost :: string
  cl_connData :: "('sk, 'pk) ConnData"
  cl_mailboxConn :: "ClientConn option"
  cl_grpc :: bool
  cl_sid :: bytes

text \<open>\<^verbatim>\<open>temporaryError\<close> tells gRPC to try again.\<close>

datatype session_error = SessionErr go_error | TemporaryErr gbn_error | SessionEOF

fun Temporary :: "session_error \<Rightarrow> bool" where
  "Temporary (TemporaryErr e) = True"
| "Temporary e = False"

definition WithGrpcConn :: "('sk, 'pk) Client \<Rightarrow> ('sk, 'pk) Client" where
  "WithGrpcConn c = c\<lparr>cl_grpc := True\<rparr>"

definition NewClient :: "('sk, 'pk) prims \<Rightarrow> string \<Rightarrow> ('sk, 'pk) ConnData \<Rightarrow>
    (('sk, 'pk) Client \<Rightarrow> ('sk, 'pk) Client) list \<Rightarrow> go_error + ('sk, 'pk) Client" where
  "NewClient P serverHost connData opts =
     ebind (SID P connData) (\<lambda>sid.
       Inr (fold (\<lambda>opt c. opt c) opts
         \<lparr>cl_serverHost = serverHost, cl_connData = connData, cl_mailboxConn = None, cl_grpc = False,
          cl_sid = sid\<rparr>))"

definition NewGrpcClient :: "('sk, 'pk) prims \<Rightarrow> go_error option \<Rightarrow> string \<Rightarrow> ('sk, 'pk) ConnData \<Rightarrow>
    go_error + ('sk, 'pk) Client" where
  "NewGrpcClient P dialErr serverHost connData =
     (case dialErr of
        Some e \<Rightarrow> Inl (ErrWrap ''unable to connect to RPC server'' e)
      | None \<Rightarrow> NewClient P serverHost connData [WithGrpcConn])"

definition NewWebsocketsClient :: "('sk, 'pk) prims \<Rightarrow> string \<Rightarrow> ('sk, 'pk) ConnData \<Rightarrow>
    go_error + ('sk, 'pk) Client" where
  "NewWebsocketsClient P serverHost connData = NewClient P serverHost connData []"

text \<open>The constructor of gbn returns once its handshake has ended.\<close>

definition client_connected :: "(endpoint \<Rightarrow> gbn_error + endpoint) \<Rightarrow> gbn_error + ClientConn \<Rightarrow>
    gbn_error + ClientConn" where
  "client_connected hs r =
     (case r of
        Inl e \<Rightarrow> Inl e
      | Inr m \<Rightarrow> (case hs (c_gbnConn m) of Inl e \<Rightarrow> Inl e | Inr g \<Rightarrow> Inr (m\<lparr>c_gbnConn := g\<rparr>)))"

definition drop_client_conn :: "'w env \<Rightarrow> (endpoint \<Rightarrow> rpc_error option \<times> endpoint) \<Rightarrow> bool \<Rightarrow>
    ClientConn option \<Rightarrow> 'w \<Rightarrow> ClientConn option \<times> 'w" where
  "drop_client_conn E gclose changed mb s =
     (case mb of
        None \<Rightarrow> (None, s)
      | Some m \<Rightarrow> if changed then (None, snd (snd (ClientConn_Close E gclose m s))) else (Some m, s))"

definition Client_Dial :: "('sk, 'pk) prims \<Rightarrow> 'w env \<Rightarrow> (endpoint \<Rightarrow> rpc_error option \<times> endpoint) \<Rightarrow>
    ('w \<Rightarrow> 'w) \<Rightarrow> (endpoint \<Rightarrow> gbn_error + endpoint) \<Rightarrow> ('sk, 'pk) Client \<Rightarrow> 'w \<Rightarrow>
    ((session_error + ClientConn) \<times> ('sk, 'pk) Client \<times> 'w) option" where
  "Client_Dial P E gclose newQuit hs c s =
     (if (case cl_mailboxConn c of None \<Rightarrow> False | Some m \<Rightarrow> \<not> c_closed m) then None
      else Some (
        case SID P (cl_connData c) of
          Inl e \<Rightarrow> (Inl (SessionErr e), c, s)
        | Inr sid \<Rightarrow>
            let (mb, s1) = drop_client_conn E gclose (cl_sid c \<noteq> sid) (cl_mailboxConn c) s;
                c1 = c\<lparr>cl_mailboxConn := mb, cl_sid := sid\<rparr>
            in case client_connected hs
                   (case mb of
                      None \<Rightarrow> mailbox_NewClientConn sid (cl_serverHost c) (cl_grpc c)
                    | Some m \<Rightarrow> RefreshClientConn m) of
                 Inl e \<Rightarrow> (Inl (TemporaryErr e), c1, newQuit s1)
               | Inr m \<Rightarrow> (Inr m, c1\<lparr>cl_mailboxConn := Some m\<rparr>, newQuit s1)))"

subsection \<open>Server\<close>

record ('sk, 'pk) Server =
  sv_serverHost :: string
  sv_connData :: "('sk, 'pk) ConnData"
  sv_mailboxConn :: "ServerConn option"
  sv_sid :: bytes
  sv_quit :: bool
  sv_cancelled :: bool

definition NewServer :: "('sk, 'pk) prims \<Rightarrow> go_error option \<Rightarrow> string \<Rightarrow> ('sk, 'pk) ConnData \<Rightarrow>
    go_error + ('sk, 'pk) Server" where
  "NewServer P dialErr serverHost connData =
     (case dialErr of
        Some e \<Rightarrow> Inl (ErrWrap ''unable to connect to RPC server'' e)
      | None \<Rightarrow> ebind (SID P connData) (\<lambda>sid.
          Inr \<lparr>sv_serverHost = serverHost, sv_connData = connData, sv_mailboxConn = None, sv_sid = sid,
               sv_quit = False, sv_cancelled = False\<rparr>))"

definition server_connected :: "(endpoint \<Rightarrow> gbn_error + endpoint) \<Rightarrow> ServerConn \<Rightarrow> gbn_error + ServerConn" where
  "server_connected hs m =
     (case hs (s_gbnConn m) of Inl e \<Rightarrow> Inl e | Inr g \<Rightarrow> Inr (m\<lparr>s_gbnConn := g\<rparr>))"

definition drop_server_conn :: "'w env \<Rightarrow> (endpoint \<Rightarrow> rpc_error option \<times> endpoint) \<Rightarrow> bool \<Rightarrow>
    ServerConn option \<Rightarrow> 'w \<Rightarrow> ServerConn option \<times> 'w" where
  "drop_server_conn E gclose changed mb s =
     (case mb of
        None \<Rightarrow> (None, s)
      | Some m \<Rightarrow> if changed then (None, snd (snd (ServerConn_Stop E gclose m s))) else (Some m, s))"

text \<open>\<open>pickQuit\<close> is the choice of the select when both of its channels are closed.\<close>

definition Server_Accept :: "('sk, 'pk) prims \<Rightarrow> 'w env \<Rightarrow> (endpoint \<Rightarrow> rpc_error option \<times> endpoint) \<Rightarrow>
    ('w \<Rightarrow> 'w) \<Rightarrow> (endpoint \<Rightarrow> gbn_error + endpoint) \<Rightarrow> bool \<Rightarrow> ('sk, 'pk) Server \<Rightarrow> 'w \<Rightarrow>
    ((session_error + ServerConn) \<times> ('sk, 'pk) Server \<times> 'w) option" where
  "Server_Accept P E gclose newQuit hs pickQuit v s =
     (let busy = (case sv_mailboxConn v of None \<Rightarrow> False | Some m \<Rightarrow> \<not> s_closed m) in
      if sv_cancelled v \<or> sv_mailboxConn v \<noteq> None \<and> sv_quit v \<and> (busy \<or> pickQuit)
      then Some (Inl SessionEOF, v, s)
      else if busy then None
      else Some (
        case SID P (sv_connData v) of
          Inl e \<Rightarrow> (Inl (SessionErr e), v, s)
        | Inr sid \<Rightarrow>
            let (mb, s1) = drop_server_conn E gclose (sv_sid v \<noteq> sid) (sv_mailboxConn v) s;
                v1 = v\<lparr>sv_mailboxConn := mb, sv_sid := sid\<rparr>
            in case server_connected hs
                   (case mb of
                      None \<Rightarrow> mailbox_NewServerConn sid (sv_serverHost v)
                    | Some m \<Rightarrow> RefreshServerConn m) of
                 Inl e \<Rightarrow> (Inl (TemporaryErr e), v1, newQuit s1)
               | Inr m \<Rightarrow> (Inr m, v1\<lparr>sv_mailboxConn := Some m\<rparr>, newQuit s1)))"

text \<open>Closing the quit channel a second time panics: \<open>None\<close>.\<close>

definition Server_Close :: "'w env \<Rightarrow> (endpoint \<Rightarrow> rpc_error option \<times> endpoint) \<Rightarrow> ('sk, 'pk) Server \<Rightarrow> 'w \<Rightarrow>
    (('sk, 'pk) Server \<times> 'w) option" where
  "Server_Close E gclose v s =
     (if sv_quit v then None
      else
        let v1 = v\<lparr>sv_quit := True\<rparr>;
            (v2, s1) = (case sv_mailboxConn v1 of
                None \<Rightarrow> (v1, s)
              | Some m \<Rightarrow> (case ServerConn_Stop E gclose m s of (_, m', s') \<Rightarrow> (v1\<lparr>sv_mailboxConn := Some m'\<rparr>, s')))
        in Some (v2\<lparr>sv_cancelled := True\<rparr>, s1))"

subsection \<open>The life of a session\<close>

text \<open>
  What happens to a \<^verbatim>\<open>Client\<close>: gRPC dials, sends and receives on the connection it was given
  and closes it; the noise handshake stores the key and the auth data of the peer.
\<close>

inductive client_step :: "('sk, 'pk) prims \<Rightarrow> 'w env \<Rightarrow> (endpoint \<Rightarrow> rpc_error option \<times> endpoint) \<Rightarrow> ('w \<Rightarrow> 'w) \<Rightarrow>
    ('sk, 'pk) Client \<times> 'w \<Rightarrow> ('sk, 'pk) Client \<times> 'w \<Rightarrow> bool"
  for P E gclose newQuit where
  cl_dial: "Client_Dial P E gclose newQuit hs c s = Some (r, c', s') \<Longrightarrow>
     client_step P E gclose newQuit (c, s) (c', s')"
| cl_recv: "cl_mailboxConn c = Some m \<Longrightarrow> client_recv E m s = Some (r, m', s') \<Longrightarrow>
     client_step P E gclose newQuit (c, s) (c\<lparr>cl_mailboxConn := Some m'\<rparr>, s')"
| cl_send: "cl_mailboxConn c = Some m \<Longrightarrow> client_send E p m s = Some (q, m', s') \<Longrightarrow>
     client_step P E gclose newQuit (c, s) (c\<lparr>cl_mailboxConn := Some m'\<rparr>, s')"
| cl_close: "cl_mailboxConn c = Some m \<Longrightarrow> ClientConn_Close E gclose m s = (e, m', s') \<Longrightarrow>
     client_step P E gclose newQuit (c, s) (c\<lparr>cl_mailboxConn := Some m'\<rparr>, s')"
| cl_remote: "SetRemote key (cl_connData c) = (u, d) \<Longrightarrow>
     client_step P E gclose newQuit (c, s) (c\<lparr>cl_connData := d\<rparr>, s)"
| cl_auth: "SetAuthData a (cl_connData c) = (u, d) \<Longrightarrow>
     client_step P E gclose newQuit (c, s) (c\<lparr>cl_connData := d\<rparr>, s)"

inductive server_step :: "('sk, 'pk) prims \<Rightarrow> 'w env \<Rightarrow> (endpoint \<Rightarrow> rpc_error option \<times> endpoint) \<Rightarrow> ('w \<Rightarrow> 'w) \<Rightarrow>
    ('sk, 'pk) Server \<times> 'w \<Rightarrow> ('sk, 'pk) Server \<times> 'w \<Rightarrow> bool"
  for P E gclose newQuit where
  sv_accept: "Server_Accept P E gclose newQuit hs pick v s = Some (r, v', s') \<Longrightarrow>
     server_step P E gclose newQuit (v, s) (v', s')"
| sv_recv: "sv_mailboxConn v = Some m \<Longrightarrow> recvFromStream E m s = Some (r, m', s') \<Longrightarrow>
     server_step P E gclose newQuit (v, s) (v\<lparr>sv_mailboxConn := Some m'\<rparr>, s')"
| sv_send: "sv_mailboxConn v = Some m \<Longrightarrow> sendToStream E p m s = Some (q, m', s') \<Longrightarrow>
     server_step P E gclose newQuit (v, s) (v\<lparr>sv_mailboxConn := Some m'\<rparr>, s')"
| sv_conn_close: "sv_mailboxConn v = Some m \<Longrightarrow> ServerConn_Close E gclose m s = (e, m', s') \<Longrightarrow>
     server_step P E gclose newQuit (v, s) (v\<lparr>sv_mailboxConn := Some m'\<rparr>, s')"
| sv_close: "Server_Close E gclose v s = Some (v', s') \<Longrightarrow> server_step P E gclose newQuit (v, s) (v', s')"
| sv_remote: "SetRemote key (sv_connData v) = (u, d) \<Longrightarrow>
     server_step P E gclose newQuit (v, s) (v\<lparr>sv_connData := d\<rparr>, s)"

text \<open>
  Well-formed sessions: the connection belongs to the host and uses the mailboxes of the
  session id, which has 64 bytes.
\<close>

definition client_info :: "string \<Rightarrow> bytes \<Rightarrow> mailboxInfo" where
  "client_info host sid = \<lparr>mi_addr = host, mi_recvSID = GetSID sid True, mi_sendSID = GetSID sid False\<rparr>"

definition client_wf :: "'w env \<Rightarrow> string \<Rightarrow> ('sk, 'pk) Client \<Rightarrow> bool" where
  "client_wf E host c \<longleftrightarrow> length (cl_sid c) = 64 \<and> cl_serverHost c = host \<and>
     pred_option (client_inv (client_info host (cl_sid c)) E) (cl_mailboxConn c)"

definition server_wf :: "'w env \<Rightarrow> string \<Rightarrow> ('sk, 'pk) Server \<Rightarrow> bool" where
  "server_wf E host v \<longleftrightarrow> length (sv_sid v) = 64 \<and> sv_serverHost v = host \<and>
     pred_option (server_inv (GetSID (sv_sid v) False) (GetSID (sv_sid v) True) E) (sv_mailboxConn v)"

lemma SID_length: "prims_ok P \<Longrightarrow> SID P d = Inr sid \<Longrightarrow> length sid = 64"
  using prims_okD(8) [of P] by (auto simp: SID_def ecdh_def ebind_def split: option.splits sum.splits)

lemma client_connected_inv:
  assumes "client_connected hs r = Inr m" and "\<And>m0. r = Inr m0 \<Longrightarrow> client_inv info E m0 \<and> \<not> c_closed m0"
  shows "client_inv info E m \<and> \<not> c_closed m"
  using assms by (auto simp: client_connected_def client_inv_def split: sum.splits)

lemma server_connected_inv:
  assumes "server_connected hs m0 = Inr m" and "server_inv rsid ssid E m0 \<and> \<not> s_closed m0"
  shows "server_inv rsid ssid E m \<and> \<not> s_closed m"
  using assms by (auto simp: server_connected_def server_inv_def split: sum.splits)

lemma new_client_open: "mailbox_NewClientConn sid host grpc = Inr m \<Longrightarrow> \<not> c_closed m"
  by (auto simp: mailbox_NewClientConn_def Let_def split: sum.splits)

lemma refresh_client_open: "RefreshClientConn c = Inr m \<Longrightarrow> \<not> c_closed m"
  by (auto simp: RefreshClientConn_def split: sum.splits)

lemma drop_client_conn_inv:
  assumes "drop_client_conn E gclose (old \<noteq> sid) mb s = (mb', s')"
    and "pred_option (client_inv (client_info host old) E) mb"
  shows "pred_option (client_inv (client_info host sid) E) mb'"
  using assms by (auto simp: drop_client_conn_def split: option.splits if_splits)

lemma drop_server_conn_inv:
  assumes "drop_server_conn E gclose (old \<noteq> sid) mb s = (mb', s')"
    and "pred_option (server_inv (GetSID old False) (GetSID old True) E) mb"
  shows "pred_option (server_inv (GetSID sid False) (GetSID sid True) E) mb'"
  using assms by (auto simp: drop_server_conn_def split: option.splits if_splits)

text \<open>\<^verbatim>\<open>Dial\<close> and \<^verbatim>\<open>Accept\<close>: the cases of their results.\<close>

lemma Client_Dial_cases:
  assumes "Client_Dial P E gclose newQuit hs c s = Some (r, c', s')" and "client_wf E host c"
  obtains (sid_error) e where "SID P (cl_connData c) = Inl e" "r = Inl (SessionErr e)" "c' = c" "s' = s"
    | (retry) sid mb e where "SID P (cl_connData c) = Inr sid" "r = Inl (TemporaryErr e)"
        "c' = c\<lparr>cl_mailboxConn := mb, cl_sid := sid\<rparr>" "pred_option (client_inv (client_info host sid) E) mb"
    | (conn) sid m where "SID P (cl_connData c) = Inr sid" "r = Inr m"
        "c' = c\<lparr>cl_mailboxConn := Some m, cl_sid := sid\<rparr>" "client_inv (client_info host sid) E m" "\<not> c_closed m"
proof (cases "SID P (cl_connData c)")
  case (Inl e)
  with assms(1) show ?thesis by (intro sid_error) (auto simp: Client_Dial_def split: if_splits)
next
  case (Inr sid)
  obtain mb s1 where mb: "drop_client_conn E gclose (cl_sid c \<noteq> sid) (cl_mailboxConn c) s = (mb, s1)" by fastforce
  have h: "cl_serverHost c = host" using assms(2) by (simp add: client_wf_def)
  have i: "pred_option (client_inv (client_info host sid) E) mb"
    using drop_client_conn_inv [OF mb] assms(2) by (simp add: client_wf_def)
  let ?n = "case mb of None \<Rightarrow> mailbox_NewClientConn sid host (cl_grpc c) | Some m \<Rightarrow> RefreshClientConn m"
  have n: "client_inv (client_info host sid) E m0 \<and> \<not> c_closed m0" if "?n = Inr m0" for m0
    using that i client_inv_new [of sid host "cl_grpc c"] new_client_open client_inv_refresh refresh_client_open
    by (auto simp: client_info_def split: option.splits)
  show ?thesis
  proof (cases "client_connected hs ?n")
    case (Inl e)
    with assms(1) Inr mb h i show ?thesis by (intro retry) (auto simp: Client_Dial_def split: if_splits)
  next
    case (Inr m)
    with assms(1) \<open>SID P (cl_connData c) = Inr sid\<close> mb h client_connected_inv [OF Inr n] show ?thesis
      by (intro conn) (auto simp: Client_Dial_def split: if_splits)
  qed
qed

lemma Server_Accept_cases:
  assumes "Server_Accept P E gclose newQuit hs pick v s = Some (r, v', s')" and "server_wf E host v"
  obtains (eof) "sv_cancelled v \<or> sv_quit v" "r = Inl SessionEOF" "v' = v" "s' = s"
    | (sid_error) e where "SID P (sv_connData v) = Inl e" "r = Inl (SessionErr e)" "v' = v" "s' = s"
    | (retry) sid mb e where "SID P (sv_connData v) = Inr sid" "r = Inl (TemporaryErr e)"
        "v' = v\<lparr>sv_mailboxConn := mb, sv_sid := sid\<rparr>"
        "pred_option (server_inv (GetSID sid False) (GetSID sid True) E) mb"
    | (conn) sid m where "SID P (sv_connData v) = Inr sid" "r = Inr m"
        "v' = v\<lparr>sv_mailboxConn := Some m, sv_sid := sid\<rparr>"
        "server_inv (GetSID sid False) (GetSID sid True) E m" "\<not> s_closed m" "\<not> sv_cancelled v"
proof (cases "r = Inl SessionEOF \<and> (sv_cancelled v \<or> sv_quit v) \<and> v' = v \<and> s' = s")
  case True
  then show ?thesis by (intro eof) auto
next
  case False
  then have A: "Some (r, v', s') = Some (
        case SID P (sv_connData v) of
          Inl e \<Rightarrow> (Inl (SessionErr e), v, s)
        | Inr sid \<Rightarrow>
            let (mb, s1) = drop_server_conn E gclose (sv_sid v \<noteq> sid) (sv_mailboxConn v) s;
                v1 = v\<lparr>sv_mailboxConn := mb, sv_sid := sid\<rparr>
            in case server_connected hs
                   (case mb of
                      None \<Rightarrow> mailbox_NewServerConn sid (sv_serverHost v)
                    | Some m \<Rightarrow> RefreshServerConn m) of
                 Inl e \<Rightarrow> (Inl (TemporaryErr e), v1, newQuit s1)
               | Inr m \<Rightarrow> (Inr m, v1\<lparr>sv_mailboxConn := Some m\<rparr>, newQuit s1))" and nc: "\<not> sv_cancelled v"
    using assms(1) unfolding Server_Accept_def Let_def by (auto split: if_splits)
  show ?thesis
  proof (cases "SID P (sv_connData v)")
    case (Inl e)
    with A show ?thesis by (intro sid_error) auto
  next
    case (Inr sid)
    obtain mb s1 where mb: "drop_server_conn E gclose (sv_sid v \<noteq> sid) (sv_mailboxConn v) s = (mb, s1)" by fastforce
    have h: "sv_serverHost v = host" using assms(2) by (simp add: server_wf_def)
    have i: "pred_option (server_inv (GetSID sid False) (GetSID sid True) E) mb"
      using drop_server_conn_inv [OF mb] assms(2) by (simp add: server_wf_def)
    let ?n = "case mb of None \<Rightarrow> mailbox_NewServerConn sid host | Some m \<Rightarrow> RefreshServerConn m"
    have n: "server_inv (GetSID sid False) (GetSID sid True) E ?n \<and> \<not> s_closed ?n"
      using i server_inv_new server_inv_refresh
      by (auto simp: mailbox_NewServerConn_def RefreshServerConn_def split: option.splits)
    show ?thesis
    proof (cases "server_connected hs ?n")
      case (Inl e)
      with A Inr mb h i show ?thesis by (intro retry) auto
    next
      case (Inr m)
      with A \<open>SID P (sv_connData v) = Inr sid\<close> mb h nc server_connected_inv [OF Inr n] show ?thesis
        by (intro conn) auto
    qed
  qed
qed

text \<open>Closing keeps the streams and the mailboxes.\<close>

lemma ClientConn_Close_inv:
  "ClientConn_Close E gclose m s = (e, m', s') \<Longrightarrow> client_inv info E m \<Longrightarrow> client_inv info E m' \<and> c_closed m'"
  by (auto simp: ClientConn_Close_def client_inv_def split: if_splits prod.splits)

lemma ServerConn_Close_inv:
  "ServerConn_Close E gclose m s = (e, m', s') \<Longrightarrow> server_inv rsid ssid E m \<Longrightarrow> server_inv rsid ssid E m' \<and> s_closed m'"
  by (auto simp: ServerConn_Close_def server_inv_def split: if_splits prod.splits)

lemma ServerConn_Stop_inv:
  assumes "ServerConn_Stop E gclose m s = (e, m', s')" and "server_inv rsid ssid E m"
  shows "server_inv rsid ssid E m' \<and> s_closed m'"
proof -
  obtain ce s1 where "ServerConn_Close E gclose m s = (ce, m', s1)"
    using assms(1) by (auto simp: ServerConn_Stop_def split: prod.splits)
  from ServerConn_Close_inv [OF this assms(2)] show ?thesis .
qed

lemma client_step_wf:
  assumes "client_step P E gclose newQuit x y" and "prims_ok P" and "client_wf E host (fst x)"
  shows "client_wf E host (fst y)"
  using assms(1,3)
proof (induction rule: client_step.cases)
  case (cl_dial hs c s r c' s')
  then have "client_wf E host c" by simp
  from cl_dial(3) this have "client_wf E host c'"
    by (rule Client_Dial_cases) (use \<open>client_wf E host c\<close> SID_length [OF assms(2)] in \<open>auto simp: client_wf_def\<close>)
  with cl_dial(2) show ?case by simp
next
  case (cl_recv c m s r m' s')
  then show ?case using client_recv_keeps [OF _ cl_recv(4)] by (auto simp: client_wf_def)
next
  case (cl_send c m p s q m' s')
  then show ?case using client_send_keeps [OF _ cl_send(4)] by (auto simp: client_wf_def)
next
  case (cl_close c m s e m' s')
  then show ?case using ClientConn_Close_inv [OF cl_close(4)] by (auto simp: client_wf_def)
qed (auto simp: client_wf_def)

lemma Server_Close_wf:
  assumes "Server_Close E gclose v s = Some (v', s')" and "server_wf E host v"
  shows "server_wf E host v' \<and> sv_cancelled v' \<and> sv_quit v' \<and> pred_option s_closed (sv_mailboxConn v')"
proof (cases "sv_mailboxConn v")
  case (Some m)
  obtain e m' s1 where m: "ServerConn_Stop E gclose m s = (e, m', s1)" by (metis surj_pair)
  with assms Some ServerConn_Stop_inv [OF m] show ?thesis
    by (auto simp: Server_Close_def server_wf_def split: if_splits)
qed (use assms in \<open>auto simp: Server_Close_def server_wf_def split: if_splits\<close>)

lemma server_step_wf:
  assumes "server_step P E gclose newQuit x y" and "prims_ok P" and "server_wf E host (fst x)"
  shows "server_wf E host (fst y)"
  using assms(1,3)
proof (induction rule: server_step.cases)
  case (sv_accept hs pick v s r v' s')
  then have "server_wf E host v" by simp
  from sv_accept(3) this have "server_wf E host v'"
    by (rule Server_Accept_cases) (use \<open>server_wf E host v\<close> SID_length [OF assms(2)] in \<open>auto simp: server_wf_def\<close>)
  with sv_accept(2) show ?case by simp
next
  case (sv_recv v m s r m' s')
  then show ?case using recvFromStream_keeps [OF _ sv_recv(4)] by (auto simp: server_wf_def)
next
  case (sv_send v m p s q m' s')
  then show ?case using sendToStream_keeps [OF _ sv_send(4)] by (auto simp: server_wf_def)
next
  case (sv_conn_close v m s e m' s')
  then show ?case using ServerConn_Close_inv [OF sv_conn_close(4)] by (auto simp: server_wf_def)
next
  case (sv_close v s v' s')
  then show ?case using Server_Close_wf [OF sv_close(3)] by simp
qed (auto simp: server_wf_def)

lemma client_wf_new:
  assumes "prims_ok P" and "NewClient P host d opts = Inr c" and "set opts \<subseteq> {WithGrpcConn}"
  shows "client_wf E host c"
proof -
  obtain sid where sid: "SID P d = Inr sid" using assms(2) by (auto simp: NewClient_def ebind_def split: sum.splits)
  let ?ok = "\<lambda>c :: ('a, 'b) Client. cl_serverHost c = host \<and> cl_sid c = sid \<and> cl_mailboxConn c = None"
  have "?ok (fold (\<lambda>opt c. opt c) opts c0)" if "?ok c0" for c0
    using that assms(3) by (induction opts arbitrary: c0) (auto simp: WithGrpcConn_def)
  then have "?ok c" using assms(2) sid by (auto simp: NewClient_def ebind_def)
  with SID_length [OF assms(1) sid] show ?thesis by (simp add: client_wf_def)
qed

lemma server_wf_new:
  assumes "prims_ok P" and "NewServer P dialErr host d = Inr v"
  shows "server_wf E host v"
  using assms SID_length [OF assms(1)]
  by (auto simp: NewServer_def server_wf_def ebind_def split: option.splits sum.splits)

text \<open>Everything a session can become.\<close>

lemma client_reachable_wf:
  assumes "(client_step P E gclose newQuit)\<^sup>*\<^sup>* x y" and "prims_ok P" and "client_wf E host (fst x)"
  shows "client_wf E host (fst y)"
  using assms by (induction rule: rtranclp_induct) (auto dest: client_step_wf)

lemma server_reachable_wf:
  assumes "(server_step P E gclose newQuit)\<^sup>*\<^sup>* x y" and "prims_ok P" and "server_wf E host (fst x)"
  shows "server_wf E host (fst y)"
  using assms by (induction rule: rtranclp_induct) (auto dest: server_step_wf)

lemma client_life_wf:
  assumes "prims_ok P" and "NewClient P host d opts = Inr c0" and "set opts \<subseteq> {WithGrpcConn}"
    and "(client_step P E gclose newQuit)\<^sup>*\<^sup>* (c0, s0) (c, s)"
  shows "client_wf E host c"
  using client_reachable_wf [OF assms(4,1), of host] client_wf_new [OF assms(1-3), of E] by simp

lemma server_life_wf:
  assumes "prims_ok P" and "NewServer P dialErr host d = Inr v0"
    and "(server_step P E gclose newQuit)\<^sup>*\<^sup>* (v0, s0) (v, s)"
  shows "server_wf E host v"
  using server_reachable_wf [OF assms(3,1), of host] server_wf_new [OF assms(1,2), of E] by simp

text \<open>\<^verbatim>\<open>Dial\<close> and \<^verbatim>\<open>Accept\<close> return a connection when the gbn handshake succeeds.\<close>

lemma Client_Dial_returns:
  assumes "pred_option c_closed (cl_mailboxConn c)" and "SID P (cl_connData c) = Inr sid"
    and "\<And>g. \<exists>g'. hs g = Inr g'"
  shows "\<exists>m s'. Client_Dial P E gclose newQuit hs c s = Some (Inr m, c\<lparr>cl_mailboxConn := Some m, cl_sid := sid\<rparr>, s')"
proof -
  obtain mb s1 where mb: "drop_client_conn E gclose (cl_sid c \<noteq> sid) (cl_mailboxConn c) s = (mb, s1)" by fastforce
  let ?n = "case mb of None \<Rightarrow> mailbox_NewClientConn sid (cl_serverHost c) (cl_grpc c) | Some m \<Rightarrow> RefreshClientConn m"
  have "\<exists>m0. ?n = Inr m0"
    by (auto simp: mailbox_NewClientConn_def RefreshClientConn_def NewClientConn_def gbnN_def DefaultN_def Let_def
        split: option.splits)
  then obtain m0 where n: "?n = Inr m0" ..
  obtain g where "hs (c_gbnConn m0) = Inr g" using assms(3) by blast
  then have "client_connected hs ?n = Inr (m0\<lparr>c_gbnConn := g\<rparr>)" by (simp add: n client_connected_def)
  with mb assms(1,2) show ?thesis
    by (cases "cl_mailboxConn c"; cases mb) (auto simp: Client_Dial_def)
qed

lemma Server_Accept_returns:
  assumes "pred_option s_closed (sv_mailboxConn v)" and "SID P (sv_connData v) = Inr sid"
    and "\<And>g. \<exists>g'. hs g = Inr g'" and "\<not> sv_cancelled v" and "\<not> sv_quit v"
  shows "\<exists>m s'. Server_Accept P E gclose newQuit hs pick v s = Some (Inr m, v\<lparr>sv_mailboxConn := Some m, sv_sid := sid\<rparr>, s')"
proof -
  obtain mb s1 where mb: "drop_server_conn E gclose (sv_sid v \<noteq> sid) (sv_mailboxConn v) s = (mb, s1)" by fastforce
  let ?n = "case mb of None \<Rightarrow> mailbox_NewServerConn sid (sv_serverHost v) | Some m \<Rightarrow> RefreshServerConn m"
  obtain m where "server_connected hs ?n = Inr m"
    using assms(3) [of "s_gbnConn ?n"] by (auto simp: server_connected_def)
  with mb assms show ?thesis by (auto simp: Server_Accept_def Let_def split: option.splits)
qed

text \<open>
  A client and a server that meet, close their connections, learn each other's key and meet
  again.
\<close>

definition quiet_close :: "endpoint \<Rightarrow> rpc_error option \<times> endpoint" where
  "quiet_close g = (None, g)"

definition example_data :: "u8 \<Rightarrow> (u8, u8) ConnData" where
  "example_data k = NewConnData k None [1] None None None"

lemma rtrancl3: "r x0 x1 \<Longrightarrow> r x1 x2 \<Longrightarrow> r x2 x3 \<Longrightarrow> r\<^sup>*\<^sup>* x0 x3"
  by (meson rtranclp.rtrancl_into_rtrancl rtranclp.rtrancl_refl)

lemma Inr_returns: "\<exists>g'. (Inr g :: gbn_error + endpoint) = Inr g'"
  by simp

lemma example_SID:
  "SID example_prims (example_data k) = Inr (sha512 example_prims [1])"
  "\<exists>sid. SID example_prims ((example_data k)\<lparr>cd_remoteKey := Some r\<rparr>) = Inr sid"
  by (simp_all add: SID_def example_data_def NewConnData_def ecdh_def example_prims_def)

lemma example_client_life:
  "\<exists>c0 c m s. NewClient example_prims ''host'' (example_data 5) [] = Inr c0 \<and>
     (client_step example_prims example_env quiet_close id)\<^sup>*\<^sup>* (c0, [], 0) (c, s) \<and>
     cl_connData c = (example_data 5)\<lparr>cd_remoteKey := Some 7\<rparr> \<and> cl_mailboxConn c = Some m \<and> c_closed m"
proof -
  let ?step = "client_step example_prims example_env quiet_close id" and ?d = "example_data 5"
  obtain c0 where c0: "NewClient example_prims ''host'' ?d [] = Inr c0" "cl_connData c0 = ?d" "cl_mailboxConn c0 = None"
    by (simp add: NewClient_def example_SID ebind_def)
  have p: "pred_option c_closed (cl_mailboxConn c0)" "SID example_prims (cl_connData c0) = Inr (sha512 example_prims [1])"
    using c0 example_SID(1) by simp_all
  obtain m s1 where 1: "Client_Dial example_prims example_env quiet_close id Inr c0 ([], 0)
      = Some (Inr m, c0\<lparr>cl_mailboxConn := Some m, cl_sid := sha512 example_prims [1]\<rparr>, s1)" (is "_ = Some (_, ?c1, _)")
    using Client_Dial_returns [of c0 example_prims "sha512 example_prims [1]" Inr example_env quiet_close id "([], 0)",
      OF p Inr_returns] by blast
  obtain e m' s2 where 2: "ClientConn_Close example_env quiet_close m s1 = (e, m', s2)" by (metis surj_pair)
  let ?c2 = "?c1\<lparr>cl_mailboxConn := Some m'\<rparr>" and ?d3 = "?d\<lparr>cd_remoteKey := Some 7\<rparr>"
  have 3: "SetRemote (Some 7) (cl_connData ?c2) = (Inr (), ?d3)"
    using c0(2) by (simp add: SetRemote_def call_back_def example_data_def NewConnData_def)
  let ?c3 = "?c2\<lparr>cl_connData := ?d3\<rparr>"
  have a: "?step (c0, [], 0) (?c1, s1)" by (rule cl_dial [OF 1])
  have b: "?step (?c1, s1) (?c2, s2)" by (rule cl_close [OF _ 2]) simp
  have r: "?step (?c2, s2) (?c3, s2)" by (rule cl_remote [OF 3])
  have "?step\<^sup>*\<^sup>* (c0, [], 0) (?c3, s2)" by (rule rtrancl3 [where r = ?step, OF a b r])
  moreover have "c_closed m'" using 2 by (auto simp: ClientConn_Close_def split: if_splits prod.splits)
  moreover have "cl_connData ?c3 = ?d3" "cl_mailboxConn ?c3 = Some m'" by simp_all
  ultimately show ?thesis using c0(1) by blast
qed

lemma example_server_life:
  "\<exists>v0 v m s. NewServer example_prims None ''host'' (example_data 7) = Inr v0 \<and>
     (server_step example_prims example_env quiet_close id)\<^sup>*\<^sup>* (v0, [], 0) (v, s) \<and>
     sv_connData v = (example_data 7)\<lparr>cd_remoteKey := Some 5\<rparr> \<and> sv_mailboxConn v = Some m \<and> s_closed m \<and>
     \<not> sv_quit v \<and> \<not> sv_cancelled v"
proof -
  let ?step = "server_step example_prims example_env quiet_close id" and ?d = "example_data 7"
  obtain v0 where v0: "NewServer example_prims None ''host'' ?d = Inr v0" "sv_connData v0 = ?d" "sv_mailboxConn v0 = None"
      "\<not> sv_quit v0" "\<not> sv_cancelled v0"
    by (simp add: NewServer_def example_SID ebind_def)
  have p: "pred_option s_closed (sv_mailboxConn v0)" "SID example_prims (sv_connData v0) = Inr (sha512 example_prims [1])"
    using v0 example_SID(1) by simp_all
  obtain m s1 where 1: "Server_Accept example_prims example_env quiet_close id Inr False v0 ([], 0)
      = Some (Inr m, v0\<lparr>sv_mailboxConn := Some m, sv_sid := sha512 example_prims [1]\<rparr>, s1)" (is "_ = Some (_, ?v1, _)")
    using Server_Accept_returns [of v0 example_prims "sha512 example_prims [1]" Inr example_env quiet_close id False "([], 0)",
      OF p Inr_returns v0(5,4)] by blast
  obtain e m' s2 where 2: "ServerConn_Close example_env quiet_close m s1 = (e, m', s2)" by (metis surj_pair)
  let ?v2 = "?v1\<lparr>sv_mailboxConn := Some m'\<rparr>" and ?d3 = "?d\<lparr>cd_remoteKey := Some 5\<rparr>"
  have 3: "SetRemote (Some 5) (sv_connData ?v2) = (Inr (), ?d3)"
    using v0(2) by (simp add: SetRemote_def call_back_def example_data_def NewConnData_def)
  let ?v3 = "?v2\<lparr>sv_connData := ?d3\<rparr>"
  have a: "?step (v0, [], 0) (?v1, s1)" by (rule sv_accept [OF 1])
  have b: "?step (?v1, s1) (?v2, s2)" by (rule sv_conn_close [OF _ 2]) simp
  have r: "?step (?v2, s2) (?v3, s2)" by (rule sv_remote [OF 3])
  have "?step\<^sup>*\<^sup>* (v0, [], 0) (?v3, s2)" by (rule rtrancl3 [where r = ?step, OF a b r])
  moreover have "s_closed m'" using 2 by (auto simp: ServerConn_Close_def split: if_splits prod.splits)
  moreover have "sv_connData ?v3 = ?d3" "sv_mailboxConn ?v3 = Some m'" by simp_all
  moreover have "\<not> sv_quit ?v3" "\<not> sv_cancelled ?v3" using v0(4,5) by simp_all
  ultimately show ?thesis using v0(1) by blast
qed



lemma Client_Dial_after_close:
  assumes "Client_Dial P E gclose newQuit hs c s = Some y" and "cl_mailboxConn c = Some m"
  shows "c_closed m"
  using assms by (auto simp: Client_Dial_def split: if_splits)

lemma Server_Accept_after_close:
  assumes "Server_Accept P E gclose newQuit hs pick v s = Some (Inr n, y)" and "sv_mailboxConn v = Some m"
  shows "s_closed m"
  using assms by (auto simp: Server_Accept_def Let_def split: if_splits)

lemma dial_accept_cross:
  assumes "prims_ok P" and "client_wf E host c" and "server_wf F host' v"
    and "peers P (cl_connData c) (sv_connData v)"
    and "Client_Dial P E gclose newQuit hs c s = Some (Inr m, c', s')"
    and "Server_Accept P F gclose newQuit' hs' pick v t = Some (Inr n, v', t')"
  shows "c_receiveSID m = s_sendSID n \<and> c_sendSID m = s_receiveSID n \<and> c_receiveSID m \<noteq> c_sendSID m \<and>
    length (c_receiveSID m) = 64 \<and> \<not> c_closed m \<and> \<not> s_closed n \<and>
    pred_option c_closed (cl_mailboxConn c) \<and> pred_option s_closed (sv_mailboxConn v)"
proof -
  obtain sid where sid: "SID P (cl_connData c) = Inr sid" "SID P (sv_connData v) = Inr sid" "length sid = 64"
    using SID_agree [OF assms(1,4)] .
  from assms(5,2) have C: "client_inv (client_info host sid) E m" "\<not> c_closed m"
    by (rule Client_Dial_cases; use sid in auto)+
  from assms(6,3) have S: "server_inv (GetSID sid False) (GetSID sid True) F n" "\<not> s_closed n"
    by (rule Server_Accept_cases; use sid in auto)+
  have "pred_option c_closed (cl_mailboxConn c)" "pred_option s_closed (sv_mailboxConn v)"
    using Client_Dial_after_close [OF assms(5)] Server_Accept_after_close [OF assms(6)]
    by (auto simp: pred_option_def split: option.splits)
  with C S GetSID_distinct [OF sid(3)] sid(3) show ?thesis
    by (auto simp: client_inv_def server_inv_def client_info_def GetSID_def)
qed

text \<open>
  C6: a client and a server of one session meet. At any time in their lives, when the keys
  and secrets they hold match (the same passphrase before they are paired, each other's key
  afterwards), a connection that \<^verbatim>\<open>Dial\<close> returns and a connection that \<^verbatim>\<open>Accept\<close> returns use
  the same two mailboxes crosswise: each receives where the other sends, and the two mailboxes
  differ. Both connections are open, and the previous connection of either was closed before.
\<close>

theorem dial_meets_accept:
  assumes "prims_ok P"
    and "NewClient P host d opts = Inr c0" and "set opts \<subseteq> {WithGrpcConn}"
    and "(client_step P E gclose newQuit)\<^sup>*\<^sup>* (c0, s0) (c, s)"
    and "NewServer P dialErr host' d' = Inr v0"
    and "(server_step P F gclose newQuit')\<^sup>*\<^sup>* (v0, t0) (v, t)"
    and "peers P (cl_connData c) (sv_connData v)"
    and "Client_Dial P E gclose newQuit hs c s = Some (Inr m, c', s')"
    and "Server_Accept P F gclose newQuit' hs' pick v t = Some (Inr n, v', t')"
  shows "c_receiveSID m = s_sendSID n \<and> c_sendSID m = s_receiveSID n \<and> c_receiveSID m \<noteq> c_sendSID m \<and>
    length (c_receiveSID m) = 64 \<and> \<not> c_closed m \<and> \<not> s_closed n \<and>
    pred_option c_closed (cl_mailboxConn c) \<and> pred_option s_closed (sv_mailboxConn v)"
  by (rule dial_accept_cross [OF assms(1) client_life_wf [OF assms(1-4)] server_life_wf [OF assms(1,5,6)] assms(7-9)])

theorem dial_meets_accept_witness:
  "\<exists>c s m c' s' v t n v' t'.
     Client_Dial example_prims example_env quiet_close id Inr c s = Some (Inr m, c', s') \<and>
     Server_Accept example_prims example_env quiet_close id Inr False v t = Some (Inr n, v', t') \<and>
     cl_mailboxConn c \<noteq> None \<and> c_receiveSID m = s_sendSID n \<and> c_sendSID m = s_receiveSID n \<and>
     c_receiveSID m \<noteq> c_sendSID m"
proof -
  obtain c0 c m0 s where C: "NewClient example_prims ''host'' (example_data 5) [] = Inr c0"
      "(client_step example_prims example_env quiet_close id)\<^sup>*\<^sup>* (c0, [], 0) (c, s)"
      "cl_connData c = (example_data 5)\<lparr>cd_remoteKey := Some 7\<rparr>" "cl_mailboxConn c = Some m0" "c_closed m0"
    using example_client_life by blast
  obtain v0 v n0 t where V: "NewServer example_prims None ''host'' (example_data 7) = Inr v0"
      "(server_step example_prims example_env quiet_close id)\<^sup>*\<^sup>* (v0, [], 0) (v, t)"
      "sv_connData v = (example_data 7)\<lparr>cd_remoteKey := Some 5\<rparr>" "sv_mailboxConn v = Some n0" "s_closed n0"
      "\<not> sv_quit v" "\<not> sv_cancelled v"
    using example_server_life by blast
  have peers: "peers example_prims (cl_connData c) (sv_connData v)"
    by (simp add: C(3) V(3) peers_def example_data_def NewConnData_def example_prims_def)
  obtain sid sid' where "SID example_prims (cl_connData c) = Inr sid" "SID example_prims (sv_connData v) = Inr sid'"
    using example_SID(2) C(3) V(3) by metis
  with C(4,5) V(4-7) obtain m c' s' n v' t' where
      D: "Client_Dial example_prims example_env quiet_close id Inr c s = Some (Inr m, c', s')" and
      A: "Server_Accept example_prims example_env quiet_close id Inr False v t = Some (Inr n, v', t')"
    using Client_Dial_returns [of c example_prims sid Inr example_env quiet_close id s, OF _ _ Inr_returns]
      Server_Accept_returns [of v example_prims sid' Inr example_env quiet_close id False t, OF _ _ Inr_returns]
    by (auto simp del: split_paired_Ex)
  from dial_meets_accept [OF example_prims_ok C(1) _ C(2) V(1,2) peers D A] D A C(4) show ?thesis
    by (metis empty_subsetI list.set(1) option.distinct(1))
qed

lemma server_step_cancelled:
  assumes "server_step P E gclose newQuit x y" and "sv_cancelled (fst x) \<and> sv_quit (fst x)"
  shows "sv_cancelled (fst y) \<and> sv_quit (fst y)"
  using assms by (induction rule: server_step.cases)
    (auto simp: Server_Accept_def Server_Close_def Let_def split: if_splits)

lemma server_stays_cancelled:
  assumes "(server_step P E gclose newQuit)\<^sup>*\<^sup>* x y" and "sv_cancelled (fst x) \<and> sv_quit (fst x)"
  shows "sv_cancelled (fst y) \<and> sv_quit (fst y)"
  using assms by (induction rule: rtranclp_induct) (auto dest: server_step_cancelled)



subsection \<open>The status after a FIN\<close>

text \<open>
  The callback for a FIN that \<^verbatim>\<open>NewClientConn\<close> puts into the gbn options sets the status of the
  connection it was made for, \<open>c\<close>. There the status \<^verbatim>\<open>ClientStatusSessionNotFound\<close> is kept when
  the streams fail afterwards. A refreshed connection \<open>c2\<close> reuses the options: the callback
  still sets the status of \<open>c\<close>, and the next failure of \<open>c2\<close> reports that it is not connected.
\<close>

lemma fin_status_after_refresh:
  assumes "client_setStatus E ClientStatusSessionNotFound c s = (c1, s1)" and "RefreshClientConn c = Inr c2"
  shows "client_setStatus E ClientStatusNotConnected c1 s1 = (c1, s1)"
    and "client_setStatus E ClientStatusNotConnected c2 s1
      = (c2\<lparr>c_status := ClientStatusNotConnected\<rparr>, client_status E ClientStatusNotConnected s1)"
  using assms by (auto simp: client_setStatus_def RefreshClientConn_def split: sum.splits)

subsection \<open>Addresses\<close>

text \<open>
  \<^verbatim>\<open>Addr\<close> and \<^verbatim>\<open>NoiseAddr\<close> of mailbox/interface.go, with the addresses of the connections and of
  the server. \<open>hex_encode\<close> is the verb \<^verbatim>\<open>%x\<close> and \<^verbatim>\<open>hex.EncodeToString\<close>.
\<close>

definition hex_digit :: "u8 \<Rightarrow> char" where
  "hex_digit d = ''0123456789abcdef'' ! unat d"

definition hex_byte :: "u8 \<Rightarrow> string" where
  "hex_byte b = [hex_digit (drop_bit 4 b), hex_digit (b AND 15)]"

definition hex_encode :: "bytes \<Rightarrow> string" where
  "hex_encode bs = concat (map hex_byte bs)"

record Addr =
  a_SID :: bytes
  a_Server :: string

definition Addr_Network :: string where
  "Addr_Network = ''mailbox''"

definition Addr_String :: "Addr \<Rightarrow> string" where
  "Addr_String a = Addr_Network @ '':'' @ hex_encode (a_SID a) @ ''@'' @ a_Server a"

record 'pk NoiseAddr =
  na_PubKey :: "'pk option"
  na_Server :: string

definition NoiseAddr_Network :: string where
  "NoiseAddr_Network = ''noise''"

definition NoiseAddr_String :: "('sk, 'pk) prims \<Rightarrow> 'pk NoiseAddr \<Rightarrow> string" where
  "NoiseAddr_String P a =
     (case na_PubKey a of
        Some k \<Rightarrow> NoiseAddr_Network @ '':'' @ hex_encode (pk_ser P k) @ ''@'' @ na_Server a
      | None \<Rightarrow> NoiseAddr_Network @ ''@'' @ na_Server a)"

definition client_LocalAddr :: "ClientConn \<Rightarrow> Addr" where
  "client_LocalAddr c = \<lparr>a_SID = c_sendSID c, a_Server = c_serverAddr c\<rparr>"

definition client_RemoteAddr :: "ClientConn \<Rightarrow> Addr" where
  "client_RemoteAddr c = \<lparr>a_SID = c_receiveSID c, a_Server = c_serverAddr c\<rparr>"

definition server_LocalAddr :: "ServerConn \<Rightarrow> Addr" where
  "server_LocalAddr c = \<lparr>a_SID = s_sendSID c, a_Server = s_serverAddr c\<rparr>"

definition server_RemoteAddr :: "ServerConn \<Rightarrow> Addr" where
  "server_RemoteAddr c = \<lparr>a_SID = s_receiveSID c, a_Server = s_serverAddr c\<rparr>"

definition Server_Addr :: "('sk, 'pk) Server \<Rightarrow> Addr" where
  "Server_Addr v = \<lparr>a_SID = sv_sid v, a_Server = sv_serverHost v\<rparr>"

lemma length_hex_encode [simp]: "length (hex_encode bs) = 2 * length bs"
  by (induction bs) (auto simp: hex_encode_def hex_byte_def)

lemma hex_digit_inj: "unat d < 16 \<Longrightarrow> unat e < 16 \<Longrightarrow> hex_digit d = hex_digit e \<Longrightarrow> d = e"
proof -
  have "distinct ''0123456789abcdef''" "length ''0123456789abcdef'' = 16" by simp_all
  then show "unat d < 16 \<Longrightarrow> unat e < 16 \<Longrightarrow> hex_digit d = hex_digit e \<Longrightarrow> d = e"
    unfolding hex_digit_def by (metis nth_eq_iff_index_eq word_unat_eq_iff)
qed

lemma nibble_bounds: "unat (drop_bit 4 (b :: u8)) < 16" "unat (b AND 15) < 16"
proof -
  have "unat (drop_bit 4 b) = drop_bit 4 (unat b)" by (rule unat_drop_bit_eq)
  also have "\<dots> < 16" using unat_u8_less [of b] by (simp add: drop_bit_eq_div less_mult_imp_div_less)
  finally show "unat (drop_bit 4 b) < 16" .
  have "b AND 15 = take_bit 4 b" by (simp add: take_bit_eq_mask mask_numeral)
  then have "unat (b AND 15) = unat b mod 16" by (simp add: take_bit_eq_mod unat_mod_distrib)
  then show "unat (b AND 15) < 16" by simp
qed

lemma nibbles: "push_bit 4 (drop_bit 4 b) OR (b AND 15) = (b :: u8)"
proof -
  have "b AND 15 = take_bit 4 b" by (simp add: take_bit_eq_mask mask_numeral)
  then show ?thesis by (simp only:) (rule bit_word_eqI, auto simp: bit_simps not_less)
qed

lemma hex_byte_inj: "hex_byte b = hex_byte c \<Longrightarrow> b = c"
  unfolding hex_byte_def using hex_digit_inj nibble_bounds nibbles by (metis list.inject)

lemma hex_encode_inj: "hex_encode bs = hex_encode cs \<Longrightarrow> bs = cs"
proof (induction bs arbitrary: cs)
  case Nil
  then show ?case by (cases cs) (auto simp: hex_encode_def hex_byte_def)
next
  case (Cons b bs)
  then obtain c cs' where cs: "cs = c # cs'" by (cases cs) (auto simp: hex_encode_def hex_byte_def)
  with Cons.prems have "hex_byte b = hex_byte c" "hex_encode bs = hex_encode cs'"
    by (auto simp: hex_encode_def hex_byte_def)
  with cs hex_byte_inj Cons.IH show ?case by blast
qed

text \<open>The text of a mailbox address tells the address.\<close>

lemma Addr_String_inj:
  assumes "length (a_SID a) = 64" and "length (a_SID b) = 64" and "Addr_String a = Addr_String b"
  shows "a_SID a = a_SID b \<and> a_Server a = a_Server b"
  using assms by (auto simp: Addr_String_def dest: hex_encode_inj)

end
