(* ===== verification/Noise_Machine.thy ===== *)
theory Noise_Machine
  imports Mailbox_ConnData
begin

section \<open>The noise machine (mailbox/noise.go)\<close>

text \<open>
  \<^verbatim>\<open>Machine\<close>: its construction, the handshake as a whole, and the encrypted transport
  behind it (\<^verbatim>\<open>WriteMessage\<close>, \<^verbatim>\<open>Flush\<close>, \<^verbatim>\<open>ReadMessage\<close>).
\<close>

subsection \<open>Construction\<close>

record ('sk, 'pk) BrontideMachineConfig =
  bc_ConnData :: "('sk, 'pk) ConnData"
  bc_Initiator :: bool
  bc_HandshakePattern :: HandshakePattern
  bc_MinHandshakeVersion :: u8
  bc_MaxHandshakeVersion :: u8
  bc_EphemeralGen :: "(nat \<Rightarrow> 'sk option) option"

text \<open>
  The configuration's connection data is a shared object, which the handshake takes as its own
  argument; the header buffer of \<^verbatim>\<open>ReadHeader\<close> is overwritten before each use and left out.
\<close>

record ('sk, 'pk) Machine =
  m_hs :: "('sk, 'pk) handshakeState"
  sendCipher :: cipherState
  recvCipher :: cipherState
  nextHeaderSend :: bytes
  nextBodySend :: bytes

definition lightningNodeConnectPrologue :: bytes where
  "lightningNodeConnectPrologue = str_bytes ''lightning-node-connect''"

definition stretchPassphrase :: "('sk, 'pk) prims \<Rightarrow> bytes \<Rightarrow> go_error + bytes" where
  "stretchPassphrase P pw = (case scrypt_key P pw pw of None \<Rightarrow> Inl ErrScrypt | Some k \<Rightarrow> Inr k)"

text \<open>\<open>gen\<close> is the default generator of ephemeral keys.\<close>

definition NewBrontideMachine :: "('sk, 'pk) prims \<Rightarrow> (nat \<Rightarrow> 'sk option) \<Rightarrow>
    ('sk, 'pk) BrontideMachineConfig \<Rightarrow> go_error + ('sk, 'pk) Machine" where
  "NewBrontideMachine P gen cf =
     (let kk = (pat_Name (bc_HandshakePattern cf) = KK);
          minV = (if kk \<and> bc_MinHandshakeVersion cf < 2 then 2 else bc_MinHandshakeVersion cf);
          maxV = bc_MaxHandshakeVersion cf; d = bc_ConnData cf
      in if kk \<and> maxV < 2 then Inl ErrKKVersion
         else
           ebind (if pat_Name (bc_HandshakePattern cf) = XX
                  then stretchPassphrase P (cd_passphraseEntropy d) else Inr []) (\<lambda>pw.
           ebind (newHandshakeState P minV maxV (bc_HandshakePattern cf) (bc_Initiator cf)
                    lightningNodeConnectPrologue (cd_localKey d) (cd_remoteKey d) pw (cd_authData d)
                    (case bc_EphemeralGen cf of None \<Rightarrow> gen | Some g \<Rightarrow> g)) (\<lambda>h.
             Inr \<lparr>m_hs = h, sendCipher = empty_cipherState, recvCipher = empty_cipherState,
                  nextHeaderSend = [], nextBodySend = []\<rparr>)))"

subsection \<open>DoHandshake\<close>

text \<open>The loop over the acts of the pattern.\<close>

fun hs_acts :: "('sk, 'pk) prims \<Rightarrow> 'c reader \<Rightarrow> 'c writer \<Rightarrow> MessagePattern list \<Rightarrow>
    ('sk, 'pk) handshakeState \<Rightarrow> ('c, ('sk, 'pk) handshakeState) io" where
  "hs_acts P rd wr [] h = io_return h"
| "hs_acts P rd wr (mp # mps) h =
     io_bind (if mp_Initiator mp = initiator h then writeMsgPattern P wr mp h
              else readMsgPattern P rd mp h) (\<lambda>h1. hs_acts P rd wr mps h1)"

definition machine_split :: "('sk, 'pk) prims \<Rightarrow> ('sk, 'pk) Machine \<Rightarrow> ('sk, 'pk) Machine" where
  "machine_split P b =
     (let ck = chainingKey (m_hs b); (k1, k2) = hkdf P [] ck;
          c1 = InitializeKeyWithSalt ck k1 empty_cipherState;
          c2 = InitializeKeyWithSalt ck k2 empty_cipherState
      in if initiator (m_hs b) then b\<lparr>sendCipher := c1, recvCipher := c2\<rparr>
         else b\<lparr>recvCipher := c1, sendCipher := c2\<rparr>)"

text \<open>A step on the connection or on the connection data.\<close>

definition on_conn :: "('c, 'a) io \<Rightarrow> ('c \<times> 'd, 'a) io" where
  "on_conn m = (\<lambda>(c, d). case m c of (r, c') \<Rightarrow> (r, (c', d)))"

definition on_data :: "('d, 'a) io \<Rightarrow> ('c \<times> 'd, 'a) io" where
  "on_data m = (\<lambda>(c, d). case m d of (r, d') \<Rightarrow> (r, (c, d')))"

definition DoHandshake :: "('sk, 'pk) prims \<Rightarrow> 'c reader \<Rightarrow> 'c writer \<Rightarrow> ('sk, 'pk) Machine \<Rightarrow>
    ('c \<times> ('sk, 'pk) ConnData, ('sk, 'pk) Machine) io" where
  "DoHandshake P rd wr b =
     io_bind (on_conn (hs_acts P rd wr (Pattern (pattern (m_hs b))) (m_hs b))) (\<lambda>h.
       let b1 = machine_split P (b\<lparr>m_hs := h\<rparr>) in
       io_bind (if 2 \<le> version h then on_data (SetRemote (remoteStatic h)) else io_return ()) (\<lambda>_.
       io_bind (if initiator h then on_data (SetAuthData (receivedPayload h)) else io_return ()) (\<lambda>_.
         io_return b1)))"

subsection \<open>Transport\<close>

definition encHeaderSize :: nat where
  "encHeaderSize = lengthHeaderSize + macSize"

definition MaxUint16 :: nat where
  "MaxUint16 = 65535"

definition WriteMessage :: "('sk, 'pk) prims \<Rightarrow> bytes \<Rightarrow> ('sk, 'pk) Machine \<Rightarrow>
    go_error option \<times> ('sk, 'pk) Machine" where
  "WriteMessage P p b =
     (if MaxUint16 < length p then (Some ErrMaxMessageLengthExceeded, b)
      else if nextHeaderSend b \<noteq> [] \<or> nextBodySend b \<noteq> [] then (Some ErrMessageNotFlushed, b)
      else
        (case Encrypt P [] (put_u16 (of_nat (length p))) (sendCipher b) of
           None \<Rightarrow> (Some ErrPanic, b)
         | Some (hdr, c1) \<Rightarrow>
             (case Encrypt P [] p c1 of
                None \<Rightarrow> (Some ErrPanic, b)
              | Some (bd, c2) \<Rightarrow>
                  (None, b\<lparr>sendCipher := c2, nextHeaderSend := hdr, nextBodySend := bd\<rparr>))))"

text \<open>
  \<^verbatim>\<open>Flush\<close>: the header, then the body; the count of plaintext bytes in a write of \<open>n\<close>
  bytes of the body that leaves \<open>left\<close> bytes. A writer that claims more bytes than it was
  given makes the slice expression panic.
\<close>

definition body_count :: "nat \<Rightarrow> nat \<Rightarrow> int" where
  "body_count n left =
     (if macSize < n + left \<and> left \<le> macSize then int n - (int macSize - int left)
      else if macSize < n + left \<and> macSize < left then int n
      else 0)"

definition flush_header :: "'c writer \<Rightarrow> ('sk, 'pk) Machine \<Rightarrow> 'c \<Rightarrow>
    (go_error option \<times> ('sk, 'pk) Machine) \<times> 'c" where
  "flush_header wr b c =
     (if nextHeaderSend b = [] then ((None, b), c)
      else
        (case wr (nextHeaderSend b) c of
           ((n, err), c') \<Rightarrow>
             if length (nextHeaderSend b) < n then ((Some ErrPanic, b), c')
             else ((err, b\<lparr>nextHeaderSend := drop n (nextHeaderSend b)\<rparr>), c')))"

definition flush_body :: "'c writer \<Rightarrow> ('sk, 'pk) Machine \<Rightarrow> 'c \<Rightarrow>
    (int \<times> go_error option \<times> ('sk, 'pk) Machine) \<times> 'c" where
  "flush_body wr b c =
     (if nextBodySend b = [] then ((0, None, b), c)
      else
        (case wr (nextBodySend b) c of
           ((n, err), c') \<Rightarrow>
             if length (nextBodySend b) < n then ((0, Some ErrPanic, b), c')
             else let rest = drop n (nextBodySend b)
                  in ((body_count n (length rest), err, b\<lparr>nextBodySend := rest\<rparr>), c')))"

definition Flush :: "'c writer \<Rightarrow> ('sk, 'pk) Machine \<Rightarrow> 'c \<Rightarrow>
    (int \<times> go_error option \<times> ('sk, 'pk) Machine) \<times> 'c" where
  "Flush wr b c =
     (case flush_header wr b c of
        ((Some e, b1), c1) \<Rightarrow> ((0, Some e, b1), c1)
      | ((None, b1), c1) \<Rightarrow> flush_body wr b1 c1)"

text \<open>
  \<^verbatim>\<open>ReadHeader\<close>, \<^verbatim>\<open>ReadBody\<close> with a buffer of \<open>n\<close> bytes, \<^verbatim>\<open>ReadMessage\<close>; \<open>None\<close>
  when the reader keeps returning nothing.
\<close>

definition ReadHeader :: "('sk, 'pk) prims \<Rightarrow> 'c reader \<Rightarrow> ('sk, 'pk) Machine \<Rightarrow> 'c \<Rightarrow>
    ((go_error + u32) \<times> ('sk, 'pk) Machine \<times> 'c) option" where
  "ReadHeader P rd b c = do {
     (r, c1) \<leftarrow> ReadFull rd encHeaderSize c;
     Some (case r of
        Inl e \<Rightarrow> (Inl e, b, c1)
      | Inr hdr \<Rightarrow>
          (case Decrypt P [] hdr (recvCipher b) of
             None \<Rightarrow> (Inl ErrPanic, b, c1)
           | Some (None, rc) \<Rightarrow> (Inl ErrAuth, b\<lparr>recvCipher := rc\<rparr>, c1)
           | Some (Some pktLenBytes, rc) \<Rightarrow>
               (if length pktLenBytes < 2 then Inl ErrPanic
                else Inr (ucast (get_u16 pktLenBytes) + of_nat macSize), b\<lparr>recvCipher := rc\<rparr>, c1))) }"

definition ReadBody :: "('sk, 'pk) prims \<Rightarrow> 'c reader \<Rightarrow> nat \<Rightarrow> ('sk, 'pk) Machine \<Rightarrow> 'c \<Rightarrow>
    ((go_error + bytes) \<times> ('sk, 'pk) Machine \<times> 'c) option" where
  "ReadBody P rd n b c = do {
     (r, c1) \<leftarrow> ReadFull rd n c;
     Some (case r of
        Inl e \<Rightarrow> (Inl e, b, c1)
      | Inr buf \<Rightarrow>
          (case Decrypt P [] buf (recvCipher b) of
             None \<Rightarrow> (Inl ErrPanic, b, c1)
           | Some (None, rc) \<Rightarrow> (Inl ErrAuth, b\<lparr>recvCipher := rc\<rparr>, c1)
           | Some (Some p, rc) \<Rightarrow> (Inr p, b\<lparr>recvCipher := rc\<rparr>, c1))) }"

definition ReadMessage :: "('sk, 'pk) prims \<Rightarrow> 'c reader \<Rightarrow> ('sk, 'pk) Machine \<Rightarrow> 'c \<Rightarrow>
    ((go_error + bytes) \<times> ('sk, 'pk) Machine \<times> 'c) option" where
  "ReadMessage P rd b c = do {
     (r, b1, c1) \<leftarrow> ReadHeader P rd b c;
     (case r of
        Inl e \<Rightarrow> Some (Inl e, b1, c1)
      | Inr pktLen \<Rightarrow> ReadBody P rd (unat pktLen) b1 c1) }"

subsection \<open>Both ends of a handshake\<close>

text \<open>When the handshake of two states can succeed.\<close>

definition versions_ok :: "('sk, 'pk) handshakeState \<Rightarrow> ('sk, 'pk) handshakeState \<Rightarrow> bool" where
  "versions_ok hI hR \<longleftrightarrow> version hI = minVersion hI \<and> version hR = maxVersion hR \<and>
     minVersion hR \<le> minVersion hI \<and> minVersion hI \<le> maxVersion hR \<and>
     maxVersion hR \<le> maxVersion hI \<and> maxVersion hR \<le> 2"

definition no_keys :: knowledge where
  "no_keys = \<lparr>k_eI = False, k_eR = False, k_sI = False, k_sR = False\<rparr>"

definition static_keys :: knowledge where
  "static_keys = \<lparr>k_eI = False, k_eR = False, k_sI = True, k_sR = True\<rparr>"

definition all_keys :: knowledge where
  "all_keys = \<lparr>k_eI = True, k_eR = True, k_sI = True, k_sR = True\<rparr>"

definition hs_ready :: "('sk, 'pk) handshakeState \<Rightarrow> ('sk, 'pk) handshakeState \<Rightarrow> bool" where
  "hs_ready hI hR \<longleftrightarrow> versions_ok hI hR \<and> (\<forall>i. eph_gen hI i \<noteq> None) \<and> (\<forall>i. eph_gen hR i \<noteq> None) \<and>
     length (auth_bytes (payloadToSend hI)) < MaxInt32 \<and>
     length (auth_bytes (payloadToSend hR)) < MaxInt32"

text \<open>
  The settings of the initiator after a successful handshake in which it saw the version \<open>v\<close>
  of the responder, and the versions it can take for that of the responder: those it supports
  that have the same format.
\<close>

definition sees_version :: "u8 \<Rightarrow> ('sk, 'pk) handshakeState \<Rightarrow> ('sk, 'pk) handshakeState \<Rightarrow> bool" where
  "sees_version v hI hR \<longleftrightarrow> minVersion hI \<le> v \<and> v \<le> maxVersion hI \<and> v \<le> 2 \<and>
     (v = 0 \<longleftrightarrow> version hR = 0)"


definition negotiated :: "('sk, 'pk) handshakeState \<Rightarrow> u8 \<Rightarrow> ('sk, 'pk) handshakeState \<Rightarrow>
    ('sk, 'pk) handshakeState" where
  "negotiated hI v hR = hI\<lparr>version := v,
     receivedPayload := received (version hR) (payloadToSend hR)\<rparr>"

lemma agree_w_True [simp]: "agree_w P True K hI hR = agree P K hI hR"
  by (simp add: agree_w_def)

lemma agree_w_False [simp]: "agree_w P False K hR hI = agree P K hI hR"
  by (simp add: agree_w_def)

lemma agree_roles: "agree P K hI hR \<Longrightarrow> initiator hI \<and> \<not> initiator hR"
  by (simp add: agree_def)

context message_conn
begin

definition hs_run :: "('c, 'a) io \<Rightarrow> bytes list \<Rightarrow> bytes list \<Rightarrow> 'a \<Rightarrow> bool" where
  "hs_run m ins outs x \<longleftrightarrow> (\<forall>c ms. buf c = [] \<and> inbox c = ins @ ms \<longrightarrow>
     (\<exists>c'. m c = (Inr x, c') \<and> buf c' = [] \<and> inbox c' = ms \<and> outbox c' = outbox c @ outs))"

text \<open>A run that has read \<open>ins\<close> and written \<open>outs\<close> and waits for the next message.\<close>

definition hs_waits :: "('c, 'a) io \<Rightarrow> bytes list \<Rightarrow> bytes list \<Rightarrow> bool" where
  "hs_waits m ins outs \<longleftrightarrow> (\<forall>c. buf c = [] \<and> inbox c = ins \<longrightarrow>
     (\<exists>e c'. m c = (Inl e, c') \<and> outbox c' = outbox c @ outs))"

lemma hs_runE:
  assumes "hs_run m ins outs x" and "buf c = []" and "inbox c = ins @ ms"
  obtains c' where "m c = (Inr x, c')" and "buf c' = []" and "inbox c' = ms"
    and "outbox c' = outbox c @ outs"
  using assms unfolding hs_run_def by blast

lemma hs_waitsE:
  assumes "hs_waits m ins outs" and "buf c = []" and "inbox c = ins"
  obtains e c' where "m c = (Inl e, c')" and "outbox c' = outbox c @ outs"
  using assms unfolding hs_waits_def by blast

lemma hs_run_bind:
  assumes "hs_run m i1 o1 x" and "hs_run (f x) i2 o2 y"
  shows "hs_run (io_bind m f) (i1 @ i2) (o1 @ o2) y"
  unfolding hs_run_def
proof (intro allI impI)
  fix c ms assume "buf c = [] \<and> inbox c = (i1 @ i2) @ ms"
  then have c: "buf c = []" "inbox c = i1 @ i2 @ ms" by simp_all
  obtain c1 where c1: "m c = (Inr x, c1)" "buf c1 = []" "inbox c1 = i2 @ ms"
      "outbox c1 = outbox c @ o1"
    using hs_runE [OF assms(1) c] .
  obtain c2 where "f x c1 = (Inr y, c2)" "buf c2 = []" "inbox c2 = ms"
      "outbox c2 = outbox c1 @ o2"
    using hs_runE [OF assms(2) c1(2,3)] .
  with c1 show "\<exists>c'. io_bind m f c = (Inr y, c') \<and> buf c' = [] \<and> inbox c' = ms \<and>
      outbox c' = outbox c @ o1 @ o2"
    by (simp add: io_bind_Inr)
qed

lemma hs_waits_bind:
  assumes "hs_run m i1 o1 x" and "hs_waits (f x) i2 o2"
  shows "hs_waits (io_bind m f) (i1 @ i2) (o1 @ o2)"
  unfolding hs_waits_def
proof (intro allI impI)
  fix c assume "buf c = [] \<and> inbox c = i1 @ i2"
  then have c: "buf c = []" "inbox c = i1 @ i2" by simp_all
  obtain c1 where c1: "m c = (Inr x, c1)" "buf c1 = []" "inbox c1 = i2"
      "outbox c1 = outbox c @ o1"
    using hs_runE [OF assms(1) c] .
  obtain e c2 where "f x c1 = (Inl e, c2)" "outbox c2 = outbox c1 @ o2"
    using hs_waitsE [OF assms(2) c1(2,3)] .
  with c1 show "\<exists>e c'. io_bind m f c = (Inl e, c') \<and> outbox c' = outbox c @ o1 @ o2"
    by (simp add: io_bind_Inr)
qed

lemma hs_run_return: "hs_run (io_return x) [] [] x"
  by (simp add: hs_run_def io_apply)

lemma hs_waits_read: "hs_waits (io_bind (readMsgPattern P rd mp h) f) [] []"
  unfolding hs_waits_def
proof (intro allI impI)
  fix c assume "buf c = [] \<and> inbox c = []"
  then obtain e c' where "read_buf rd 1 c = (Inl e, c')" "outbox c' = outbox c"
    using read_buf_blocked [of c 1] by blast
  then show "\<exists>e c'. io_bind (readMsgPattern P rd mp h) f c = (Inl e, c') \<and>
      outbox c' = outbox c @ []"
    by (simp add: readMsgPattern_def io_bind_assoc io_bind_Inl)
qed

text \<open>An act as a pair of runs.\<close>

lemma act_runs:
  assumes "prims_ok P" and "agree_w P (mp_Initiator mp) K hW hX"
    and "learn_all (mp_Initiator mp) (Tokens mp) K = Some K'"
    and "\<forall>i. eph_gen hW i \<noteq> None" and "act_ok mp v hW hX"
    and "700 + 49 * length (Tokens mp) + length (auth_bytes (payloadToSend hW)) < lim"
  obtains m hW' hX' where "hs_run (writeMsgPattern P wr mp hW) [] [version hW # m] hW'"
    and "hs_run (readMsgPattern P rd mp hX) [v # m] [] hX'"
    and "agree_w P (mp_Initiator mp) K' hW' hX'" and "settings hW' = settings hW"
    and "settings hX' = settings (after_act mp v hW hX)"
proof (rule act_sync [OF assms])
  fix m hW' hX'
  assume w: "\<And>c. \<exists>c'. writeMsgPattern P wr mp hW c = (Inr hW', c') \<and>
        outbox c' = outbox c @ [version hW # m] \<and> inbox c' = inbox c \<and> buf c' = buf c"
    and r: "\<And>c ms. buf c = [] \<Longrightarrow> inbox c = (v # m) # ms \<Longrightarrow>
        \<exists>c'. readMsgPattern P rd mp hX c = (Inr hX', c') \<and> buf c' = [] \<and> inbox c' = ms \<and>
          outbox c' = outbox c"
    and rest: "agree_w P (mp_Initiator mp) K' hW' hX'" "settings hW' = settings hW"
      "settings hX' = settings (after_act mp v hW hX)"
  have "hs_run (writeMsgPattern P wr mp hW) [] [version hW # m] hW'"
    unfolding hs_run_def
  proof (intro allI impI)
    fix c ms assume "buf c = [] \<and> inbox c = [] @ ms"
    with w [of c] show "\<exists>c'. writeMsgPattern P wr mp hW c = (Inr hW', c') \<and> buf c' = [] \<and>
        inbox c' = ms \<and> outbox c' = outbox c @ [version hW # m]" by auto
  qed
  moreover have "hs_run (readMsgPattern P rd mp hX) [v # m] [] hX'"
    unfolding hs_run_def using r by simp
  ultimately show thesis using rest by (rule that)
qed

text \<open>One iteration of the loop over the acts.\<close>

lemma acts_write:
  assumes "mp_Initiator mp = initiator h" and "hs_run (writeMsgPattern P wr mp h) [] [m] h1"
    and "hs_run (hs_acts P rd wr mps h1) ins outs x"
  shows "hs_run (hs_acts P rd wr (mp # mps) h) ins (m # outs) x"
  using hs_run_bind [OF assms(2), where f = "hs_acts P rd wr mps", OF assms(3)] assms(1) by simp

lemma acts_read:
  assumes "mp_Initiator mp \<noteq> initiator h" and "hs_run (readMsgPattern P rd mp h) [m] [] h1"
    and "hs_run (hs_acts P rd wr mps h1) ins outs x"
  shows "hs_run (hs_acts P rd wr (mp # mps) h) (m # ins) outs x"
  using hs_run_bind [OF assms(2), where f = "hs_acts P rd wr mps", OF assms(3)] assms(1) by simp

lemma acts_write_waits:
  assumes "mp_Initiator mp = initiator h" and "hs_run (writeMsgPattern P wr mp h) [] [m] h1"
    and "hs_waits (hs_acts P rd wr mps h1) ins outs"
  shows "hs_waits (hs_acts P rd wr (mp # mps) h) ins (m # outs)"
  using hs_waits_bind [OF assms(2), where f = "hs_acts P rd wr mps", OF assms(3)] assms(1) by simp

lemma acts_read_then_waits:
  assumes "mp_Initiator mp \<noteq> initiator h" and "hs_run (readMsgPattern P rd mp h) [m] [] h1"
    and "hs_waits (hs_acts P rd wr mps h1) ins outs"
  shows "hs_waits (hs_acts P rd wr (mp # mps) h) (m # ins) outs"
  using hs_waits_bind [OF assms(2), where f = "hs_acts P rd wr mps", OF assms(3)] assms(1) by simp

lemma acts_read_waits:
  "mp_Initiator mp \<noteq> initiator h \<Longrightarrow> hs_waits (hs_acts P rd wr (mp # mps) h) [] []"
  using hs_waits_read [of P mp h "hs_acts P rd wr mps"] by simp

text \<open>The first two acts, which all patterns share: \<open>mp1\<close> from the initiator, \<open>mp2\<close> back.\<close>

lemma two_acts:
  assumes P: "prims_ok P" and lim: "2 ^ 32 \<le> lim" and a: "agree P K hI hR" and rdy: "hs_ready hI hR"
    and mp1: "mp_Initiator mp1" "ActNum mp1 = 1" "learn_all True (Tokens mp1) K = Some K1"
    and mp2: "\<not> mp_Initiator mp2" "ActNum mp2 = 2" "learn_all False (Tokens mp2) K1 = Some K2"
    and short: "length (Tokens mp1) \<le> 10" "length (Tokens mp2) \<le> 10" and v: "sees_version v hI hR"
  obtains m1 m2 hI1 hR1 hI2 hR2 where
    "hs_run (writeMsgPattern P wr mp1 hI) [] [m1] hI1" "hs_run (readMsgPattern P rd mp1 hR) [m1] [] hR1"
    "hs_run (writeMsgPattern P wr mp2 hR1) [] [version hR # m2] hR2"
    "hs_run (readMsgPattern P rd mp2 hI1) [v # m2] [] hI2"
    "initiator hI1" "\<not> initiator hR1" "agree P K2 hI2 hR2" "settings hI2 = settings (negotiated hI v hR)"
    "settings hR2 = settings hR"
proof -
  have r: "versions_ok hI hR" "\<forall>i. eph_gen hI i \<noteq> None" "\<forall>i. eph_gen hR i \<noteq> None"
      "length (auth_bytes (payloadToSend hI)) < MaxInt32"
      "length (auth_bytes (payloadToSend hR)) < MaxInt32"
    using rdy by (simp_all add: hs_ready_def)
  have max: "MaxInt32 + 2000 < lim" using lim by (simp add: MaxInt32_def)
  have ok1: "act_ok mp1 (version hI) hI hR"
    using r(1) mp1(2) by (auto simp: act_ok_def versions_ok_def)
  obtain m hI1 hR1 where A: "hs_run (writeMsgPattern P wr mp1 hI) [] [version hI # m] hI1"
      "hs_run (readMsgPattern P rd mp1 hR) [version hI # m] [] hR1" "agree P K1 hI1 hR1"
      "settings hI1 = settings hI" "settings hR1 = settings (after_act mp1 (version hI) hI hR)"
    by (rule act_runs [OF P, of mp1 K hI hR K1 "version hI"]) (use a mp1 r ok1 short max in \<open>simp_all\<close>)
  have sR: "settings hR1 = settings hR"
    using A(5) mp1(2) agree_roles [OF a] by (simp add: after_act_def settings_def)
  have vR: "version hR1 = version hR" using sR by (simp add: settings_def)
  have ok2: "act_ok mp2 v hR1 hI1"
    using r(1,5) mp2(2) sR A(4) v by (auto simp: act_ok_def versions_ok_def settings_def sees_version_def)
  obtain m2 hR2 hI2 where B: "hs_run (writeMsgPattern P wr mp2 hR1) [] [version hR # m2] hR2"
      "hs_run (readMsgPattern P rd mp2 hI1) [v # m2] [] hI2" "agree P K2 hI2 hR2"
      "settings hR2 = settings hR1" "settings hI2 = settings (after_act mp2 v hR1 hI1)"
    by (rule act_runs [OF P, of mp2 K1 hR1 hI1 K2 v, unfolded vR])
      (use A(3) mp2 r sR ok2 short max in \<open>simp_all add: settings_def\<close>)
  have sI: "settings hI2 = settings (negotiated hI v hR)"
    using B(5) A(4) sR mp2(2) agree_roles [OF A(3)]
    by (simp add: after_act_def negotiated_def settings_def)
  show thesis
    by (rule that [OF A(1,2) B(1,2) _ _ B(3) sI]) (use agree_roles [OF A(3)] sR B(4) in simp_all)
qed

lemma xx_runs:
  assumes P: "prims_ok P" and lim: "2 ^ 32 \<le> lim" and a: "agree P no_keys hI hR"
    and rdy: "hs_ready hI hR" and v: "sees_version v hI hR"
  obtains m1 m2 m3 hI' hR' where
    "hs_waits (hs_acts P rd wr (Pattern XXPattern) hI) [] [m1]"
    "hs_waits (hs_acts P rd wr (Pattern XXPattern) hR) [m1] [version hR # m2]"
    "hs_run (hs_acts P rd wr (Pattern XXPattern) hI) [v # m2] [m1, v # m3] hI'"
    "hs_run (hs_acts P rd wr (Pattern XXPattern) hR) [m1, version hR # m3] [version hR # m2] hR'"
    "agree P all_keys hI' hR'" "settings hI' = settings (negotiated hI v hR)"
    "settings hR' = settings hR"
proof -
  obtain mp1 mp2 mp3 where X: "Pattern XXPattern = [mp1, mp2, mp3]"
    and mp1: "mp1 = \<lparr>Tokens = [Tok_me], mp_Initiator = True, ActNum = 1\<rparr>"
    and mp2: "mp2 = \<lparr>Tokens = [Tok_e, Tok_ee, Tok_s, Tok_es], mp_Initiator = False, ActNum = 2\<rparr>"
    and mp3: "mp3 = \<lparr>Tokens = [Tok_s, Tok_se], mp_Initiator = True, ActNum = 3\<rparr>"
    by (simp add: XXPattern_def)
  let ?K1 = "no_keys\<lparr>k_eI := True\<rparr>" and ?K2 = "all_keys\<lparr>k_sI := False\<rparr>"
  obtain m1 m2 hI1 hR1 hI2 hR2 where A:
      "hs_run (writeMsgPattern P wr mp1 hI) [] [m1] hI1" "hs_run (readMsgPattern P rd mp1 hR) [m1] [] hR1"
      "hs_run (writeMsgPattern P wr mp2 hR1) [] [version hR # m2] hR2"
    "hs_run (readMsgPattern P rd mp2 hI1) [v # m2] [] hI2"
      "initiator hI1" "\<not> initiator hR1" "agree P ?K2 hI2 hR2"
      "settings hI2 = settings (negotiated hI v hR)" "settings hR2 = settings hR"
    by (rule two_acts [OF P lim a rdy, of mp1 ?K1 mp2 ?K2])
      (use v in \<open>simp_all add: mp1 mp2 no_keys_def all_keys_def\<close>)
  have r: "versions_ok hI hR" "\<forall>i. eph_gen hI i \<noteq> None"
      "length (auth_bytes (payloadToSend hI)) < MaxInt32" "MaxInt32 + 2000 < lim"
    using rdy lim by (simp_all add: hs_ready_def MaxInt32_def)
  have vs: "version hI2 = v" "version hR2 = version hR"
    using A(8,9) by (simp_all add: settings_def negotiated_def)
  have ok: "act_ok mp3 (version hR) hI2 hR2"
    using r(1) A(8,9) v
    by (auto simp: act_ok_def versions_ok_def settings_def negotiated_def mp3 sees_version_def)
  obtain m3 hI3 hR3 where B: "hs_run (writeMsgPattern P wr mp3 hI2) [] [v # m3] hI3"
      "hs_run (readMsgPattern P rd mp3 hR2) [version hR # m3] [] hR3" "agree P all_keys hI3 hR3"
      "settings hI3 = settings hI2" "settings hR3 = settings (after_act mp3 (version hR) hI2 hR2)"
    by (rule act_runs [OF P, of mp3 ?K2 hI2 hR2 all_keys "version hR", unfolded vs])
      (use A(7,8) r ok in \<open>simp_all add: mp3 all_keys_def settings_def negotiated_def\<close>)
  have roles: "initiator hI" "\<not> initiator hR" "initiator hI2" "\<not> initiator hR2"
    using agree_roles [OF a] agree_roles [OF A(7)] by simp_all
  note ini = roles A(5,6)
  show thesis
  proof (rule that)
    show "hs_waits (hs_acts P rd wr (Pattern XXPattern) hI) [] [m1]" unfolding X
      by (rule acts_write_waits [OF _ A(1)], simp add: mp1 ini, rule acts_read_waits) (simp add: mp2 ini)
    show "hs_waits (hs_acts P rd wr (Pattern XXPattern) hR) [m1] [version hR # m2]" unfolding X
      by (rule acts_read_then_waits [OF _ A(2)], simp add: mp1 ini, rule acts_write_waits [OF _ A(3)],
          simp add: mp2 ini, rule acts_read_waits) (simp add: mp3 ini)
    show "hs_run (hs_acts P rd wr (Pattern XXPattern) hI) [v # m2] [m1, v # m3] hI3" unfolding X
      by (rule acts_write [OF _ A(1)], simp add: mp1 ini, rule acts_read [OF _ A(4)], simp add: mp2 ini,
          rule acts_write [OF _ B(1)], simp add: mp3 ini) (simp add: hs_run_return)
    show "hs_run (hs_acts P rd wr (Pattern XXPattern) hR) [m1, version hR # m3] [version hR # m2] hR3"
      unfolding X
      by (rule acts_read [OF _ A(2)], simp add: mp1 ini, rule acts_write [OF _ A(3)], simp add: mp2 ini,
          rule acts_read [OF _ B(2)], simp add: mp3 ini) (simp add: hs_run_return)
    show "settings hI3 = settings (negotiated hI v hR)" using B(4) A(8) by simp
    show "settings hR3 = settings hR"
      using B(5) A(9) ini by (simp add: after_act_def settings_def mp3)
  qed (fact B(3))
qed

lemma kk_runs:
  assumes P: "prims_ok P" and lim: "2 ^ 32 \<le> lim" and a: "agree P static_keys hI hR"
    and rdy: "hs_ready hI hR" and v: "sees_version v hI hR"
  obtains m1 m2 hI' hR' where
    "hs_waits (hs_acts P rd wr (Pattern KKPattern) hI) [] [m1]"
    "hs_run (hs_acts P rd wr (Pattern KKPattern) hI) [v # m2] [m1] hI'"
    "hs_run (hs_acts P rd wr (Pattern KKPattern) hR) [m1] [version hR # m2] hR'"
    "agree P all_keys hI' hR'" "settings hI' = settings (negotiated hI v hR)"
    "settings hR' = settings hR"
proof -
  obtain mp1 mp2 where X: "Pattern KKPattern = [mp1, mp2]"
    and mp1: "mp1 = \<lparr>Tokens = [Tok_e, Tok_es, Tok_ss], mp_Initiator = True, ActNum = 1\<rparr>"
    and mp2: "mp2 = \<lparr>Tokens = [Tok_e, Tok_ee, Tok_se], mp_Initiator = False, ActNum = 2\<rparr>"
    by (simp add: KKPattern_def)
  let ?K1 = "static_keys\<lparr>k_eI := True\<rparr>"
  obtain m1 m2 hI1 hR1 hI2 hR2 where A:
      "hs_run (writeMsgPattern P wr mp1 hI) [] [m1] hI1" "hs_run (readMsgPattern P rd mp1 hR) [m1] [] hR1"
      "hs_run (writeMsgPattern P wr mp2 hR1) [] [version hR # m2] hR2"
    "hs_run (readMsgPattern P rd mp2 hI1) [v # m2] [] hI2"
      "initiator hI1" "\<not> initiator hR1" "agree P all_keys hI2 hR2"
      "settings hI2 = settings (negotiated hI v hR)" "settings hR2 = settings hR"
    by (rule two_acts [OF P lim a rdy, of mp1 ?K1 mp2 all_keys])
      (use v in \<open>simp_all add: mp1 mp2 static_keys_def all_keys_def\<close>)
  have ini: "initiator hI" "\<not> initiator hR" "initiator hI1" "\<not> initiator hR1"
    using agree_roles [OF a] A(5,6) by simp_all
  show thesis
  proof (rule that)
    show "hs_waits (hs_acts P rd wr (Pattern KKPattern) hI) [] [m1]" unfolding X
      by (rule acts_write_waits [OF _ A(1)], simp add: mp1 ini, rule acts_read_waits) (simp add: mp2 ini)
    show "hs_run (hs_acts P rd wr (Pattern KKPattern) hI) [v # m2] [m1] hI2" unfolding X
      by (rule acts_write [OF _ A(1)], simp add: mp1 ini, rule acts_read [OF _ A(4)], simp add: mp2 ini)
        (simp add: hs_run_return)
    show "hs_run (hs_acts P rd wr (Pattern KKPattern) hR) [m1] [version hR # m2] hR2" unfolding X
      by (rule acts_read [OF _ A(2)], simp add: mp1 ini, rule acts_write [OF _ A(3)], simp add: mp2 ini)
        (simp add: hs_run_return)
  qed (fact A(7) A(8) A(9))+
qed

end

subsection \<open>Handshakes of two machines\<close>

text \<open>The configuration that \<^verbatim>\<open>ClientHandshake\<close> and \<^verbatim>\<open>ServerHandshake\<close> build.\<close>

definition handshake_cfg :: "bool \<Rightarrow> u8 \<Rightarrow> u8 \<Rightarrow> ('sk, 'pk) ConnData \<Rightarrow>
    ('sk, 'pk) BrontideMachineConfig" where
  "handshake_cfg init minV maxV d = \<lparr>bc_ConnData = d, bc_Initiator = init,
     bc_HandshakePattern = ConnData_HandshakePattern d, bc_MinHandshakeVersion = minV,
     bc_MaxHandshakeVersion = maxV, bc_EphemeralGen = None\<rparr>"

text \<open>
  A handshake over a mailbox connection that reads the messages \<open>ins\<close>, writes \<open>outs\<close> and
  ends with machine \<open>b'\<close> and connection data \<open>d'\<close>; and one that has read \<open>ins\<close>, written
  \<open>outs\<close> and finds no further message.
\<close>

definition handshake_ends :: "('sk, 'pk) prims \<Rightarrow> ('sk, 'pk) Machine \<Rightarrow> ('sk, 'pk) ConnData \<Rightarrow>
    bytes list \<Rightarrow> bytes list \<Rightarrow> ('sk, 'pk) Machine \<Rightarrow> ('sk, 'pk) ConnData \<Rightarrow> bool" where
  "handshake_ends P b d ins outs b' d' \<longleftrightarrow> (\<forall>c ms. p_buf c = [] \<and> p_in c = ins @ ms \<longrightarrow>
     (\<exists>c'. DoHandshake P (proxy_Read 64 queue_gbn) (proxy_Write 64 queue_gbn) b (c, d) =
         (Inr b', c', d') \<and> p_buf c' = [] \<and> p_in c' = ms \<and> p_out c' = p_out c @ outs))"

definition handshake_waits :: "('sk, 'pk) prims \<Rightarrow> ('sk, 'pk) Machine \<Rightarrow> ('sk, 'pk) ConnData \<Rightarrow>
    bytes list \<Rightarrow> bytes list \<Rightarrow> bool" where
  "handshake_waits P b d ins outs \<longleftrightarrow> (\<forall>c. p_buf c = [] \<and> p_in c = ins \<longrightarrow>
     (\<exists>e c'. DoHandshake P (proxy_Read 64 queue_gbn) (proxy_Write 64 queue_gbn) b (c, d) =
         (Inl e, c', d) \<and> p_out c' = p_out c @ outs))"

text \<open>What each end sends with, the other receives with; nothing has been sent yet.\<close>

definition channels_match :: "('sk, 'pk) Machine \<Rightarrow> ('sk, 'pk) Machine \<Rightarrow> bool" where
  "channels_match a b \<longleftrightarrow> sendCipher a = recvCipher b \<and> recvCipher a = sendCipher b \<and>
     cipher_inv (sendCipher a) \<and> cipher_inv (recvCipher a) \<and>
     cs_nonce (sendCipher a) = 0 \<and> cs_nonce (recvCipher a) = 0 \<and>
     nextHeaderSend a = [] \<and> nextBodySend a = [] \<and> nextHeaderSend b = [] \<and> nextBodySend b = []"

definition no_objection :: "('sk, 'pk) ConnData \<Rightarrow> bool" where
  "no_objection d \<longleftrightarrow> (\<forall>k. call_back (onRemoteStatic d) k = None) \<and>
     (\<forall>a. call_back (onAuthData d) a = None)"

text \<open>The connection data after a handshake that ended in \<open>h\<close>.\<close>

definition stored :: "('sk, 'pk) handshakeState \<Rightarrow> ('sk, 'pk) ConnData \<Rightarrow> ('sk, 'pk) ConnData" where
  "stored h d =
     (let d1 = (if 2 \<le> version h then d\<lparr>cd_remoteKey := remoteStatic h\<rparr> else d)
      in if initiator h then d1\<lparr>cd_authData := Some (receivedPayload h)\<rparr> else d1)"

lemma set_remote_ok: "no_objection d \<Longrightarrow> SetRemote k d = (Inr (), d\<lparr>cd_remoteKey := k\<rparr>)"
  by (simp add: SetRemote_def no_objection_def)

lemma set_auth_ok: "no_objection d \<Longrightarrow> SetAuthData a d = (Inr (), d\<lparr>cd_authData := Some a\<rparr>)"
  by (simp add: SetAuthData_def no_objection_def)

lemma no_objection_remote: "no_objection d \<Longrightarrow> no_objection (d\<lparr>cd_remoteKey := k\<rparr>)"
  by (simp add: no_objection_def)

lemma DoHandshake_ends:
  assumes "mbox.hs_run (hs_acts P (proxy_Read 64 queue_gbn) (proxy_Write 64 queue_gbn)
      (Pattern (pattern (m_hs b))) (m_hs b)) ins outs h" and "no_objection d"
  shows "handshake_ends P b d ins outs (machine_split P (b\<lparr>m_hs := h\<rparr>)) (stored h d)"
  unfolding handshake_ends_def
proof (intro allI impI, elim conjE)
  fix c ms assume "p_buf c = []" and "p_in c = ins @ ms"
  then obtain c' where c': "hs_acts P (proxy_Read 64 queue_gbn) (proxy_Write 64 queue_gbn)
      (Pattern (pattern (m_hs b))) (m_hs b) c = (Inr h, c')" "p_buf c' = []" "p_in c' = ms"
      "p_out c' = p_out c @ outs"
    using mbox.hs_runE [OF assms(1)] by blast
  show "\<exists>c'. DoHandshake P (proxy_Read 64 queue_gbn) (proxy_Write 64 queue_gbn) b (c, d) =
      (Inr (machine_split P (b\<lparr>m_hs := h\<rparr>)), c', stored h d) \<and> p_buf c' = [] \<and> p_in c' = ms \<and>
      p_out c' = p_out c @ outs"
    using c' by (auto simp: DoHandshake_def on_conn_def on_data_def io_bind_def io_apply Let_def
        stored_def set_remote_ok set_auth_ok assms(2) no_objection_remote)
qed

lemma DoHandshake_waits:
  assumes "mbox.hs_waits (hs_acts P (proxy_Read 64 queue_gbn) (proxy_Write 64 queue_gbn)
      (Pattern (pattern (m_hs b))) (m_hs b)) ins outs"
  shows "handshake_waits P b d ins outs"
  unfolding handshake_waits_def
proof (intro allI impI, elim conjE)
  fix c assume "p_buf c = []" and "p_in c = ins"
  then obtain e c' where "hs_acts P (proxy_Read 64 queue_gbn) (proxy_Write 64 queue_gbn)
      (Pattern (pattern (m_hs b))) (m_hs b) c = (Inl e, c')" "p_out c' = p_out c @ outs"
    using mbox.hs_waitsE [OF assms] by blast
  then show "\<exists>e c'. DoHandshake P (proxy_Read 64 queue_gbn) (proxy_Write 64 queue_gbn) b (c, d) =
      (Inl e, c', d) \<and> p_out c' = p_out c @ outs"
    by (simp add: DoHandshake_def on_conn_def io_bind_Inl)
qed

lemma split_match:
  assumes "agree P K hI hR" and "nextHeaderSend bI = []" "nextBodySend bI = []"
    and "nextHeaderSend bR = []" "nextBodySend bR = []"
  shows "channels_match (machine_split P (bI\<lparr>m_hs := hI\<rparr>)) (machine_split P (bR\<lparr>m_hs := hR\<rparr>))"
  using assms
  by (simp add: agree_def sym_def machine_split_def channels_match_def InitializeKeyWithSalt_def
      Let_def split: prod.split) (simp add: InitializeKey_def)

lemma m_hs_split [simp]: "m_hs (machine_split P b) = m_hs b"
  by (simp add: machine_split_def Let_def split: prod.split)

subsection \<open>Fresh handshake states\<close>

lemma new_xx:
  obtains h where
    "newHandshakeState P minV maxV XXPattern init pro lk rk pw auth gen = Inr h"
    "sym h = (0, zero32, zero32, Some zero32, sha256 P (protocol_name XXPattern), zero32,
       sha256 P (sha256 P (protocol_name XXPattern) @ pro))"
    "settings h = (init, lk, pw, auth, [], XXPattern,
       (minV, maxV, if init then minV else maxV), gen)"
    "keys h = (None, rk, None)"
proof -
  let ?n = "sha256 P (protocol_name XXPattern)"
  let ?h = "\<lparr>cs_nonce = 0, secretKey = zero32, cs_salt = zero32, cs_cipher = Some zero32,
      chainingKey = ?n, tempKey = zero32, handshakeDigest = sha256 P (?n @ pro),
      initiator = init, localStatic = lk, localEphemeral = None,
      remoteStatic = rk, remoteEphemeral = None, passphraseEntropy = pw,
      payloadToSend = auth, receivedPayload = [], pattern = XXPattern,
      minVersion = minV, maxVersion = maxV, version = (if init then minV else maxV),
      eph_gen = gen, eph_calls = 0\<rparr>"
  have "PreMessages XXPattern = []" by (simp add: XXPattern_def)
  then have "newHandshakeState P minV maxV XXPattern init pro lk rk pw auth gen = Inr ?h"
    by (simp add: newHandshakeState_def InitializeSymmetric_def InitializeKey_def mixHash_def)
  then show thesis by (rule that) (simp_all add: hs_views)
qed

lemma new_kk:
  fixes pro
  defines "n P \<equiv> sha256 P (sha256 P (protocol_name KKPattern) @ pro)"
  obtains h where
    "newHandshakeState P minV maxV KKPattern init pro lk (Some rk) pw auth gen = Inr h"
    "sym h = (0, zero32, zero32, Some zero32, sha256 P (protocol_name KKPattern), zero32,
       sha256 P (sha256 P (n P @ pk_ser P (if init then ec_pub P lk else rk)) @
         pk_ser P (if init then rk else ec_pub P lk)))"
    "settings h = (init, lk, pw, auth, [], KKPattern,
       (minV, maxV, if init then minV else maxV), gen)"
    "keys h = (None, Some rk, None)"
proof -
  let ?d = "sha256 P (sha256 P (n P @ pk_ser P (if init then ec_pub P lk else rk)) @
         pk_ser P (if init then rk else ec_pub P lk))"
  let ?h = "\<lparr>cs_nonce = 0, secretKey = zero32, cs_salt = zero32, cs_cipher = Some zero32,
      chainingKey = sha256 P (protocol_name KKPattern), tempKey = zero32, handshakeDigest = ?d,
      initiator = init, localStatic = lk, localEphemeral = None,
      remoteStatic = Some rk, remoteEphemeral = None, passphraseEntropy = pw,
      payloadToSend = auth, receivedPayload = [], pattern = KKPattern,
      minVersion = minV, maxVersion = maxV, version = (if init then minV else maxV),
      eph_gen = gen, eph_calls = 0\<rparr>"
  have "PreMessages KKPattern = [\<lparr>Tokens = [Tok_s], mp_Initiator = True, ActNum = 0\<rparr>,
        \<lparr>Tokens = [Tok_s], mp_Initiator = False, ActNum = 0\<rparr>]" by (simp add: KKPattern_def)
  then have "newHandshakeState P minV maxV KKPattern init pro lk (Some rk) pw auth gen = Inr ?h"
    by (simp add: newHandshakeState_def InitializeSymmetric_def InitializeKey_def mixHash_def n_def)
  then show thesis by (rule that) (simp_all add: hs_views)
qed

lemma pattern_names: "pat_Name XXPattern = XX" "pat_Name KKPattern = KK" "XX \<noteq> KK"
  by (simp_all add: XXPattern_def KKPattern_def XX_def KK_def)

lemma new_machine:
  assumes "newHandshakeState P (if paired \<and> minV < 2 then 2 else minV) maxV
      (if paired then KKPattern else XXPattern) init lightningNodeConnectPrologue (cd_localKey d)
      (cd_remoteKey d) pw (cd_authData d) gen = Inr h"
    and "paired = (cd_remoteKey d \<noteq> None)" and "paired \<Longrightarrow> 2 \<le> maxV \<and> pw = []"
    and "\<not> paired \<Longrightarrow> scrypt_key P (cd_passphraseEntropy d) (cd_passphraseEntropy d) = Some pw"
  shows "NewBrontideMachine P gen (handshake_cfg init minV maxV d) = Inr \<lparr>m_hs = h,
    sendCipher = empty_cipherState, recvCipher = empty_cipherState, nextHeaderSend = [],
    nextBodySend = []\<rparr>"
  using assms
  by (cases paired; cases "minV < 2") (auto simp: NewBrontideMachine_def handshake_cfg_def
      ConnData_HandshakePattern_def pattern_names pattern_names(3) [symmetric]
      stretchPassphrase_def Let_def)


text \<open>
  Two parties that can complete a handshake: random keys are available, the payloads have a
  length that fits the format, the callbacks accept, and the range of versions of the responder
  contains the lowest version of the initiator, whose range contains the highest of the
  responder.
\<close>

definition parties_ok :: "(nat \<Rightarrow> 'sk option) \<Rightarrow> (nat \<Rightarrow> 'sk option) \<Rightarrow> u8 \<times> u8 \<Rightarrow> u8 \<times> u8 \<Rightarrow>
    ('sk, 'pk) ConnData \<Rightarrow> ('sk, 'pk) ConnData \<Rightarrow> bool" where
  "parties_ok gI gR vI vR dI dR \<longleftrightarrow> (\<forall>i. gI i \<noteq> None) \<and> (\<forall>i. gR i \<noteq> None) \<and>
     length (auth_bytes (cd_authData dI)) < MaxInt32 \<and>
     length (auth_bytes (cd_authData dR)) < MaxInt32 \<and>
     no_objection dI \<and> no_objection dR \<and>
     fst vR \<le> fst vI \<and> fst vI \<le> snd vR \<and> snd vR \<le> snd vI \<and> snd vR \<le> 2"

text \<open>
  The two ends after a handshake in which the initiator took \<open>v\<close> for the version.
\<close>

definition ends_paired :: "('sk, 'pk) prims \<Rightarrow> u8 \<Rightarrow> u8 \<Rightarrow> ('sk, 'pk) ConnData \<Rightarrow> ('sk, 'pk) ConnData \<Rightarrow>
    ('sk, 'pk) Machine \<Rightarrow> ('sk, 'pk) Machine \<Rightarrow> bool" where
  "ends_paired P v w dI dR bI bR \<longleftrightarrow> channels_match bI bR \<and>
     initiator (m_hs bI) \<and> \<not> initiator (m_hs bR) \<and>
     version (m_hs bI) = v \<and> version (m_hs bR) = w \<and>
     remoteStatic (m_hs bI) = Some (ec_pub P (cd_localKey dR)) \<and>
     remoteStatic (m_hs bR) = Some (ec_pub P (cd_localKey dI)) \<and>
     receivedPayload (m_hs bI) = received w (cd_authData dR)"

lemma ends_pairedI:
  assumes "agree P all_keys hI' hR'" and "settings hI' = settings (negotiated hI v hR)"
    and "settings hR' = settings hR" and "localStatic hI = cd_localKey dI"
    and "localStatic hR = cd_localKey dR" and "payloadToSend hR = cd_authData dR"
    and "nextHeaderSend bI = []" "nextBodySend bI = []" "nextHeaderSend bR = []" "nextBodySend bR = []"
  shows "ends_paired P v (version hR) dI dR (machine_split P (bI\<lparr>m_hs := hI'\<rparr>))
    (machine_split P (bR\<lparr>m_hs := hR'\<rparr>))"
  using split_match [OF assms(1,7-10)] assms
  by (simp add: ends_paired_def agree_def all_keys_def settings_def negotiated_def)

lemma xx_machines:
  assumes P: "prims_ok P" and ok: "parties_ok gI gR (minI, maxI) (minR, maxR) dI dR"
    and new: "cd_remoteKey dI = None" "cd_remoteKey dR = None"
    and pw: "cd_passphraseEntropy dI = cd_passphraseEntropy dR"
      "scrypt_key P (cd_passphraseEntropy dR) (cd_passphraseEntropy dR) = Some k"
    and v: "minI \<le> v" "v \<le> maxI" "v \<le> 2" "v = 0 \<longleftrightarrow> maxR = 0"
  obtains bI bR m1 m2 m3 bI' bR' where
    "NewBrontideMachine P gI (handshake_cfg True minI maxI dI) = Inr bI"
    "NewBrontideMachine P gR (handshake_cfg False minR maxR dR) = Inr bR"
    "handshake_waits P bI dI [] [m1]" "handshake_waits P bR dR [m1] [maxR # m2]"
    "handshake_ends P bI dI [v # m2] [m1, v # m3] bI' (stored (m_hs bI') dI)"
    "handshake_ends P bR dR [m1, maxR # m3] [maxR # m2] bR' (stored (m_hs bR') dR)"
    "ends_paired P v maxR dI dR bI' bR'"
proof -
  let ?pro = lightningNodeConnectPrologue
  obtain hI where I: "newHandshakeState P minI maxI XXPattern True ?pro (cd_localKey dI)
      (cd_remoteKey dI) k (cd_authData dI) gI = Inr hI"
    "sym hI = (0, zero32, zero32, Some zero32, sha256 P (protocol_name XXPattern), zero32,
       sha256 P (sha256 P (protocol_name XXPattern) @ ?pro))"
    "settings hI = (True, cd_localKey dI, k, cd_authData dI, [], XXPattern, (minI, maxI, minI), gI)"
    "keys hI = (None, cd_remoteKey dI, None)"
    by (rule new_xx [of P minI maxI True ?pro "cd_localKey dI" "cd_remoteKey dI" k "cd_authData dI" gI])
      simp
  obtain hR where R: "newHandshakeState P minR maxR XXPattern False ?pro (cd_localKey dR)
      (cd_remoteKey dR) k (cd_authData dR) gR = Inr hR"
    "sym hR = (0, zero32, zero32, Some zero32, sha256 P (protocol_name XXPattern), zero32,
       sha256 P (sha256 P (protocol_name XXPattern) @ ?pro))"
    "settings hR = (False, cd_localKey dR, k, cd_authData dR, [], XXPattern, (minR, maxR, maxR), gR)"
    "keys hR = (None, cd_remoteKey dR, None)"
    by (rule new_xx [of P minR maxR False ?pro "cd_localKey dR" "cd_remoteKey dR" k "cd_authData dR" gR])
      simp
  let ?b = "\<lambda>h. \<lparr>m_hs = h, sendCipher = empty_cipherState, recvCipher = empty_cipherState,
      nextHeaderSend = [], nextBodySend = []\<rparr>"
  have "agree P no_keys hI hR"
    using I(2-4) R(2-4) by (simp add: agree_def no_keys_def hs_views)
  moreover have "hs_ready hI hR" "sees_version v hI hR"
    using ok v I(3) R(3) by (simp_all add: hs_ready_def versions_ok_def parties_ok_def sees_version_def settings_def)
  ultimately obtain m1 m2 m3 hI' hR' where run:
    "mbox.hs_waits (hs_acts P (proxy_Read 64 queue_gbn) (proxy_Write 64 queue_gbn) (Pattern XXPattern) hI) [] [m1]"
    "mbox.hs_waits (hs_acts P (proxy_Read 64 queue_gbn) (proxy_Write 64 queue_gbn) (Pattern XXPattern) hR)
       [m1] [version hR # m2]"
    "mbox.hs_run (hs_acts P (proxy_Read 64 queue_gbn) (proxy_Write 64 queue_gbn) (Pattern XXPattern) hI)
       [v # m2] [m1, v # m3] hI'"
    "mbox.hs_run (hs_acts P (proxy_Read 64 queue_gbn) (proxy_Write 64 queue_gbn) (Pattern XXPattern) hR)
       [m1, version hR # m3] [version hR # m2] hR'"
    "agree P all_keys hI' hR'" "settings hI' = settings (negotiated hI v hR)" "settings hR' = settings hR"
    using mbox.xx_runs [OF P order_refl] by metis
  have s: "pattern hI = XXPattern" "pattern hR = XXPattern" "version hR = maxR"
      "localStatic hI = cd_localKey dI" "localStatic hR = cd_localKey dR" "payloadToSend hR = cd_authData dR"
    using I(3) R(3) by (simp_all add: settings_def)
  have d: "no_objection dI" "no_objection dR" using ok by (simp_all add: parties_ok_def)
  show thesis
    by (rule that [of "?b hI" "?b hR" m1 m2 m3 "machine_split P (?b hI')" "machine_split P (?b hR')"])
      (use new_machine [of P False minI maxI True dI k gI hI] I(1) new pw
          new_machine [of P False minR maxR False dR k gR hR] R(1)
          DoHandshake_waits [of P "?b hI" "[]" "[m1]" dI] DoHandshake_waits [of P "?b hR" "[m1]" "[version hR # m2]" dR]
          DoHandshake_ends [of P "?b hI" "[v # m2]" "[m1, v # m3]" hI' dI]
          DoHandshake_ends [of P "?b hR" "[m1, version hR # m3]" "[version hR # m2]" hR' dR]
          ends_pairedI [OF run(5-7) s(4-6), of "?b hI" "?b hR"] run(1-4) s d in simp_all)
qed


lemma kk_machines:
  assumes P: "prims_ok P" and ok: "parties_ok gI gR (minI, maxI) (minR, 2) dI dR"
    and known: "cd_remoteKey dI = Some (ec_pub P (cd_localKey dR))"
      "cd_remoteKey dR = Some (ec_pub P (cd_localKey dI))"
  obtains bI bR m1 m2 bI' bR' where
    "NewBrontideMachine P gI (handshake_cfg True minI maxI dI) = Inr bI"
    "NewBrontideMachine P gR (handshake_cfg False minR 2 dR) = Inr bR"
    "handshake_waits P bI dI [] [m1]"
    "handshake_ends P bI dI [m2] [m1] bI' (stored (m_hs bI') dI)"
    "handshake_ends P bR dR [m1] [m2] bR' (stored (m_hs bR') dR)"
    "ends_paired P 2 2 dI dR bI' bR'"
proof -
  let ?pro = lightningNodeConnectPrologue
  let ?min = "\<lambda>v :: u8. if True \<and> v < 2 then 2 else v"
  have eff: "?min minI = 2" "?min minR = 2" and two: "2 \<le> maxI"
    using ok by (auto simp: parties_ok_def)
  obtain hI where I: "newHandshakeState P 2 maxI KKPattern True ?pro (cd_localKey dI)
      (cd_remoteKey dI) [] (cd_authData dI) gI = Inr hI"
    "sym hI = (0, zero32, zero32, Some zero32, sha256 P (protocol_name KKPattern), zero32,
       sha256 P (sha256 P (sha256 P (sha256 P (protocol_name KKPattern) @ ?pro) @
         pk_ser P (ec_pub P (cd_localKey dI))) @ pk_ser P (ec_pub P (cd_localKey dR))))"
    "settings hI = (True, cd_localKey dI, [], cd_authData dI, [], KKPattern, (2, maxI, 2), gI)"
    "keys hI = (None, cd_remoteKey dI, None)"
    by (rule new_kk [of P 2 maxI True ?pro "cd_localKey dI" "ec_pub P (cd_localKey dR)" "[]"
          "cd_authData dI" gI]) (simp add: known)
  obtain hR where R: "newHandshakeState P 2 2 KKPattern False ?pro (cd_localKey dR)
      (cd_remoteKey dR) [] (cd_authData dR) gR = Inr hR"
    "sym hR = (0, zero32, zero32, Some zero32, sha256 P (protocol_name KKPattern), zero32,
       sha256 P (sha256 P (sha256 P (sha256 P (protocol_name KKPattern) @ ?pro) @
         pk_ser P (ec_pub P (cd_localKey dI))) @ pk_ser P (ec_pub P (cd_localKey dR))))"
    "settings hR = (False, cd_localKey dR, [], cd_authData dR, [], KKPattern, (2, 2, 2), gR)"
    "keys hR = (None, cd_remoteKey dR, None)"
    by (rule new_kk [of P 2 2 False ?pro "cd_localKey dR" "ec_pub P (cd_localKey dI)" "[]"
          "cd_authData dR" gR]) (simp add: known)
  let ?b = "\<lambda>h. \<lparr>m_hs = h, sendCipher = empty_cipherState, recvCipher = empty_cipherState,
      nextHeaderSend = [], nextBodySend = []\<rparr>"
  have s: "pattern hI = KKPattern" "pattern hR = KKPattern" "version hR = 2"
      "localStatic hI = cd_localKey dI" "localStatic hR = cd_localKey dR" "payloadToSend hR = cd_authData dR"
    using I(3) R(3) by (simp_all add: settings_def)
  have "agree P static_keys hI hR"
    using I(2-4) R(2-4) known by (simp add: agree_def static_keys_def hs_views)
  moreover have "hs_ready hI hR" "sees_version 2 hI hR"
    using ok two I(3) R(3)
    by (simp_all add: hs_ready_def versions_ok_def parties_ok_def sees_version_def settings_def)
  ultimately obtain m1 m2 hI' hR' where run:
    "mbox.hs_waits (hs_acts P (proxy_Read 64 queue_gbn) (proxy_Write 64 queue_gbn) (Pattern KKPattern) hI) [] [m1]"
    "mbox.hs_run (hs_acts P (proxy_Read 64 queue_gbn) (proxy_Write 64 queue_gbn) (Pattern KKPattern) hI)
       [2 # m2] [m1] hI'"
    "mbox.hs_run (hs_acts P (proxy_Read 64 queue_gbn) (proxy_Write 64 queue_gbn) (Pattern KKPattern) hR)
       [m1] [version hR # m2] hR'"
    "agree P all_keys hI' hR'" "settings hI' = settings (negotiated hI 2 hR)" "settings hR' = settings hR"
    using mbox.kk_runs [OF P order_refl] by metis
  have d: "no_objection dI" "no_objection dR" using ok by (simp_all add: parties_ok_def)
  show thesis
    by (rule that [of "?b hI" "?b hR" m1 "2 # m2" "machine_split P (?b hI')" "machine_split P (?b hR')"])
      (use new_machine [of P True minI maxI True dI "[]" gI hI, unfolded eff] I(1) known two
          new_machine [of P True minR 2 False dR "[]" gR hR, unfolded eff] R(1)
          DoHandshake_waits [of P "?b hI" "[]" "[m1]" dI]
          DoHandshake_ends [of P "?b hI" "[2 # m2]" "[m1]" hI' dI]
          DoHandshake_ends [of P "?b hR" "[m1]" "[version hR # m2]" hR' dR]
          ends_pairedI [OF run(4-6) s(4-6), of "?b hI" "?b hR"] run(1-3) s d in simp_all)
qed


subsection \<open>Properties\<close>

definition example_client :: "u8 option \<Rightarrow> (u8, u8) ConnData" where
  "example_client k = NewConnData 5 k [1, 2, 3] None None None"

definition example_server :: "u8 option \<Rightarrow> bytes \<Rightarrow> (u8, u8) ConnData" where
  "example_server k a = NewConnData 7 k [1, 2, 3] (Some a) None None"

lemmas example_defs = example_client_def example_server_def NewConnData_def

lemma example_parties:
  assumes "minR \<le> minI" "minI \<le> maxR" "maxR \<le> maxI" "maxR \<le> 2" "length a < MaxInt32"
  shows "parties_ok (\<lambda>_. Some 11) (\<lambda>_. Some 13) (minI, maxI) (minR, maxR) (example_client k)
    (example_server k' a)"
  using assms
  by (simp add: parties_ok_def example_defs auth_bytes_def no_objection_def call_back_def)

lemma example_xx:
  "cd_remoteKey (example_client None) = None" "cd_remoteKey (example_server None a) = None"
  "cd_passphraseEntropy (example_client None) = cd_passphraseEntropy (example_server None a)"
  "scrypt_key example_prims (cd_passphraseEntropy (example_server None a))
     (cd_passphraseEntropy (example_server None a)) = Some (take 32 ([1, 2, 3] @ zero32))"
  by (simp_all add: example_defs example_prims_def)

lemma example_updates:
  "ec_pub example_prims x = x" "cd_localKey (example_client k) = 5" "cd_localKey (example_server k a) = 7"
  "cd_authData (example_server k a) = Some a"
  "example_client k\<lparr>cd_remoteKey := k', cd_authData := d\<rparr> = (example_client k')\<lparr>cd_authData := d\<rparr>"
  "example_server k a\<lparr>cd_remoteKey := k'\<rparr> = example_server k' a"
  by (simp_all add: example_defs example_prims_def)

text \<open>
  C7: the first handshake (XX, both ends know the passphrase and no remote key) takes both
  ends to the end over the mailbox connection. Both machines are built; the initiator sends
  \<open>m1\<close> and waits, the responder answers \<open>m2\<close> and waits, and with the three messages \<open>m1\<close>,
  \<open>m2\<close>, \<open>m3\<close> delivered both end: what one end encrypts with, the other decrypts with, both are
  at the responder's highest version, each holds the public key of the other's static key, and
  the initiator stores the responder's auth data. From version 2 on both store the remote key.
\<close>

theorem noise_xx_agreement:
  assumes "prims_ok P" and "parties_ok gI gR (minI, maxI) (minR, maxR) dI dR"
    and "cd_remoteKey dI = None" and "cd_remoteKey dR = None"
    and "cd_passphraseEntropy dI = cd_passphraseEntropy dR"
    and "scrypt_key P (cd_passphraseEntropy dR) (cd_passphraseEntropy dR) = Some k"
    and "maxR \<noteq> 0 \<or> length (auth_bytes (cd_authData dR)) \<le> 498"
  shows "\<exists>bI bR m1 m2 m3 bI' bR'.
    NewBrontideMachine P gI (handshake_cfg True minI maxI dI) = Inr bI \<and>
    NewBrontideMachine P gR (handshake_cfg False minR maxR dR) = Inr bR \<and>
    handshake_waits P bI dI [] [m1] \<and> handshake_waits P bR dR [m1] [m2] \<and>
    handshake_ends P bI dI [m2] [m1, m3] bI'
      (dI\<lparr>cd_remoteKey := if 2 \<le> maxR then Some (ec_pub P (cd_localKey dR)) else None,
          cd_authData := Some (auth_bytes (cd_authData dR))\<rparr>) \<and>
    handshake_ends P bR dR [m1, m3] [m2] bR'
      (dR\<lparr>cd_remoteKey := if 2 \<le> maxR then Some (ec_pub P (cd_localKey dI)) else None\<rparr>) \<and>
    channels_match bI' bR' \<and> version (m_hs bI') = maxR \<and> version (m_hs bR') = maxR \<and>
    remoteStatic (m_hs bI') = Some (ec_pub P (cd_localKey dR)) \<and>
    remoteStatic (m_hs bR') = Some (ec_pub P (cd_localKey dI))"
proof -
  have v: "minI \<le> maxR" "maxR \<le> maxI" "maxR \<le> 2"
    using assms(2) by (simp_all add: parties_ok_def)
  obtain bI bR m1 m2 m3 bI' bR' where *:
    "NewBrontideMachine P gI (handshake_cfg True minI maxI dI) = Inr bI"
    "NewBrontideMachine P gR (handshake_cfg False minR maxR dR) = Inr bR"
    "handshake_waits P bI dI [] [m1]" "handshake_waits P bR dR [m1] [maxR # m2]"
    "handshake_ends P bI dI [maxR # m2] [m1, maxR # m3] bI' (stored (m_hs bI') dI)"
    "handshake_ends P bR dR [m1, maxR # m3] [maxR # m2] bR' (stored (m_hs bR') dR)"
    "ends_paired P maxR maxR dI dR bI' bR'"
    by (rule xx_machines [OF assms(1-6) v simp_thms(6) [THEN iffD2, OF TrueI]])
  have "stored (m_hs bI') dI =
      dI\<lparr>cd_remoteKey := if 2 \<le> maxR then Some (ec_pub P (cd_localKey dR)) else None,
         cd_authData := Some (auth_bytes (cd_authData dR))\<rparr>"
    "stored (m_hs bR') dR = dR\<lparr>cd_remoteKey := if 2 \<le> maxR then Some (ec_pub P (cd_localKey dI)) else None\<rparr>"
    using *(7) assms(3,4,7) by (simp_all add: stored_def ends_paired_def received_exact flip: assms(3,4))
  with * show ?thesis unfolding ends_paired_def by metis
qed

theorem noise_xx_agreement_witness:
  "\<exists>bI bR m1 m2 m3 bI' bR'.
     NewBrontideMachine example_prims (\<lambda>_. Some 11) (handshake_cfg True 0 2 (example_client None)) = Inr bI \<and>
     NewBrontideMachine example_prims (\<lambda>_. Some 13) (handshake_cfg False 0 2 (example_server None [9])) = Inr bR \<and>
     handshake_ends example_prims bI (example_client None) [m2] [m1, m3] bI'
       ((example_client (Some 7))\<lparr>cd_authData := Some [9]\<rparr>) \<and>
     handshake_ends example_prims bR (example_server None [9]) [m1, m3] [m2] bR'
       (example_server (Some 5) [9]) \<and> channels_match bI' bR'"
proof -
  have "parties_ok (\<lambda>_. Some 11) (\<lambda>_. Some 13) (0, 2) (0, 2) (example_client None) (example_server None [9])"
    by (rule example_parties) (simp_all add: MaxInt32_def)
  from noise_xx_agreement [OF example_prims_ok this example_xx disjI1]
  show ?thesis by (simp add: example_updates auth_bytes_def) blast
qed


text \<open>
  C8: a later handshake (KK, both ends hold the other's static key) needs no passphrase and
  takes both ends to the end with two messages: the machines are built with the versions raised
  to 2, the responder ends as soon as it has answered, what one end encrypts with the other
  decrypts with, and the initiator stores the responder's auth data, of any length that fits.
\<close>

theorem noise_kk_agreement:
  assumes "prims_ok P" and "parties_ok gI gR (minI, maxI) (minR, 2) dI dR"
    and "cd_remoteKey dI = Some (ec_pub P (cd_localKey dR))"
    and "cd_remoteKey dR = Some (ec_pub P (cd_localKey dI))"
  shows "\<exists>bI bR m1 m2 bI' bR'.
    NewBrontideMachine P gI (handshake_cfg True minI maxI dI) = Inr bI \<and>
    NewBrontideMachine P gR (handshake_cfg False minR 2 dR) = Inr bR \<and>
    handshake_waits P bI dI [] [m1] \<and>
    handshake_ends P bI dI [m2] [m1] bI' (dI\<lparr>cd_authData := Some (auth_bytes (cd_authData dR))\<rparr>) \<and>
    handshake_ends P bR dR [m1] [m2] bR' dR \<and>
    channels_match bI' bR' \<and> version (m_hs bI') = 2 \<and> version (m_hs bR') = 2"
proof -
  obtain bI bR m1 m2 bI' bR' where *:
    "NewBrontideMachine P gI (handshake_cfg True minI maxI dI) = Inr bI"
    "NewBrontideMachine P gR (handshake_cfg False minR 2 dR) = Inr bR"
    "handshake_waits P bI dI [] [m1]"
    "handshake_ends P bI dI [m2] [m1] bI' (stored (m_hs bI') dI)"
    "handshake_ends P bR dR [m1] [m2] bR' (stored (m_hs bR') dR)"
    "ends_paired P 2 2 dI dR bI' bR'"
    by (rule kk_machines [OF assms])
  have "stored (m_hs bI') dI = dI\<lparr>cd_authData := Some (auth_bytes (cd_authData dR))\<rparr>"
    "stored (m_hs bR') dR = dR"
    using *(6) by (simp_all add: stored_def ends_paired_def received_exact flip: assms(3,4))
  with * show ?thesis unfolding ends_paired_def by metis
qed

theorem noise_kk_agreement_witness:
  "\<exists>bI bR m1 m2 bI' bR'.
     NewBrontideMachine example_prims (\<lambda>_. Some 11) (handshake_cfg True 0 2 (example_client (Some 7))) = Inr bI \<and>
     NewBrontideMachine example_prims (\<lambda>_. Some 13) (handshake_cfg False 0 2 (example_server (Some 5) [9])) = Inr bR \<and>
     handshake_ends example_prims bI (example_client (Some 7)) [m2] [m1] bI'
       ((example_client (Some 7))\<lparr>cd_authData := Some [9]\<rparr>) \<and>
     handshake_ends example_prims bR (example_server (Some 5) [9]) [m1] [m2] bR'
       (example_server (Some 5) [9]) \<and> channels_match bI' bR'"
proof -
  have p: "parties_ok (\<lambda>_. Some 11) (\<lambda>_. Some 13) (0, 2) (0, 2) (example_client (Some 7))
      (example_server (Some 5) [9])"
    by (rule example_parties) (simp_all add: MaxInt32_def)
  have k: "cd_remoteKey (example_client (Some 7)) = Some (ec_pub example_prims (cd_localKey (example_server (Some 5) [9])))"
    "cd_remoteKey (example_server (Some 5) [9]) = Some (ec_pub example_prims (cd_localKey (example_client (Some 7))))"
    by (simp_all add: example_defs example_prims_def)
  from noise_kk_agreement [OF example_prims_ok p k]
  show ?thesis by (simp add: example_updates auth_bytes_def) blast
qed

text \<open>
  C38: the version byte of an act is not authenticated. When both ends support version 2, a
  relay that lowers the byte of act 2 from 2 to 1 and raises that of act 3 from 1 to 2 leaves
  the rest of the messages alone and both ends complete the handshake with matching channels,
  the initiator at version 1 and the responder at version 2. Only the responder stores the
  remote key: it goes on to the KK pattern while the initiator stays with XX.
\<close>

theorem noise_version_downgrade:
  assumes "prims_ok P" and "parties_ok gI gR (minI, maxI) (minR, 2) dI dR" and "minI \<le> 1"
    and "cd_remoteKey dI = None" and "cd_remoteKey dR = None"
    and "cd_passphraseEntropy dI = cd_passphraseEntropy dR"
    and "scrypt_key P (cd_passphraseEntropy dR) (cd_passphraseEntropy dR) = Some k"
  shows "\<exists>bI bR m1 m2 m3 bI' bR' dI' dR'.
    NewBrontideMachine P gI (handshake_cfg True minI maxI dI) = Inr bI \<and>
    NewBrontideMachine P gR (handshake_cfg False minR 2 dR) = Inr bR \<and>
    handshake_waits P bI dI [] [m1] \<and> handshake_waits P bR dR [m1] [2 # m2] \<and>
    handshake_ends P bI dI [1 # m2] [m1, 1 # m3] bI' dI' \<and>
    handshake_ends P bR dR [m1, 2 # m3] [2 # m2] bR' dR' \<and>
    channels_match bI' bR' \<and> version (m_hs bI') = 1 \<and> version (m_hs bR') = 2 \<and>
    ConnData_HandshakePattern dI' = XXPattern \<and> ConnData_HandshakePattern dR' = KKPattern"
proof -
  have v: "minI \<le> 1" "1 \<le> maxI" "(1 :: u8) \<le> 2" "((1 :: u8) = 0) = ((2 :: u8) = 0)"
    using assms(2,3) order_trans [of "1 :: u8" 2 maxI] by (simp_all add: parties_ok_def)
  obtain bI bR m1 m2 m3 bI' bR' where *:
    "NewBrontideMachine P gI (handshake_cfg True minI maxI dI) = Inr bI"
    "NewBrontideMachine P gR (handshake_cfg False minR 2 dR) = Inr bR"
    "handshake_waits P bI dI [] [m1]" "handshake_waits P bR dR [m1] [2 # m2]"
    "handshake_ends P bI dI [1 # m2] [m1, 1 # m3] bI' (stored (m_hs bI') dI)"
    "handshake_ends P bR dR [m1, 2 # m3] [2 # m2] bR' (stored (m_hs bR') dR)"
    "ends_paired P 1 2 dI dR bI' bR'"
    by (rule xx_machines [OF assms(1,2,4-7) v])
  have "\<not> (2 :: u8) \<le> 1" by (simp add: word_le_nat_alt)
  then have "ConnData_HandshakePattern (stored (m_hs bI') dI) = XXPattern"
    "ConnData_HandshakePattern (stored (m_hs bR') dR) = KKPattern"
    using *(7) assms(4,5) by (simp_all add: stored_def ends_paired_def ConnData_HandshakePattern_def)
  with * show ?thesis unfolding ends_paired_def by blast
qed

theorem noise_version_downgrade_witness:
  "\<exists>bI bR m1 m2 m3 bI' bR' dI' dR'.
     NewBrontideMachine example_prims (\<lambda>_. Some 11) (handshake_cfg True 0 2 (example_client None)) = Inr bI \<and>
     NewBrontideMachine example_prims (\<lambda>_. Some 13) (handshake_cfg False 0 2 (example_server None [9])) = Inr bR \<and>
     handshake_ends example_prims bI (example_client None) [1 # m2] [m1, 1 # m3] bI' dI' \<and>
     handshake_ends example_prims bR (example_server None [9]) [m1, 2 # m3] [2 # m2] bR' dR' \<and>
     ConnData_HandshakePattern dI' = XXPattern \<and> ConnData_HandshakePattern dR' = KKPattern"
proof -
  have "parties_ok (\<lambda>_. Some 11) (\<lambda>_. Some 13) (0, 2) (0, 2) (example_client None) (example_server None [9])"
    by (rule example_parties) (simp_all add: MaxInt32_def)
  from noise_version_downgrade [OF example_prims_ok this _ example_xx]
  show ?thesis by simp blast
qed

end
