(* ===== verification/Noise_Transport.thy ===== *)
theory Noise_Transport
  imports Noise_Machine
begin

section \<open>The encrypted transport (mailbox/noise.go)\<close>

text \<open>
  What \<^verbatim>\<open>WriteMessage\<close>, \<^verbatim>\<open>Flush\<close> and \<^verbatim>\<open>ReadMessage\<close> of the machine do
  together: partial writes resume where they stopped, and a message that is written whole is
  read back by the peer, whose cipher has advanced by the same two steps.
\<close>

subsection \<open>Partial writes\<close>

text \<open>
  What the documentation of \<^verbatim>\<open>io.Writer\<close> promises: \<open>n \<le> len(b)\<close> bytes are written, and a
  short write comes with an error. \<open>wire\<close> are the bytes written so far.
\<close>

definition writer_ok :: "'c writer \<Rightarrow> ('c \<Rightarrow> bytes) \<Rightarrow> bool" where
  "writer_ok wr wire \<longleftrightarrow> (\<forall>b c. case wr b c of ((n, err), c') \<Rightarrow>
     n \<le> length b \<and> wire c' = wire c @ take n b \<and> (n < length b \<longrightarrow> err \<noteq> None))"

lemma writer_okE:
  assumes "writer_ok wr wire"
  obtains n err c' where "wr b c = ((n, err), c')" and "n \<le> length b"
    and "wire c' = wire c @ take n b" and "err = None \<Longrightarrow> n = length b"
proof -
  obtain n err c' where w: "wr b c = ((n, err), c')" by (metis surj_pair)
  moreover have "n \<le> length b \<and> wire c' = wire c @ take n b \<and> (n < length b \<longrightarrow> err \<noteq> None)"
    using assms w unfolding writer_ok_def by (metis (mono_tags, lifting) case_prod_conv)
  ultimately show thesis by (intro that [of n err c']) (auto simp: le_less)
qed

definition pending :: "('sk, 'pk) Machine \<Rightarrow> bytes" where
  "pending b = nextHeaderSend b @ nextBodySend b"

text \<open>The plaintext bytes that are still to be sent.\<close>

definition plain_left :: "('sk, 'pk) Machine \<Rightarrow> nat" where
  "plain_left b = length (nextBodySend b) - macSize"

text \<open>What \<^verbatim>\<open>Flush\<close> leaves alone.\<close>

definition keeps :: "('sk, 'pk) Machine \<Rightarrow> ('sk, 'pk) handshakeState \<times> cipherState \<times> cipherState" where
  "keeps b = (m_hs b, sendCipher b, recvCipher b)"

lemma body_count_left: "body_count n l = int (n + l - macSize) - int (l - macSize)"
  by (auto simp: body_count_def)

lemma flush_header_step:
  assumes "writer_ok wr wire" and "flush_header wr b c = ((err, b'), c')"
  shows "wire c' @ nextHeaderSend b' = wire c @ nextHeaderSend b"
    and "err = None \<Longrightarrow> nextHeaderSend b' = []"
    and "keeps b' = keeps b \<and> nextBodySend b' = nextBodySend b"
proof -
  obtain k e c1 where h: "wr (nextHeaderSend b) c = ((k, e), c1)" "k \<le> length (nextHeaderSend b)"
      "wire c1 = wire c @ take k (nextHeaderSend b)" "e = None \<Longrightarrow> k = length (nextHeaderSend b)"
    by (rule writer_okE [OF assms(1), of "nextHeaderSend b" c]) blast
  show "wire c' @ nextHeaderSend b' = wire c @ nextHeaderSend b"
    and "keeps b' = keeps b \<and> nextBodySend b' = nextBodySend b"
    using assms(2) h(1-3) by (auto simp: flush_header_def keeps_def split: if_splits)
  show "err = None \<Longrightarrow> nextHeaderSend b' = []"
    using assms(2) h(1,2,4) by (auto simp: flush_header_def split: if_splits)
qed

lemma flush_body_step:
  assumes "writer_ok wr wire" and "flush_body wr b c = ((n, err, b'), c')"
  shows "wire c' @ nextBodySend b' = wire c @ nextBodySend b"
    and "n = int (plain_left b) - int (plain_left b')"
    and "err = None \<Longrightarrow> nextBodySend b' = []"
    and "keeps b' = keeps b \<and> nextHeaderSend b' = nextHeaderSend b"
proof -
  obtain k e c1 where h: "wr (nextBodySend b) c = ((k, e), c1)" "k \<le> length (nextBodySend b)"
      "wire c1 = wire c @ take k (nextBodySend b)" "e = None \<Longrightarrow> k = length (nextBodySend b)"
    by (rule writer_okE [OF assms(1), of "nextBodySend b" c]) blast
  show "wire c' @ nextBodySend b' = wire c @ nextBodySend b"
    and "keeps b' = keeps b \<and> nextHeaderSend b' = nextHeaderSend b"
    and "n = int (plain_left b) - int (plain_left b')"
    using assms(2) h(1-3)
    by (auto simp: flush_body_def Let_def plain_left_def keeps_def body_count_left split: if_splits)
  show "err = None \<Longrightarrow> nextBodySend b' = []"
    using assms(2) h(1,2,4) by (auto simp: flush_body_def Let_def split: if_splits)
qed

lemma Flush_step:
  assumes "writer_ok wr wire" and "Flush wr b c = ((n, err, b'), c')"
  shows "wire c' @ pending b' = wire c @ pending b"
    and "n = int (plain_left b) - int (plain_left b')"
    and "err = None \<Longrightarrow> pending b' = []" and "keeps b' = keeps b"
proof -
  obtain e1 b1 c1 where 1: "flush_header wr b c = ((e1, b1), c1)" by (metis surj_pair)
  note h = flush_header_step [OF assms(1) 1]
  have p: "plain_left b1 = plain_left b" using h(3) by (simp add: plain_left_def)
  have w: "wire c1 @ pending b1 = wire c @ pending b"
    using h(1,3) by (simp add: pending_def flip: append_assoc)
  have "wire c' @ pending b' = wire c @ pending b \<and> n = int (plain_left b) - int (plain_left b') \<and>
    (err = None \<longrightarrow> pending b' = []) \<and> keeps b' = keeps b"
  proof (cases e1)
    case (Some e)
    with assms(2) 1 have "n = 0" "err = Some e" "b' = b1" "c' = c1" by (simp_all add: Flush_def)
    with w p h(3) show ?thesis by simp
  next
    case None
    with assms(2) 1 have 2: "flush_body wr b1 c1 = ((n, err, b'), c')" by (simp add: Flush_def)
    note f = flush_body_step [OF assms(1) 2]
    have e: "nextHeaderSend b1 = []" using h(2) None by simp
    have "wire c' @ pending b' = wire c1 @ pending b1"
      using f(1,4) by (simp add: pending_def e)
    then show ?thesis using w p f(2,3,4) h(3) e by (simp add: pending_def)
  qed
  then show "wire c' @ pending b' = wire c @ pending b"
    and "n = int (plain_left b) - int (plain_left b')"
    and "err = None \<Longrightarrow> pending b' = []" and "keeps b' = keeps b" by blast+
qed

lemma Flush_nothing: "pending b = [] \<Longrightarrow> Flush wr b c = ((0, None, b), c)"
  by (simp add: pending_def Flush_def flush_header_def flush_body_def)

text \<open>Calling \<^verbatim>\<open>Flush\<close> again and again; the counts and errors it returns.\<close>

fun flushes :: "'c writer \<Rightarrow> nat \<Rightarrow> ('sk, 'pk) Machine \<Rightarrow> 'c \<Rightarrow>
    (int \<times> go_error option) list \<times> ('sk, 'pk) Machine \<times> 'c" where
  "flushes wr 0 b c = ([], b, c)"
| "flushes wr (Suc k) b c =
     (case Flush wr b c of ((n, err, b1), c1) \<Rightarrow>
        case flushes wr k b1 c1 of (rs, b2, c2) \<Rightarrow> ((n, err) # rs, b2, c2))"

lemma flushes_nothing: "pending b = [] \<Longrightarrow> flushes wr k b c = (replicate k (0, None), b, c)"
  by (induction k) (simp_all add: Flush_nothing)

lemma flushes_steps:
  assumes "writer_ok wr wire" and "flushes wr k b c = (rs, b', c')"
  shows "wire c' @ pending b' = wire c @ pending b \<and>
    sum_list (map fst rs) = int (plain_left b) - int (plain_left b') \<and>
    (None \<in> snd ` set rs \<longrightarrow> pending b' = []) \<and> keeps b' = keeps b"
  using assms(2)
proof (induction k arbitrary: b c rs)
  case 0
  then show ?case by simp
next
  case (Suc k)
  obtain n err b1 c1 where 1: "Flush wr b c = ((n, err, b1), c1)" by (metis surj_pair)
  obtain rs1 where 2: "flushes wr k b1 c1 = (rs1, b', c')" "rs = (n, err) # rs1"
    using Suc.prems 1 by (auto split: prod.splits)
  note f = Flush_step [OF assms(1) 1] Suc.IH [OF 2(1)]
  have "err = None \<Longrightarrow> pending b' = []"
    using f(3) flushes_nothing [of b1 wr k c1] 2(1) by simp
  with f 2(2) show ?case by auto
qed

subsection \<open>Frames\<close>

text \<open>The two ciphertexts of a message, and the cipher after them.\<close>

definition frame :: "('sk, 'pk) prims \<Rightarrow> cipherState \<Rightarrow> bytes \<Rightarrow> bytes \<times> bytes" where
  "frame P c p =
     (aead_seal P (secretKey c) (nonce_bytes (cs_nonce c)) [] (put_u16 (of_nat (length p))),
      aead_seal P (secretKey (bump P c)) (nonce_bytes (cs_nonce (bump P c))) [] p)"

definition next_cipher :: "('sk, 'pk) prims \<Rightarrow> cipherState \<Rightarrow> cipherState" where
  "next_cipher P c = bump P (bump P c)"

lemma next_cipher_inv [simp]: "cipher_inv c \<Longrightarrow> cipher_inv (next_cipher P c)"
  by (simp add: next_cipher_def bump_inv)

lemma frame_lengths:
  assumes "prims_ok P"
  shows "length (fst (frame P c p)) = encHeaderSize" "length (snd (frame P c p)) = length p + macSize"
  using assms by (simp_all add: frame_def prims_okD(2) encHeaderSize_def lengthHeaderSize_def)

lemma WriteMessage_frame:
  assumes "cipher_inv (sendCipher b)" and "pending b = []" and "length p \<le> MaxUint16"
  shows "WriteMessage P p b = (None, b\<lparr>sendCipher := next_cipher P (sendCipher b),
    nextHeaderSend := fst (frame P (sendCipher b) p), nextBodySend := snd (frame P (sendCipher b) p)\<rparr>)"
  using assms bump_inv [OF assms(1), of P]
  by (simp add: WriteMessage_def Encrypt_inv pending_def frame_def next_cipher_def)

lemma Decrypt_inv:
  "cipher_inv c \<Longrightarrow> Decrypt P ad ct c =
     Some (aead_open P (secretKey c) (nonce_bytes (cs_nonce c)) ad ct, bump P c)"
  by (simp add: Decrypt_def cipher_inv_def)

lemma get_put_u16_exact [simp]: "get_u16 (put_u16 x) = x"
  using get_put_u16 [of x "[]"] by simp

context message_conn
begin

text \<open>A message is flushed as two writes; a reader of its two frames gets the message.\<close>

lemma write_flush:
  assumes "prims_ok P" and "cipher_inv (sendCipher b)" and "pending b = []" and "length p \<le> MaxUint16"
    and "MaxUint16 + macSize < lim"
  obtains b1 c' where "WriteMessage P p b = (None, b1)"
    and "Flush wr b1 c = ((int (length p), None, b\<lparr>sendCipher := next_cipher P (sendCipher b)\<rparr>), c')"
    and "outbox c' = outbox c @ [fst (frame P (sendCipher b) p), snd (frame P (sendCipher b) p)]"
    and "inbox c' = inbox c" and "buf c' = buf c"
proof -
  let ?h = "fst (frame P (sendCipher b) p)" and ?d = "snd (frame P (sendCipher b) p)"
  let ?b1 = "b\<lparr>sendCipher := next_cipher P (sendCipher b), nextHeaderSend := ?h, nextBodySend := ?d\<rparr>"
  note l = frame_lengths [OF assms(1), of "sendCipher b" p]
  have ne: "?h \<noteq> []" "?d \<noteq> []" using l by (auto simp: encHeaderSize_def macSize_def)
  have lim: "length ?h < lim" "length ?d < lim"
    using l assms(4,5) by (simp_all add: encHeaderSize_def lengthHeaderSize_def MaxUint16_def macSize_def)
  obtain c1 where c1: "wr ?h c = ((length ?h, None), c1)" "outbox c1 = outbox c @ [?h]"
      "inbox c1 = inbox c" "buf c1 = buf c"
    using wr_msg [OF lim(1)] by blast
  obtain c2 where c2: "wr ?d c1 = ((length ?d, None), c2)" "outbox c2 = outbox c1 @ [?d]"
      "inbox c2 = inbox c1" "buf c2 = buf c1"
    using wr_msg [OF lim(2)] by blast
  have p: "nextHeaderSend b = []" "nextBodySend b = []" using assms(3) by (simp_all add: pending_def)
  have "Flush wr ?b1 c = ((int (length p), None, b\<lparr>sendCipher := next_cipher P (sendCipher b)\<rparr>), c2)"
    using c1(1) c2(1) ne l p
    by (simp add: Flush_def flush_header_def flush_body_def Let_def body_count_left
        Machine.equality)
  then show thesis
    by (intro that [of ?b1 c2]) (use WriteMessage_frame [OF assms(2-4)] c1 c2 in simp_all)
qed

lemma read_frame:
  assumes "prims_ok P" and "cipher_inv (recvCipher b)" and "length p \<le> MaxUint16" and "no_empty c"
    and "stream c = fst (frame P (recvCipher b) p) @ snd (frame P (recvCipher b) p) @ rest"
  obtains c' where "ReadMessage P rd b c = Some (Inr p, b\<lparr>recvCipher := next_cipher P (recvCipher b)\<rparr>, c')"
    and "stream c' = rest" and "no_empty c'" and "outbox c' = outbox c"
proof -
  let ?h = "fst (frame P (recvCipher b) p)" and ?d = "snd (frame P (recvCipher b) p)"
  note l = frame_lengths [OF assms(1), of "recvCipher b" p]
  obtain c1 where c1: "ReadFull rd encHeaderSize c = Some (Inr ?h, c1)" "stream c1 = ?d @ rest"
      "no_empty c1" "outbox c1 = outbox c"
    using ReadFull_stream [OF assms(4), of encHeaderSize] assms(5) l by auto
  obtain c2 where c2: "ReadFull rd (length p + macSize) c1 = Some (Inr ?d, c2)" "stream c2 = rest"
      "no_empty c2" "outbox c2 = outbox c1"
    using ReadFull_stream [OF c1(3), of "length p + macSize"] c1(2) l by auto
  let ?b1 = "b\<lparr>recvCipher := bump P (recvCipher b)\<rparr>"
  let ?n = "ucast (of_nat (length p) :: u16) + of_nat macSize :: u32"
  have n: "unat ?n = length p + macSize"
    using assms(3) by (simp add: MaxUint16_def macSize_def unat_word_ariths unat_of_nat take_bit_eq_mod
        unsigned_ucast_eq)
  have "ReadHeader P rd b c = Some (Inr ?n, ?b1, c1)"
    using c1(1) assms(1,2) by (simp add: ReadHeader_def Decrypt_inv frame_def prims_okD(1))
  moreover have "ReadBody P rd (length p + macSize) ?b1 c1 =
      Some (Inr p, b\<lparr>recvCipher := next_cipher P (recvCipher b)\<rparr>, c2)"
    using c2(1) assms(1) bump_inv [OF assms(2), of P]
    by (simp add: ReadBody_def Decrypt_inv frame_def prims_okD(1) next_cipher_def)
  ultimately have "ReadMessage P rd b c = Some (Inr p, b\<lparr>recvCipher := next_cipher P (recvCipher b)\<rparr>, c2)"
    by (simp add: ReadMessage_def n)
  then show thesis by (intro that [of c2]) (use c1 c2 in simp_all)
qed

end


subsection \<open>Properties\<close>

text \<open>
  C20: a message survives partial writes. After \<^verbatim>\<open>WriteMessage\<close>, any number of calls of
  \<^verbatim>\<open>Flush\<close> on a writer that keeps the contract of \<^verbatim>\<open>io.Writer\<close> put a prefix of
  the two frames on the wire and keep the rest; their counts add up to the plaintext bytes that
  are out, to the length of the message once everything is; a call without an error leaves
  nothing behind; and as long as something is left the next message is refused.
\<close>

theorem flush_resumes:
  assumes "prims_ok P" and "writer_ok wr wire" and "cipher_inv (sendCipher b)" and "pending b = []"
    and "length p \<le> MaxUint16" and "WriteMessage P p b = (None, b1)"
    and "flushes wr k b1 c = (rs, b', c')"
  shows "wire c' @ pending b' =
      wire c @ fst (frame P (sendCipher b) p) @ snd (frame P (sendCipher b) p) \<and>
    sum_list (map fst rs) = int (length p) - int (plain_left b') \<and>
    (None \<in> snd ` set rs \<longrightarrow> pending b' = [] \<and> sum_list (map fst rs) = int (length p)) \<and>
    (pending b' \<noteq> [] \<longrightarrow> length q \<le> MaxUint16 \<longrightarrow>
       WriteMessage P q b' = (Some ErrMessageNotFlushed, b')) \<and>
    sendCipher b' = next_cipher P (sendCipher b)"
proof -
  note b1 = assms(6) [unfolded WriteMessage_frame [OF assms(3-5)]]
  note s = flushes_steps [OF assms(2,7)]
  have "plain_left b1 = length p"
    using b1 frame_lengths(2) [OF assms(1), of "sendCipher b" p] by (auto simp: plain_left_def)
  moreover have "pending b1 = fst (frame P (sendCipher b) p) @ snd (frame P (sendCipher b) p)"
    using b1 by (auto simp: pending_def)
  moreover have "sendCipher b' = next_cipher P (sendCipher b)"
    using s b1 by (auto simp: keeps_def)
  moreover have "pending b' \<noteq> [] \<Longrightarrow> length q \<le> MaxUint16 \<Longrightarrow>
      WriteMessage P q b' = (Some ErrMessageNotFlushed, b')"
    by (auto simp: WriteMessage_def pending_def)
  ultimately show ?thesis using s by (auto simp: pending_def plain_left_def)
qed

text \<open>A writer that takes the numbers of bytes of a schedule, then everything.\<close>

definition slow_Write :: "(bytes \<times> nat list) writer" where
  "slow_Write b s =
     (case s of
        (w, []) \<Rightarrow> ((length b, None), (w @ b, []))
      | (w, n # ns) \<Rightarrow>
          ((min n (length b), if n < length b then Some (ErrConn ''timeout'') else None),
           (w @ take n b, ns)))"

lemma slow_Write_ok: "writer_ok slow_Write fst"
  by (auto simp: writer_ok_def slow_Write_def split: list.splits)

definition example_machine :: "(u8, u8) Machine" where
  "example_machine =
     \<lparr>m_hs = projr (newHandshakeState example_prims 0 2 XXPattern True [] 5 None [] None (\<lambda>_. Some 1)),
      sendCipher = InitializeKey zero32 empty_cipherState,
      recvCipher = InitializeKey zero32 empty_cipherState, nextHeaderSend = [], nextBodySend = []\<rparr>"

theorem flush_resumes_witness:
  "\<exists>b1 rs b' c'. WriteMessage example_prims [1, 2, 3] example_machine = (None, b1) \<and>
     flushes slow_Write 3 b1 ([], [4, 18, 2]) = (rs, b', c') \<and>
     map fst rs = [0, 2, 1] \<and> sum_list (map fst rs) = 3 \<and> pending b' = [] \<and>
     fst c' = [0, 3] @ replicate 16 0 @ [1, 2, 3] @ replicate 16 0"
proof -
  let ?c = "InitializeKey zero32 empty_cipherState"
  have inv: "cipher_inv (sendCipher example_machine)" "pending example_machine = []"
    by (simp_all add: example_machine_def pending_def)
  have len: "length [1 :: u8, 2, 3] \<le> MaxUint16" by (simp add: MaxUint16_def)
  note w = WriteMessage_frame [OF inv len, of example_prims]
  have f: "frame example_prims (sendCipher example_machine) [1, 2, 3] =
      ([0, 3] @ replicate 16 0, [1, 2, 3] @ replicate 16 0)"
    by (simp add: frame_def example_prims_def put_u16_def)
  obtain b1 where b1: "WriteMessage example_prims [1, 2, 3] example_machine = (None, b1)"
      "nextHeaderSend b1 = [0, 3] @ replicate 16 0" "nextBodySend b1 = [1, 2, 3] @ replicate 16 0"
    using w by (simp add: f)
  have "\<exists>b' c'. flushes slow_Write 3 b1 ([], [4, 18, 2]) =
      ([(0, Some (ErrConn ''timeout'')), (2, Some (ErrConn ''timeout'')), (1, None)], b', c')"
    by (simp add: numeral_3_eq_3 Flush_def flush_header_def flush_body_def slow_Write_def b1(2,3)
        body_count_def macSize_def Let_def)
  then obtain b' c' where r: "flushes slow_Write 3 b1 ([], [4, 18, 2]) =
      ([(0, Some (ErrConn ''timeout'')), (2, Some (ErrConn ''timeout'')), (1, None)], b', c')"
    by blast
  show ?thesis
    using flush_resumes [OF example_prims_ok slow_Write_ok inv len b1(1) r, of "[]"] b1(1) r
    by (cases c') (auto simp: f simp del: flushes.simps)
qed

end
