(* ===== verification/Noise_Conn.thy ===== *)
theory Noise_Conn
  imports Noise_Transport
begin

section \<open>Noise connections (mailbox/tcp\_noise\_conn.go)\<close>

text \<open>
  \<^verbatim>\<open>NoiseConn\<close>, the byte stream over a noise machine: writes are cut into messages of at
  most 65535 bytes, reads are served from a buffer that holds the rest of the last message. The
  connection below is a state \<open>'c\<close> with its reader and writer.
\<close>

record ('sk, 'pk, 'c) NoiseConn =
  nc_conn :: 'c
  nc_noise :: "('sk, 'pk) Machine"
  nc_readBuf :: bytes

subsection \<open>Message-oriented calls\<close>

definition ReadNextMessage :: "('sk, 'pk) prims \<Rightarrow> 'c reader \<Rightarrow> ('sk, 'pk, 'c) NoiseConn \<Rightarrow>
    ((go_error + bytes) \<times> ('sk, 'pk, 'c) NoiseConn) option" where
  "ReadNextMessage P rd nc = do {
     (r, b, c) \<leftarrow> ReadMessage P rd (nc_noise nc) (nc_conn nc);
     Some (r, nc\<lparr>nc_noise := b, nc_conn := c\<rparr>) }"

definition ReadNextHeader :: "('sk, 'pk) prims \<Rightarrow> 'c reader \<Rightarrow> ('sk, 'pk, 'c) NoiseConn \<Rightarrow>
    ((go_error + u32) \<times> ('sk, 'pk, 'c) NoiseConn) option" where
  "ReadNextHeader P rd nc = do {
     (r, b, c) \<leftarrow> ReadHeader P rd (nc_noise nc) (nc_conn nc);
     Some (r, nc\<lparr>nc_noise := b, nc_conn := c\<rparr>) }"

definition ReadNextBody :: "('sk, 'pk) prims \<Rightarrow> 'c reader \<Rightarrow> nat \<Rightarrow> ('sk, 'pk, 'c) NoiseConn \<Rightarrow>
    ((go_error + bytes) \<times> ('sk, 'pk, 'c) NoiseConn) option" where
  "ReadNextBody P rd n nc = do {
     (r, b, c) \<leftarrow> ReadBody P rd n (nc_noise nc) (nc_conn nc);
     Some (r, nc\<lparr>nc_noise := b, nc_conn := c\<rparr>) }"

definition conn_WriteMessage :: "('sk, 'pk) prims \<Rightarrow> bytes \<Rightarrow> ('sk, 'pk, 'c) NoiseConn \<Rightarrow>
    go_error option \<times> ('sk, 'pk, 'c) NoiseConn" where
  "conn_WriteMessage P b nc =
     (case WriteMessage P b (nc_noise nc) of (err, m) \<Rightarrow> (err, nc\<lparr>nc_noise := m\<rparr>))"

definition conn_Flush :: "'c writer \<Rightarrow> ('sk, 'pk, 'c) NoiseConn \<Rightarrow>
    (int \<times> go_error option) \<times> ('sk, 'pk, 'c) NoiseConn" where
  "conn_Flush wr nc =
     (case Flush wr (nc_noise nc) (nc_conn nc) of
        ((n, err, m), c) \<Rightarrow> ((n, err), nc\<lparr>nc_noise := m, nc_conn := c\<rparr>))"

subsection \<open>Read and Write\<close>

definition NoiseConn_Read :: "('sk, 'pk) prims \<Rightarrow> 'c reader \<Rightarrow> nat \<Rightarrow> ('sk, 'pk, 'c) NoiseConn \<Rightarrow>
    ((bytes \<times> go_error option) \<times> ('sk, 'pk, 'c) NoiseConn) option" where
  "NoiseConn_Read P rd n nc =
     (if nc_readBuf nc = [] then do {
        (r, nc1) \<leftarrow> ReadNextMessage P rd nc;
        Some (case r of
           Inl e \<Rightarrow> (([], Some e), nc1)
         | Inr plaintext \<Rightarrow>
             let (res, left) = buffer_Read n plaintext in (res, nc1\<lparr>nc_readBuf := left\<rparr>)) }
      else
        let (res, left) = buffer_Read n (nc_readBuf nc) in Some (res, nc\<lparr>nc_readBuf := left\<rparr>))"

text \<open>
  The loop of \<^verbatim>\<open>Write\<close>: \<open>w\<close> bytes are written, \<open>cs\<close> is the size of the chunks. A negative
  bound of a slice would panic.
\<close>

partial_function (option) write_chunks :: "('sk, 'pk) prims \<Rightarrow> 'c writer \<Rightarrow> bytes \<Rightarrow> int \<Rightarrow> int \<Rightarrow>
    ('sk, 'pk, 'c) NoiseConn \<Rightarrow> ((int \<times> go_error option) \<times> ('sk, 'pk, 'c) NoiseConn) option" where
  "write_chunks P wr b cs w nc =
     (if w < int (length b) then
        let cs' = (if int (length b) < w + cs then int (length b) - w else cs) in
        if w < 0 \<or> cs' < 0 then Some ((w, Some ErrPanic), nc)
        else
          let wm = conn_WriteMessage P (take (nat cs') (drop (nat w) b)) nc in
          (case fst wm of
             Some e \<Rightarrow> Some ((w, Some e), snd wm)
           | None \<Rightarrow>
               let fl = conn_Flush wr (snd wm) in
               (case snd (fst fl) of
                  Some e \<Rightarrow> Some ((w + fst (fst fl), Some e), snd fl)
                | None \<Rightarrow> write_chunks P wr b cs' (w + fst (fst fl)) (snd fl)))
      else Some ((w, None), nc))"

definition NoiseConn_Write :: "('sk, 'pk) prims \<Rightarrow> 'c writer \<Rightarrow> bytes \<Rightarrow> ('sk, 'pk, 'c) NoiseConn \<Rightarrow>
    ((int \<times> go_error option) \<times> ('sk, 'pk, 'c) NoiseConn) option" where
  "NoiseConn_Write P wr b nc =
     (if length b \<le> MaxUint16 then
        Some (case conn_WriteMessage P b nc of
           (Some e, nc1) \<Rightarrow> ((0, Some e), nc1)
         | (None, nc1) \<Rightarrow> conn_Flush wr nc1)
      else write_chunks P wr b (int MaxUint16) 0 nc)"

subsection \<open>Write returns\<close>

lemma Flush_count:
  assumes "Flush wr b c = ((n, err, b'), c')"
  shows "n = int (plain_left b) - int (plain_left b')" and "plain_left b' \<le> plain_left b"
proof -
  obtain e1 b1 c1 where 1: "flush_header wr b c = ((e1, b1), c1)" by (metis surj_pair)
  have b1: "plain_left b1 = plain_left b"
    using 1 by (auto simp: flush_header_def plain_left_def split: if_splits prod.splits)
  have "n = int (plain_left b) - int (plain_left b') \<and> plain_left b' \<le> plain_left b"
  proof (cases e1)
    case (Some e)
    with assms 1 b1 show ?thesis by (auto simp: Flush_def)
  next
    case None
    with assms 1 have "flush_body wr b1 c1 = ((n, err, b'), c')" by (simp add: Flush_def)
    with b1 show ?thesis
      by (auto simp: flush_body_def Let_def plain_left_def body_count_left
          split: if_splits prod.splits)
  qed
  then show "n = int (plain_left b) - int (plain_left b')" and "plain_left b' \<le> plain_left b"
    by blast+
qed

lemma WriteMessage_None:
  assumes "WriteMessage P p b = (None, b1)" and "prims_ok P"
  shows "pending b = []" and "plain_left b1 = length p"
  using assms
  by (auto simp: WriteMessage_def pending_def plain_left_def Encrypt_def prims_okD(2)
      split: if_splits option.splits)

lemma WriteMessage_pending:
  "pending b \<noteq> [] \<Longrightarrow> \<exists>e. WriteMessage P p b = (Some e, b)"
  by (auto simp: WriteMessage_def pending_def)

text \<open>
  The one clause of the contract of \<^verbatim>\<open>io.Writer\<close> that matters here: a short write comes
  with an error.
\<close>

definition full_writes :: "'c writer \<Rightarrow> bool" where
  "full_writes wr \<longleftrightarrow> (\<forall>b c n c'. wr b c = ((n, None), c') \<longrightarrow> n = length b)"

lemma full_writesD: "full_writes wr \<Longrightarrow> wr b c = ((n, None), c') \<Longrightarrow> n = length b"
  unfolding full_writes_def by blast

lemma writer_ok_full: "writer_ok wr wire \<Longrightarrow> full_writes wr"
  unfolding full_writes_def by (metis prod.inject writer_okE)

lemma Flush_full:
  assumes "full_writes wr" and "Flush wr b c = ((n, None, b'), c')"
  shows "pending b' = []"
proof -
  obtain e1 b1 c1 where 1: "flush_header wr b c = ((e1, b1), c1)" by (metis surj_pair)
  with assms(2) have e: "e1 = None" "flush_body wr b1 c1 = ((n, None, b'), c')"
    by (auto simp: Flush_def split: option.splits)
  have "nextHeaderSend b1 = []"
    using 1 e(1) assms(1) by (auto simp: flush_header_def split: if_splits prod.splits dest: full_writesD)
  with e(2) assms(1) show ?thesis
    by (auto simp: flush_body_def pending_def Let_def split: if_splits prod.splits dest: full_writesD)
qed

text \<open>One round of the loop.\<close>

lemma write_round:
  assumes "prims_ok P" and "conn_WriteMessage P p nc = (None, nc1)"
    and "conn_Flush wr nc1 = ((n, err), nc2)"
  shows "0 \<le> n" and "n \<le> int (length p)" and "pending (nc_noise nc2) = [] \<Longrightarrow> n = int (length p)"
    and "full_writes wr \<Longrightarrow> err = None \<Longrightarrow> n = int (length p)"
proof -
  obtain b1 where 1: "WriteMessage P p (nc_noise nc) = (None, b1)" "nc1 = nc\<lparr>nc_noise := b1\<rparr>"
    using assms(2) by (auto simp: conn_WriteMessage_def split: prod.splits)
  obtain b2 c2 where 2: "Flush wr b1 (nc_conn nc) = ((n, err, b2), c2)"
      "nc2 = nc\<lparr>nc_noise := b2, nc_conn := c2\<rparr>"
    using assms(3) 1(2) by (auto simp: conn_Flush_def split: prod.splits)
  note c = Flush_count [OF 2(1)] WriteMessage_None [OF 1(1) assms(1)]
  show "0 \<le> n" and "n \<le> int (length p)" using c by simp_all
  show *: "pending (nc_noise nc2) = [] \<Longrightarrow> n = int (length p)"
    using c 2(2) by (simp add: pending_def plain_left_def)
  show "full_writes wr \<Longrightarrow> err = None \<Longrightarrow> n = int (length p)"
    using Flush_full [of wr b1 "nc_conn nc" n b2 c2] * 2 by simp
qed

lemma write_chunks_pending:
  assumes "pending (nc_noise nc) \<noteq> []" and "w \<le> int (length b)"
  shows "\<exists>err nc'. write_chunks P wr b cs w nc = Some ((w, err), nc') \<and>
    (err = None \<longrightarrow> w = int (length b))"
proof -
  have "\<exists>e nc'. conn_WriteMessage P p nc = (Some e, nc')" for p
    using WriteMessage_pending [OF assms(1), of P p] by (auto simp: conn_WriteMessage_def)
  then obtain e nc' where "conn_WriteMessage P
      (take (nat (if int (length b) < w + cs then int (length b) - w else cs)) (drop (nat w) b)) nc =
      (Some e, nc')" by blast
  then show ?thesis using assms(2) by (subst write_chunks.simps) (simp add: Let_def)
qed

lemma write_chunks_step:
  assumes "0 \<le> w" and "w < int (length b)" and "0 < cs"
    and "cs' = (if int (length b) < w + cs then int (length b) - w else cs)"
    and "conn_WriteMessage P (take (nat cs') (drop (nat w) b)) nc = (err, nc1)"
    and "conn_Flush wr nc1 = ((n, err2), nc2)"
  shows "write_chunks P wr b cs w nc =
    (case err of Some e \<Rightarrow> Some ((w, Some e), nc1)
     | None \<Rightarrow> (case err2 of Some e \<Rightarrow> Some ((w + n, Some e), nc2)
               | None \<Rightarrow> write_chunks P wr b cs' (w + n) nc2))"
proof -
  have "\<not> (w < 0 \<or> cs' < 0)" using assms(1-4) by auto
  then show ?thesis
    using assms(2,5,6) unfolding write_chunks.simps [of P wr b cs w nc] assms(4) [symmetric]
    by (simp add: Let_def split: option.split)
qed

lemma write_chunks_returns:
  assumes "prims_ok P" and "0 \<le> w" and "w \<le> int (length b)" and "0 < cs"
  shows "\<exists>n err nc'. write_chunks P wr b cs w nc = Some ((n, err), nc') \<and> w \<le> n \<and>
    n \<le> int (length b) \<and> (err = None \<longrightarrow> n = int (length b))"
  using assms(2-)
proof (induction "nat (int (length b) - w)" arbitrary: w cs nc rule: less_induct)
  case less
  define cs' where "cs' = (if int (length b) < w + cs then int (length b) - w else cs)"
  show ?case
  proof (cases "w < int (length b)")
    case False
    with less.prems show ?thesis by (subst write_chunks.simps) simp
  next
    case True
    let ?p = "take (nat cs') (drop (nat w) b)"
    have cs: "0 < cs'" "w + cs' \<le> int (length b)" using True less.prems by (auto simp: cs'_def)
    then have len: "int (length ?p) = cs'" using less.prems by auto
    obtain err nc1 where 1: "conn_WriteMessage P ?p nc = (err, nc1)" by (metis surj_pair)
    obtain n err2 nc2 where 2: "conn_Flush wr nc1 = ((n, err2), nc2)" by (metis surj_pair)
    note unf = write_chunks_step [OF less.prems(1) True less.prems(3) cs'_def 1 2]
    show ?thesis
    proof (cases err)
      case (Some e)
      with unf less.prems show ?thesis by simp
    next
      case None
      note r = write_round [OF assms(1) 1 [unfolded None] 2]
      have n: "0 \<le> n" "n \<le> cs'" "pending (nc_noise nc2) = [] \<Longrightarrow> n = cs'" using r(1-3) len by simp_all
      show ?thesis
      proof (cases err2)
        case (Some e)
        with unf None n less.prems cs show ?thesis by auto
      next
        case c: None
        show ?thesis
        proof (cases "pending (nc_noise nc2) = []")
          case False
          have "w + n \<le> int (length b)" using n cs by linarith
          from write_chunks_pending [OF False this] unf None c n cs show ?thesis by fastforce
        next
          case True
          have "nat (int (length b) - (w + n)) < nat (int (length b) - w)" "0 \<le> w + n"
            "w + n \<le> int (length b)"
            using n cs True less.prems by auto
          from less.hyps [OF this cs(1), of nc2] unf None c n show ?thesis by fastforce
        qed
      qed
    qed
  qed
qed


subsection \<open>Write as a sequence of messages\<close>

fun chunks :: "nat \<Rightarrow> bytes \<Rightarrow> bytes list" where
  "chunks k xs = (if k = 0 \<or> xs = [] then [] else take k xs # chunks k (drop k xs))"

declare chunks.simps [simp del]

lemma chunks_Nil [simp]: "chunks k [] = []"
  by (simp add: chunks.simps)

lemma chunks_step: "0 < k \<Longrightarrow> xs \<noteq> [] \<Longrightarrow> chunks k xs = take k xs # chunks k (drop k xs)"
  by (subst chunks.simps) simp

lemma concat_chunks: "0 < k \<Longrightarrow> concat (chunks k xs) = xs"
  by (induction k xs rule: chunks.induct) (subst chunks.simps, simp)

lemma chunks_length: "m \<in> set (chunks k xs) \<Longrightarrow> m \<noteq> [] \<and> length m \<le> k"
  by (induction k xs rule: chunks.induct) (subst (asm) (2) chunks.simps, auto split: if_splits)

text \<open>The reference: every chunk is a \<^verbatim>\<open>Write\<close> of its own, up to the first error.\<close>

fun write_each :: "('sk, 'pk) prims \<Rightarrow> 'c writer \<Rightarrow> bytes list \<Rightarrow> ('sk, 'pk, 'c) NoiseConn \<Rightarrow>
    ((int \<times> go_error option) \<times> ('sk, 'pk, 'c) NoiseConn) option" where
  "write_each P wr [] nc = Some ((0, None), nc)"
| "write_each P wr (m # ms) nc = do {
     ((n, err), nc1) \<leftarrow> NoiseConn_Write P wr m nc;
     (if err \<noteq> None then Some ((n, err), nc1)
      else do {
        ((k, err'), nc2) \<leftarrow> write_each P wr ms nc1;
        Some ((n + k, err'), nc2) }) }"

lemma write_chunks_each:
  assumes "prims_ok P" and "full_writes wr" and "0 \<le> w" and "w \<le> int (length b)"
    and "cs = int MaxUint16 \<or> w = int (length b)"
  shows "write_chunks P wr b cs w nc =
    map_option (apfst (apfst ((+) w))) (write_each P wr (chunks MaxUint16 (drop (nat w) b)) nc)"
  using assms(3-)
proof (induction "nat (int (length b) - w)" arbitrary: w cs nc rule: less_induct)
  case less
  define cs' where "cs' = (if int (length b) < w + cs then int (length b) - w else cs)"
  show ?case
  proof (cases "w < int (length b)")
    case False
    with less.prems show ?thesis by (subst write_chunks.simps) simp
  next
    case True
    with less.prems have M: "cs = int MaxUint16" "0 < cs" by (auto simp: MaxUint16_def)
    let ?p = "take (nat cs') (drop (nat w) b)"
    have cs: "0 < cs'" "w + cs' \<le> int (length b)" "cs' \<le> int MaxUint16"
      using True less.prems M by (auto simp: cs'_def)
    then have len: "int (length ?p) = cs'" "length ?p \<le> MaxUint16" using less.prems by auto
    have split: "chunks MaxUint16 (drop (nat w) b) = ?p # chunks MaxUint16 (drop (nat (w + cs')) b)"
      using True less.prems M
      by (subst chunks_step) (auto simp: cs'_def MaxUint16_def nat_add_distrib add.commute)
    obtain err nc1 where 1: "conn_WriteMessage P ?p nc = (err, nc1)" by (metis surj_pair)
    obtain n err2 nc2 where 2: "conn_Flush wr nc1 = ((n, err2), nc2)" by (metis surj_pair)
    note unf = write_chunks_step [OF less.prems(1) True M(2) cs'_def 1 2]
    have W: "NoiseConn_Write P wr ?p nc = Some (case err of Some e \<Rightarrow> ((0, Some e), nc1)
        | None \<Rightarrow> ((n, err2), nc2))"
      using len(2) 1 2 by (simp add: NoiseConn_Write_def split: option.split)
    show ?thesis
    proof (cases "err = None \<and> err2 = None")
      case False
      with unf W split show ?thesis by (auto split: option.splits)
    next
      case True
      then have n: "n = cs'" using write_round(4) [OF assms(1) _ 2 assms(2)] 1 len(1) by simp
      have "nat (int (length b) - (w + n)) < nat (int (length b) - w)" "0 \<le> w + n"
        "w + n \<le> int (length b)" "cs' = int MaxUint16 \<or> w + n = int (length b)"
        using n cs less.prems M by (auto simp: cs'_def)
      from less.hyps [OF this, of nc2] unf W split True n show ?thesis
        by (auto simp: option.map_comp o_def apfst_def map_prod_def algebra_simps
            split: option.splits bind_splits)
    qed
  qed
qed


lemma MaxUint16_pos: "0 < MaxUint16"
  by (simp add: MaxUint16_def)

lemma write_is_each:
  assumes "prims_ok P" and "full_writes wr" and "b \<noteq> []"
  shows "NoiseConn_Write P wr b nc = write_each P wr (chunks MaxUint16 b) nc"
proof (cases "length b \<le> MaxUint16")
  case True
  then have "chunks MaxUint16 b = [b]" using assms(3) MaxUint16_pos by (simp add: chunks_step)
  then show ?thesis using True by (simp add: NoiseConn_Write_def split: prod.split option.split)
next
  case False
  then show ?thesis
    using write_chunks_each [OF assms(1,2), of 0 b "int MaxUint16" nc]
    by (simp add: NoiseConn_Write_def apfst_def map_prod_def option.map_id)
qed

subsection \<open>Properties of Write\<close>


definition noise_example :: "(u8, u8, bytes \<times> nat list) NoiseConn" where
  "noise_example = \<lparr>nc_conn = ([], [30]), nc_noise = example_machine, nc_readBuf = []\<rparr>"


text \<open>
  A \<^verbatim>\<open>Write\<close> of any length is the sequence of writes of its chunks, each a single
  message of at most 65535 bytes and none of them empty, that make up the buffer in order: the
  same bytes on the connection, the same state, the counts added up, and the first error ends
  both.
\<close>

theorem noise_write_chunked:
  assumes "prims_ok P" and "full_writes wr" and "b \<noteq> []"
  shows "NoiseConn_Write P wr b nc = write_each P wr (chunks MaxUint16 b) nc \<and>
    concat (chunks MaxUint16 b) = b \<and>
    (\<forall>m \<in> set (chunks MaxUint16 b). m \<noteq> [] \<and> length m \<le> MaxUint16)"
  using write_is_each [OF assms] concat_chunks chunks_length MaxUint16_pos by blast

subsection \<open>Reading what was written\<close>

fun frames :: "('sk, 'pk) prims \<Rightarrow> cipherState \<Rightarrow> bytes list \<Rightarrow> bytes list" where
  "frames P c [] = []"
| "frames P c (m # ms) = fst (frame P c m) # snd (frame P c m) # frames P (next_cipher P c) ms"

definition ciphers_after :: "('sk, 'pk) prims \<Rightarrow> nat \<Rightarrow> cipherState \<Rightarrow> cipherState" where
  "ciphers_after P k = next_cipher P ^^ k"

lemma ciphers_after_simps [simp]:
  "ciphers_after P 0 c = c" "ciphers_after P (Suc k) c = ciphers_after P k (next_cipher P c)"
  by (simp_all add: ciphers_after_def funpow_swap1)

text \<open>Reads with the given buffer sizes, up to the first error.\<close>

fun conn_reads :: "('sk, 'pk) prims \<Rightarrow> 'c reader \<Rightarrow> nat list \<Rightarrow> ('sk, 'pk, 'c) NoiseConn \<Rightarrow>
    ((bytes \<times> go_error option) list \<times> ('sk, 'pk, 'c) NoiseConn) option" where
  "conn_reads P rd [] nc = Some ([], nc)"
| "conn_reads P rd (n # ns) nc = do {
     (r, nc1) \<leftarrow> NoiseConn_Read P rd n nc;
     (if snd r \<noteq> None then Some ([r], nc1)
      else do {
        (rs, nc2) \<leftarrow> conn_reads P rd ns nc1;
        Some (r # rs, nc2) }) }"

context message_conn
begin

lemma write_one:
  assumes "prims_ok P" and "cipher_inv (sendCipher (nc_noise nc))" and "pending (nc_noise nc) = []"
    and "length m \<le> MaxUint16" and "MaxUint16 + macSize < lim"
  obtains c' where "NoiseConn_Write P wr m nc = Some ((int (length m), None),
      nc\<lparr>nc_noise := (nc_noise nc)\<lparr>sendCipher := next_cipher P (sendCipher (nc_noise nc))\<rparr>, nc_conn := c'\<rparr>)"
    and "outbox c' = outbox (nc_conn nc) @ frames P (sendCipher (nc_noise nc)) [m]"
    and "inbox c' = inbox (nc_conn nc)" and "buf c' = buf (nc_conn nc)"
proof -
  obtain b1 c' where "WriteMessage P m (nc_noise nc) = (None, b1)"
    "Flush wr b1 (nc_conn nc) = ((int (length m), None,
       (nc_noise nc)\<lparr>sendCipher := next_cipher P (sendCipher (nc_noise nc))\<rparr>), c')"
    "outbox c' = outbox (nc_conn nc) @ frames P (sendCipher (nc_noise nc)) [m]"
    "inbox c' = inbox (nc_conn nc)" "buf c' = buf (nc_conn nc)"
    using write_flush [OF assms, of "nc_conn nc"] by auto
  then show thesis
    by (intro that [of c']) (use assms(4) in \<open>simp_all add: NoiseConn_Write_def conn_WriteMessage_def conn_Flush_def\<close>)
qed

lemma write_all:
  assumes "prims_ok P" and "cipher_inv (sendCipher (nc_noise nc))" and "pending (nc_noise nc) = []"
    and "\<forall>m \<in> set ms. length m \<le> MaxUint16" and "MaxUint16 + macSize < lim"
  shows "\<exists>c'. write_each P wr ms nc = Some ((int (length (concat ms)), None),
      nc\<lparr>nc_noise := (nc_noise nc)\<lparr>sendCipher := ciphers_after P (length ms) (sendCipher (nc_noise nc))\<rparr>,
         nc_conn := c'\<rparr>) \<and>
    outbox c' = outbox (nc_conn nc) @ frames P (sendCipher (nc_noise nc)) ms \<and>
    inbox c' = inbox (nc_conn nc) \<and> buf c' = buf (nc_conn nc)"
  using assms(2-4)
proof (induction ms arbitrary: nc)
  case Nil
  then show ?case by (intro exI [of _ "nc_conn nc"]) simp
next
  case (Cons m ms)
  have m: "length m \<le> MaxUint16" using Cons.prems by simp
  obtain c' where c': "NoiseConn_Write P wr m nc = Some ((int (length m), None),
      nc\<lparr>nc_noise := (nc_noise nc)\<lparr>sendCipher := next_cipher P (sendCipher (nc_noise nc))\<rparr>, nc_conn := c'\<rparr>)"
    "outbox c' = outbox (nc_conn nc) @ frames P (sendCipher (nc_noise nc)) [m]"
    "inbox c' = inbox (nc_conn nc)" "buf c' = buf (nc_conn nc)"
    by (rule write_one [OF assms(1) Cons.prems(1,2) m assms(5)])
  let ?nc = "nc\<lparr>nc_noise := (nc_noise nc)\<lparr>sendCipher := next_cipher P (sendCipher (nc_noise nc))\<rparr>,
      nc_conn := c'\<rparr>"
  have "\<exists>c''. write_each P wr ms ?nc = Some ((int (length (concat ms)), None),
      ?nc\<lparr>nc_noise := (nc_noise ?nc)\<lparr>sendCipher := ciphers_after P (length ms) (sendCipher (nc_noise ?nc))\<rparr>,
         nc_conn := c''\<rparr>) \<and>
    outbox c'' = outbox (nc_conn ?nc) @ frames P (sendCipher (nc_noise ?nc)) ms \<and>
    inbox c'' = inbox (nc_conn ?nc) \<and> buf c'' = buf (nc_conn ?nc)"
    by (rule Cons.IH) (use Cons.prems in \<open>simp_all add: pending_def\<close>)
  with c' show ?case by auto
qed

text \<open>\<open>x\<close> is what the peer has written and \<open>nc\<close> has not returned yet.\<close>

definition holds_data :: "('sk, 'pk) prims \<Rightarrow> ('sk, 'pk, 'c) NoiseConn \<Rightarrow> bytes \<Rightarrow> bool" where
  "holds_data P nc x \<longleftrightarrow> (\<exists>ms. no_empty (nc_conn nc) \<and> cipher_inv (recvCipher (nc_noise nc)) \<and>
     stream (nc_conn nc) = concat (frames P (recvCipher (nc_noise nc)) ms) \<and>
     (\<forall>m \<in> set ms. m \<noteq> [] \<and> length m \<le> MaxUint16) \<and> x = nc_readBuf nc @ concat ms)"

lemma read_step:
  assumes "prims_ok P" and "holds_data P nc x" and "x \<noteq> []" and "0 < n"
  obtains k nc' where "NoiseConn_Read P rd n nc = Some ((take k x, None), nc')" and "0 < k"
    and "k \<le> length x" and "holds_data P nc' (drop k x)"
proof -
  obtain ms where h: "no_empty (nc_conn nc)" "cipher_inv (recvCipher (nc_noise nc))"
      "stream (nc_conn nc) = concat (frames P (recvCipher (nc_noise nc)) ms)"
      "\<forall>m \<in> set ms. m \<noteq> [] \<and> length m \<le> MaxUint16" "x = nc_readBuf nc @ concat ms"
    using assms(2) by (auto simp: holds_data_def)
  show thesis
  proof (cases "nc_readBuf nc = []")
    case False
    let ?nc = "nc\<lparr>nc_readBuf := drop n (nc_readBuf nc)\<rparr>"
    have "holds_data P ?nc (drop (min n (length (nc_readBuf nc))) x)"
      unfolding holds_data_def by (rule exI [of _ ms]) (use h in \<open>auto simp: min_def\<close>)
    then show thesis
      by (intro that [of "min n (length (nc_readBuf nc))" ?nc])
        (use False assms(4) h(5) in \<open>auto simp: NoiseConn_Read_def buffer_Read_def min_def\<close>)
  next
    case True
    with assms(3) h(5) obtain m ms' where m: "ms = m # ms'" by (cases ms) auto
    with h have m': "m \<noteq> []" "length m \<le> MaxUint16" by auto
    have s: "stream (nc_conn nc) = fst (frame P (recvCipher (nc_noise nc)) m) @
        snd (frame P (recvCipher (nc_noise nc)) m) @
        concat (frames P (next_cipher P (recvCipher (nc_noise nc))) ms')"
      using h(3) m by simp
    obtain c' where c': "ReadMessage P rd (nc_noise nc) (nc_conn nc) =
        Some (Inr m, (nc_noise nc)\<lparr>recvCipher := next_cipher P (recvCipher (nc_noise nc))\<rparr>, c')"
      "stream c' = concat (frames P (next_cipher P (recvCipher (nc_noise nc))) ms')" "no_empty c'"
      by (rule read_frame [OF assms(1) h(2) m'(2) h(1) s])
    let ?nc = "nc\<lparr>nc_noise := (nc_noise nc)\<lparr>recvCipher := next_cipher P (recvCipher (nc_noise nc))\<rparr>,
      nc_conn := c', nc_readBuf := drop n m\<rparr>"
    have "holds_data P ?nc (drop (min n (length m)) x)"
      unfolding holds_data_def
      by (rule exI [of _ ms']) (use h m c' True in \<open>auto simp: min_def\<close>)
    then show thesis
      by (intro that [of "min n (length m)" ?nc])
        (use True assms(4) h(5) m m' c' in
          \<open>auto simp: NoiseConn_Read_def ReadNextMessage_def buffer_Read_def min_def\<close>)
  qed
qed

lemma reads_all:
  assumes "prims_ok P" and "holds_data P nc x" and "\<forall>n \<in> set ns. 0 < n"
  shows "\<exists>k rs nc'. k \<le> length ns \<and> conn_reads P rd (take k ns) nc = Some (rs, nc') \<and>
    (\<forall>r \<in> set rs. snd r = None \<and> fst r \<noteq> []) \<and> prefix (concat (map fst rs)) x \<and>
    (k < length ns \<or> length x \<le> length ns \<longrightarrow> concat (map fst rs) = x)"
  using assms(2,3)
proof (induction ns arbitrary: nc x)
  case Nil
  then show ?case by simp
next
  case (Cons n ns)
  show ?case
  proof (cases "x = []")
    case True
    then show ?thesis by (intro exI [of _ 0]) simp
  next
    case False
    have "0 < n" using Cons.prems by simp
    obtain k nc' where r: "NoiseConn_Read P rd n nc = Some ((take k x, None), nc')" "0 < k"
        "k \<le> length x" "holds_data P nc' (drop k x)"
      by (rule read_step [OF assms(1) Cons.prems(1) False \<open>0 < n\<close>])
    obtain j rs nc'' where j: "j \<le> length ns" "conn_reads P rd (take j ns) nc' = Some (rs, nc'')"
        "\<forall>r \<in> set rs. snd r = None \<and> fst r \<noteq> []" "prefix (concat (map fst rs)) (drop k x)"
        "j < length ns \<or> length (drop k x) \<le> length ns \<longrightarrow> concat (map fst rs) = drop k x"
      using Cons.IH [OF r(4)] Cons.prems by auto
    let ?rs = "(take k x, None) # rs"
    have "prefix (take k x @ concat (map fst rs)) (take k x @ drop k x)"
      using j(4) by (simp only: same_prefix_prefix)
    then have "prefix (concat (map fst ?rs)) x" by simp
    moreover have "j < length ns \<or> length x \<le> Suc (length ns) \<longrightarrow> concat (map fst ?rs) = x"
      using j(5) r(2) by auto
    moreover have "conn_reads P rd (take (Suc j) (n # ns)) nc = Some (?rs, nc'')"
      using r(1) j(2) by simp
    moreover have "\<forall>r \<in> set ?rs. snd r = None \<and> fst r \<noteq> []" using j(3) r(2) False by auto
    ultimately show ?thesis using j(1)
      by (intro exI [of _ "Suc j"] exI [of _ ?rs] exI [of _ nc'']) simp
  qed
qed

end


lemma proxy_full_writes: "full_writes (proxy_Write w G)"
  by (auto simp: full_writes_def proxy_Write_def connKit_Write_def
      split: ProxyConn.splits prod.splits option.splits)

lemma mbox_room: "MaxUint16 + macSize < 2 ^ 32"
  by (simp add: MaxUint16_def macSize_def)

lemma write_frames:
  assumes "prims_ok P" and "cipher_inv (sendCipher (nc_noise A))" and "pending (nc_noise A) = []"
    and "b \<noteq> []"
  obtains A' where "NoiseConn_Write P (proxy_Write 64 queue_gbn) b A = Some ((int (length b), None), A')"
    and "p_out (nc_conn A') =
      p_out (nc_conn A) @ frames P (sendCipher (nc_noise A)) (chunks MaxUint16 b)"
proof -
  have "\<forall>m \<in> set (chunks MaxUint16 b). length m \<le> MaxUint16" using chunks_length by blast
  from mbox.write_all [OF assms(1-3) this mbox_room] obtain c' where
    "write_each P (proxy_Write 64 queue_gbn) (chunks MaxUint16 b) A = Some ((int (length b), None),
      A\<lparr>nc_noise := (nc_noise A)\<lparr>sendCipher := ciphers_after P (length (chunks MaxUint16 b))
          (sendCipher (nc_noise A))\<rparr>, nc_conn := c'\<rparr>)"
    "p_out c' = p_out (nc_conn A) @ frames P (sendCipher (nc_noise A)) (chunks MaxUint16 b)"
    by (auto simp: concat_chunks MaxUint16_pos)
  then show thesis
    by (intro that) (simp add: write_is_each [OF assms(1) proxy_full_writes assms(4)], simp)
qed

text \<open>
  C19: what one end writes, the other reads. When the ends hold the same cipher for the
  direction, a \<^verbatim>\<open>Write\<close> of any length puts all its bytes out; and when those frames
  arrive, cut up in any way, a sequence of reads with any positive buffer sizes returns the
  bytes in order, at least one per read and without an error, until all of them are read; as many
  reads as bytes are always enough.
\<close>

theorem noise_stream_roundtrip:
  fixes A B :: "('sk, 'pk, gbn_msgs ProxyConn) NoiseConn"
  assumes "prims_ok P" and "cipher_inv (sendCipher (nc_noise A))" and "pending (nc_noise A) = []"
    and "recvCipher (nc_noise B) = sendCipher (nc_noise A)" and "nc_readBuf B = []"
    and "p_buf (nc_conn B) = []" and "[] \<notin> set (p_in (nc_conn B))" and "b \<noteq> []"
    and "\<forall>n \<in> set ns. 0 < n"
  shows "\<exists>A' outs. NoiseConn_Write P (proxy_Write 64 queue_gbn) b A = Some ((int (length b), None), A') \<and>
    p_out (nc_conn A') = p_out (nc_conn A) @ outs \<and>
    (concat (p_in (nc_conn B)) = concat outs \<longrightarrow>
      (\<exists>k rs B'. k \<le> length ns \<and>
        conn_reads P (proxy_Read 64 queue_gbn) (take k ns) B = Some (rs, B') \<and>
        (\<forall>r \<in> set rs. snd r = None \<and> fst r \<noteq> []) \<and> prefix (concat (map fst rs)) b \<and>
        (k < length ns \<or> length b \<le> length ns \<longrightarrow> concat (map fst rs) = b)))"
proof -
  let ?ms = "chunks MaxUint16 b"
  have ms: "concat ?ms = b" "\<forall>m \<in> set ?ms. m \<noteq> [] \<and> length m \<le> MaxUint16"
    using concat_chunks [OF MaxUint16_pos] chunks_length by auto
  then have l: "\<forall>m \<in> set ?ms. length m \<le> MaxUint16" by blast
  obtain A' where A': "NoiseConn_Write P (proxy_Write 64 queue_gbn) b A = Some ((int (length b), None), A')"
    "p_out (nc_conn A') = p_out (nc_conn A) @ frames P (sendCipher (nc_noise A)) ?ms"
    by (rule write_frames [OF assms(1-3,8)])
  have "mbox.holds_data P B b" if "concat (p_in (nc_conn B)) = concat (frames P (sendCipher (nc_noise A)) ?ms)"
    unfolding mbox.holds_data_def mbox.no_empty_def mbox.stream_def
    by (rule exI [of _ ?ms]) (use that assms ms in simp)
  then show ?thesis
    using A' mbox.reads_all [OF assms(1) _ assms(9), of B b] by blast
qed

definition example_end :: "bytes list \<Rightarrow> (u8, u8, gbn_msgs ProxyConn) NoiseConn" where
  "example_end ms = \<lparr>nc_conn = ClientProxy \<lparr>serverAddr = [],
      impl = \<lparr>q_in = map (\<lambda>m. MsgData_Serialize (NewMsgData 0 m)) ms, q_out = [], q_sendTimeout = 0, q_recvTimeout = 0\<rparr>,
      readDeadline = 0, writeDeadline = 0, receiveSID = [], sendSID = [], recvBuffer = []\<rparr>,
    nc_noise = example_machine, nc_readBuf = []\<rparr>"

lemma example_end_simps [simp]:
  "nc_noise (example_end ms) = example_machine" "nc_readBuf (example_end ms) = []"
  "p_buf (nc_conn (example_end ms)) = []" "p_out (nc_conn (example_end ms)) = []"
  "\<forall>m \<in> set ms. length m < 2 ^ 32 \<Longrightarrow> p_in (nc_conn (example_end ms)) = ms"
  by (simp_all add: example_end_def p_buf_def p_out_def p_in_def payloads_out_def payloads_in_def
      payload_of_Serialize map_idI)

lemma example_machine_simps [simp]:
  "cipher_inv (sendCipher example_machine)" "pending example_machine = []"
  "recvCipher example_machine = sendCipher example_machine"
  by (simp_all add: example_machine_def pending_def)

theorem noise_stream_roundtrip_witness:
  "\<exists>A' k rs B'. NoiseConn_Write example_prims (proxy_Write 64 queue_gbn) [1, 2, 3] (example_end []) =
       Some ((3, None), A') \<and>
     conn_reads example_prims (proxy_Read 64 queue_gbn) (take k [2, 2, 2])
       (example_end (p_out (nc_conn A'))) = Some (rs, B') \<and> concat (map fst rs) = [1, 2, 3]"
proof -
  have c: "chunks MaxUint16 [1, 2, 3] = [[1, 2, 3]]" by (simp add: chunks_step MaxUint16_def)
  obtain A' where A': "NoiseConn_Write example_prims (proxy_Write 64 queue_gbn) [1, 2, 3] (example_end []) =
       Some ((3, None), A')" "p_out (nc_conn A') = frames example_prims (sendCipher example_machine) [[1, 2, 3]]"
    by (rule write_frames [OF example_prims_ok, of "example_end []" "[1, 2, 3]"]) (simp_all add: c)
  define ms where "ms = p_out (nc_conn A')"
  have l: "\<forall>m \<in> set ms. length m < 2 ^ 32" "[] \<notin> set ms"
    using A'(2) frame_lengths [OF example_prims_ok, of "sendCipher example_machine" "[1, 2, 3]"]
    by (auto simp: ms_def encHeaderSize_def lengthHeaderSize_def macSize_def)
  obtain k rs B' where r: "conn_reads example_prims (proxy_Read 64 queue_gbn)
      (take k [2, 2, 2]) (example_end ms) = Some (rs, B')" "concat (map fst rs) = [1, 2, 3]"
    using noise_stream_roundtrip [OF example_prims_ok, of "example_end []" "example_end ms" "[1, 2, 3]"
        "[2, 2, 2]"] l A'(1) by (auto simp: ms_def)
  with A'(1) show ?thesis unfolding ms_def by blast
qed

end
