(* ===== verification/Noise_Listener.thy ===== *)
theory Noise_Listener
  imports Noise_Conn
begin

section \<open>Dialing and listening (mailbox/tcp\_noise\_conn.go, mailbox/tcp\_noise\_listner.go)\<close>

text \<open>
  The handshake of a noise connection over TCP, on the side that dials and on the side that
  listens, and the listener, whose accept loop and handshakes run concurrently under a
  semaphore of 1000 tokens.
\<close>

subsection \<open>Establishing a connection\<close>

text \<open>
  The methods of \<^verbatim>\<open>net.Conn\<close> that establishing a connection uses. \<open>nt_SetReadDeadline\<close>
  takes the deadline; the zero time removes it.
\<close>

record 'c net_conn =
  nt_Read :: "'c reader"
  nt_Write :: "'c writer"
  nt_SetReadDeadline :: "time \<Rightarrow> 'c \<Rightarrow> go_error option \<times> 'c"
  nt_Close :: "'c \<Rightarrow> 'c"
  nt_RemoteAddr :: "'c \<Rightarrow> string"

definition MinHandshakeVersion :: u8 where
  "MinHandshakeVersion = 0"

definition MaxHandshakeVersion :: u8 where
  "MaxHandshakeVersion = 2"

definition handshakeReadTimeout :: duration where
  "handshakeReadTimeout = 5000000000"

text \<open>
  The part that \<^verbatim>\<open>Dial\<close> and \<^verbatim>\<open>doHandshake\<close> have in common after the machine is built:
  set the deadline, run the handshake, remove the deadline; every failure closes the
  connection. \<open>quit\<close> tells whether the listener was closed while the handshake ran, which ends
  the goroutine between the handshake and the removal of the deadline.
\<close>

definition establish :: "('sk, 'pk) prims \<Rightarrow> 'c net_conn \<Rightarrow> time \<Rightarrow> bool \<Rightarrow> ('sk, 'pk) ConnData \<Rightarrow>
    ('sk, 'pk) Machine \<Rightarrow> 'c \<Rightarrow> (go_error + ('sk, 'pk, 'c) NoiseConn option) \<times> 'c" where
  "establish P T now quit d b c =
     (case nt_SetReadDeadline T (now + handshakeReadTimeout) c of
        (Some e, c1) \<Rightarrow> (Inl e, nt_Close T c1)
      | (None, c1) \<Rightarrow>
          (case DoHandshake P (nt_Read T) (nt_Write T) b (c1, d) of
             (Inl e, c2, _) \<Rightarrow> (Inl e, nt_Close T c2)
           | (Inr b', c2, _) \<Rightarrow>
               if quit then (Inr None, c2)
               else
                 (case nt_SetReadDeadline T zero_time c2 of
                    (Some e, c3) \<Rightarrow> (Inl e, nt_Close T c3)
                  | (None, c3) \<Rightarrow>
                      (Inr (Some \<lparr>nc_conn = c3, nc_noise = b', nc_readBuf = []\<rparr>), c3))))"

text \<open>
  \<^verbatim>\<open>Dial\<close>; the second component is the connection that a failed call leaves behind.
  \<open>dialer\<close> is the function of that name with its arguments.
\<close>

definition Noise_Dial :: "('sk, 'pk) prims \<Rightarrow> (nat \<Rightarrow> 'sk option) \<Rightarrow> 'c net_conn \<Rightarrow> time \<Rightarrow>
    (string \<Rightarrow> string \<Rightarrow> duration \<Rightarrow> go_error + 'c) \<Rightarrow> 'sk \<Rightarrow> string \<Rightarrow> bytes \<Rightarrow> duration \<Rightarrow>
    (go_error + ('sk, 'pk, 'c) NoiseConn) \<times> 'c option" where
  "Noise_Dial P gen T now dialer localPriv ipAddr passphrase timeout =
     (case dialer ''tcp'' ipAddr timeout of
        Inl e \<Rightarrow> (Inl e, None)
      | Inr c \<Rightarrow>
          let d = NewConnData localPriv None passphrase None None None in
          (case NewBrontideMachine P gen (handshake_cfg True MinHandshakeVersion MaxHandshakeVersion d) of
             Inl e \<Rightarrow> (Inl e, Some c)
           | Inr b \<Rightarrow>
               (case establish P T now False d b c of
                  (Inl e, c') \<Rightarrow> (Inl e, Some c')
                | (Inr (Some nc), c') \<Rightarrow> (Inr nc, None)
                | (Inr None, c') \<Rightarrow> (Inl ErrPanic, Some c'))))"

subsection \<open>The listener\<close>

text \<open>
  \<^verbatim>\<open>doHandshake\<close> of an accepted connection, after its first look at \<^verbatim>\<open>quit\<close>: an error for
  \<^verbatim>\<open>rejectConn\<close>, a connection for \<^verbatim>\<open>acceptConn\<close>, or nothing.
\<close>

datatype ('sk, 'pk, 'c) maybeConn = MaybeConn "('sk, 'pk, 'c) NoiseConn" | MaybeErr go_error

definition doHandshake :: "('sk, 'pk) prims \<Rightarrow> (nat \<Rightarrow> 'sk option) \<Rightarrow> 'c net_conn \<Rightarrow> time \<Rightarrow> bool \<Rightarrow>
    'sk \<Rightarrow> bytes \<Rightarrow> bytes option \<Rightarrow> 'c \<Rightarrow> ('sk, 'pk, 'c) maybeConn option" where
  "doHandshake P gen T now quit lk passphrase authData c =
     (let d = NewConnData lk None passphrase authData None None;
          rejected = ErrWrap (''unable to accept connection from '' @ nt_RemoteAddr T c) in
      case NewBrontideMachine P gen (handshake_cfg False MinHandshakeVersion MaxHandshakeVersion d) of
        Inl e \<Rightarrow> Some (MaybeErr (rejected e))
      | Inr b \<Rightarrow>
          (case fst (establish P T now quit d b c) of
             Inl e \<Rightarrow> Some (MaybeErr (rejected e))
           | Inr None \<Rightarrow> None
           | Inr (Some nc) \<Rightarrow> Some (MaybeConn nc)))"

definition defaultHandshakes :: nat where
  "defaultHandshakes = 1000"

text \<open>Where the goroutine \<^verbatim>\<open>listen\<close> is, and where a goroutine \<^verbatim>\<open>doHandshake\<close> is.\<close>

datatype listen_pc = ListenSema | ListenAccept | ListenReject go_error | ListenReturn | ListenDone

datatype ('sk, 'pk, 'c) hs_goroutine =
  HsStart 'c
| HsOffer "('sk, 'pk, 'c) maybeConn"
| HsDone

record ('sk, 'pk, 'c) Listener =
  ln_localStatic :: 'sk
  ln_passphrase :: bytes
  ln_authData :: "bytes option"
  ln_sema :: nat
  ln_listen :: listen_pc
  ln_handshakes :: "('sk, 'pk, 'c) hs_goroutine list"
  ln_quit :: bool
  ln_accepted :: "('sk, 'pk, 'c) maybeConn list"

definition NewListener :: "bytes \<Rightarrow> 'sk \<Rightarrow> bytes option \<Rightarrow> ('sk, 'pk, 'c) Listener" where
  "NewListener passphrase lk authData =
     \<lparr>ln_localStatic = lk, ln_passphrase = passphrase, ln_authData = authData,
      ln_sema = defaultHandshakes, ln_listen = ListenSema, ln_handshakes = [], ln_quit = False,
      ln_accepted = []\<rparr>"

definition put_sema :: "('sk, 'pk, 'c) Listener \<Rightarrow> ('sk, 'pk, 'c) Listener option" where
  "put_sema l = (if ln_sema l < defaultHandshakes then Some (l\<lparr>ln_sema := Suc (ln_sema l)\<rparr>) else None)"

text \<open>
  The steps. \<open>ln_accepted\<close> records what \<^verbatim>\<open>Accept\<close> returned. A send on the semaphore that
  would exceed its capacity blocks: there is no step for it.
\<close>

inductive listener_step :: "('sk, 'pk) prims \<Rightarrow> (nat \<Rightarrow> 'sk option) \<Rightarrow> 'c net_conn \<Rightarrow>
    ('sk, 'pk, 'c) Listener \<Rightarrow> ('sk, 'pk, 'c) Listener \<Rightarrow> bool"
  for P gen T where
  take_sema: "ln_listen l = ListenSema \<Longrightarrow> 0 < ln_sema l \<Longrightarrow>
     listener_step P gen T l (l\<lparr>ln_sema := ln_sema l - 1, ln_listen := ListenAccept\<rparr>)"
| listen_quit: "ln_listen l = ListenSema \<Longrightarrow> ln_quit l \<Longrightarrow>
     listener_step P gen T l (l\<lparr>ln_listen := ListenDone\<rparr>)"
| accept_tcp: "ln_listen l = ListenAccept \<Longrightarrow>
     listener_step P gen T l (l\<lparr>ln_listen := ListenSema, ln_handshakes := ln_handshakes l @ [HsStart c]\<rparr>)"
| accept_error: "ln_listen l = ListenAccept \<Longrightarrow>
     listener_step P gen T l (l\<lparr>ln_listen := ListenReject e\<rparr>)"
| reject_taken: "ln_listen l = ListenReject e \<Longrightarrow>
     listener_step P gen T l (l\<lparr>ln_listen := ListenReturn, ln_accepted := ln_accepted l @ [MaybeErr e]\<rparr>)"
| reject_quit: "ln_listen l = ListenReject e \<Longrightarrow> ln_quit l \<Longrightarrow>
     listener_step P gen T l (l\<lparr>ln_listen := ListenReturn\<rparr>)"
| listen_return: "ln_listen l = ListenReturn \<Longrightarrow> put_sema l = Some l' \<Longrightarrow>
     listener_step P gen T l (l'\<lparr>ln_listen := ListenSema\<rparr>)"
| hs_quit: "i < length (ln_handshakes l) \<Longrightarrow> ln_handshakes l ! i = HsStart c \<Longrightarrow> ln_quit l \<Longrightarrow>
     listener_step P gen T l (l\<lparr>ln_handshakes := (ln_handshakes l)[i := HsDone]\<rparr>)"
| hs_run: "i < length (ln_handshakes l) \<Longrightarrow> ln_handshakes l ! i = HsStart c \<Longrightarrow>
     r = doHandshake P gen T now quit (ln_localStatic l) (ln_passphrase l) (ln_authData l) c \<Longrightarrow>
     quit \<longrightarrow> ln_quit l \<Longrightarrow>
     listener_step P gen T l (l\<lparr>ln_handshakes :=
       (ln_handshakes l)[i := case r of None \<Rightarrow> HsDone | Some m \<Rightarrow> HsOffer m]\<rparr>)"
| hs_taken: "i < length (ln_handshakes l) \<Longrightarrow> ln_handshakes l ! i = HsOffer m \<Longrightarrow>
     listener_step P gen T l (l\<lparr>ln_handshakes := (ln_handshakes l)[i := HsDone],
       ln_accepted := ln_accepted l @ [m]\<rparr>)"
| hs_dropped: "i < length (ln_handshakes l) \<Longrightarrow> ln_handshakes l ! i = HsOffer m \<Longrightarrow> ln_quit l \<Longrightarrow>
     listener_step P gen T l (l\<lparr>ln_handshakes := (ln_handshakes l)[i := HsDone]\<rparr>)"
| hs_return: "i < length (ln_handshakes l) \<Longrightarrow> ln_handshakes l ! i = HsDone \<Longrightarrow> put_sema l = Some l' \<Longrightarrow>
     listener_step P gen T l
       (l'\<lparr>ln_handshakes := take i (ln_handshakes l) @ drop (Suc i) (ln_handshakes l)\<rparr>)"
| close_listener: "listener_step P gen T l (l\<lparr>ln_quit := True\<rparr>)"


inductive_cases listener_stepE: "listener_step P gen T l l'"

subsection \<open>The invariant of the listener\<close>

text \<open>The token that the goroutine \<^verbatim>\<open>listen\<close> holds.\<close>

fun held_token :: "listen_pc \<Rightarrow> nat" where
  "held_token ListenSema = 0"
| "held_token ListenAccept = 1"
| "held_token (ListenReject e) = 1"
| "held_token ListenReturn = 1"
| "held_token ListenDone = 0"

text \<open>A connection that has completed its handshake: both directions are keyed.\<close>

definition keyed_conn :: "('sk, 'pk, 'c) NoiseConn \<Rightarrow> bool" where
  "keyed_conn nc \<longleftrightarrow> cipher_inv (sendCipher (nc_noise nc)) \<and> cipher_inv (recvCipher (nc_noise nc)) \<and>
     pending (nc_noise nc) = [] \<and> nc_readBuf nc = []"

definition result_ok :: "('sk, 'pk, 'c) maybeConn \<Rightarrow> bool" where
  "result_ok m = (case m of MaybeErr e \<Rightarrow> True | MaybeConn nc \<Rightarrow> keyed_conn nc)"

definition listener_inv :: "('sk, 'pk, 'c) Listener \<Rightarrow> bool" where
  "listener_inv l \<longleftrightarrow>
     ln_sema l + held_token (ln_listen l) + length (ln_handshakes l) = defaultHandshakes \<and>
     (\<forall>m. HsOffer m \<in> set (ln_handshakes l) \<longrightarrow> result_ok m) \<and>
     (\<forall>m \<in> set (ln_accepted l). result_ok m)"

lemma machine_split_keyed:
  "cipher_inv (sendCipher (machine_split P b))" "cipher_inv (recvCipher (machine_split P b))"
  "pending (machine_split P b) = pending b"
  by (simp_all add: machine_split_def InitializeKeyWithSalt_def pending_def Let_def split: prod.split)

lemma DoHandshake_keyed:
  assumes "DoHandshake P rd wr b cd = (Inr b', cd')"
  shows "cipher_inv (sendCipher b')" "cipher_inv (recvCipher b')" "pending b' = pending b"
proof -
  obtain h where "b' = machine_split P (b\<lparr>m_hs := h\<rparr>)"
    using assms unfolding DoHandshake_def Let_def
    by (elim io_bind_InrE) (auto simp: io_apply)
  then show "cipher_inv (sendCipher b')" "cipher_inv (recvCipher b')" "pending b' = pending b"
    by (simp_all add: machine_split_keyed) (simp add: pending_def)
qed

lemma NewBrontideMachine_idle: "NewBrontideMachine P gen cf = Inr b \<Longrightarrow> pending b = []"
  by (auto simp: NewBrontideMachine_def Let_def ebind_Inr pending_def split: if_splits)

lemma establish_keyed:
  assumes "establish P T now q d b c = (Inr (Some nc), c')" and "pending b = []"
  shows "keyed_conn nc"
  using assms DoHandshake_keyed [of P "nt_Read T" "nt_Write T" b]
  by (fastforce simp: establish_def keyed_conn_def split: prod.splits option.splits sum.splits if_splits)

lemma doHandshake_ok:
  assumes "doHandshake P gen T now q lk pw auth c = Some m"
  shows "result_ok m"
proof (cases m)
  case (MaybeConn nc)
  with assms obtain d b where "NewBrontideMachine P gen (handshake_cfg False MinHandshakeVersion
      MaxHandshakeVersion d) = Inr b" "fst (establish P T now q d b c) = Inr (Some nc)"
    by (auto simp: doHandshake_def Let_def split: sum.splits option.splits)
  then have "keyed_conn nc" using NewBrontideMachine_idle establish_keyed by (metis prod.collapse)
  with MaybeConn show ?thesis by (simp add: result_ok_def)
qed (simp add: result_ok_def)

lemma set_remove_nth: "set (take i xs @ drop (Suc i) xs) \<subseteq> set xs"
  by (auto dest: in_set_takeD in_set_dropD)

lemma listener_step_inv:
  assumes "listener_step P gen T l l'" and "listener_inv l"
  shows "listener_inv l'"
  using assms
proof (cases rule: listener_step.cases)
  case (hs_run i c r now quit)
  then show ?thesis using assms(2) doHandshake_ok
    by (auto simp: listener_inv_def split: option.splits dest!: set_update_subset_insert [THEN subsetD])
next
  case (hs_taken i m)
  then have "HsOffer m \<in> set (ln_handshakes l)" by (metis nth_mem)
  then show ?thesis using hs_taken(1) assms(2)
    by (auto simp: listener_inv_def dest!: set_update_subset_insert [THEN subsetD])
next
  case (hs_return i l1)
  then show ?thesis using assms(2) set_remove_nth [of i "ln_handshakes l"]
    by (auto simp: listener_inv_def put_sema_def split: if_splits)
qed (use assms(2) in \<open>auto simp: listener_inv_def result_ok_def put_sema_def nth_mem
      dest!: set_update_subset_insert [THEN subsetD] split: if_splits\<close>)


text \<open>
  C11: whatever the interleaving of the accept loop, the handshakes, the callers of
  \<^verbatim>\<open>Accept\<close> and a \<^verbatim>\<open>Close\<close>, at most 1000 handshakes run at a time, a goroutine that
  returns its token never blocks on the semaphore, and \<^verbatim>\<open>Accept\<close> only returns errors and
  connections whose handshake has keyed both directions.
\<close>

theorem listener_bounded:
  assumes "(listener_step P gen T)\<^sup>*\<^sup>* (NewListener pw lk auth) l"
  shows "length (ln_handshakes l) \<le> defaultHandshakes \<and>
    (ln_listen l = ListenReturn \<or> HsDone \<in> set (ln_handshakes l) \<longrightarrow> put_sema l \<noteq> None) \<and>
    (\<forall>nc. MaybeConn nc \<in> set (ln_accepted l) \<longrightarrow> keyed_conn nc)"
proof -
  have inv: "listener_inv l"
    using assms
  proof (induction rule: rtranclp_induct)
    case base
    show ?case by (simp add: listener_inv_def NewListener_def)
  qed (rule listener_step_inv)
  have "ln_sema l < defaultHandshakes" if "HsDone \<in> set (ln_handshakes l)"
    using length_pos_if_in_set [OF that] inv unfolding listener_inv_def by linarith
  then show ?thesis using inv
    by (auto simp: listener_inv_def put_sema_def result_ok_def split: maybeConn.splits)
qed

definition example_net :: "unit net_conn" where
  "example_net = \<lparr>nt_Read = (\<lambda>n c. (([], Some ErrEOF), c)), nt_Write = (\<lambda>b c. ((0, Some ErrEOF), c)),
     nt_SetReadDeadline = (\<lambda>t c. (None, c)), nt_Close = (\<lambda>c. c), nt_RemoteAddr = (\<lambda>c. [])\<rparr>"

theorem listener_bounded_witness:
  "\<exists>l. (listener_step example_prims (\<lambda>_. Some 1) example_net)\<^sup>*\<^sup>* (NewListener [] 5 None) l \<and>
     ln_handshakes l = [HsStart ()] \<and> ln_sema l = 999 \<and> length (ln_handshakes l) \<le> defaultHandshakes"
proof -
  let ?l = "NewListener [] 5 None :: (u8, u8, unit) Listener"
  let ?l1 = "?l\<lparr>ln_sema := ln_sema ?l - 1, ln_listen := ListenAccept\<rparr>"
  let ?l2 = "?l1\<lparr>ln_listen := ListenSema, ln_handshakes := ln_handshakes ?l1 @ [HsStart ()]\<rparr>"
  have "listener_step example_prims (\<lambda>_. Some 1) example_net ?l ?l1"
    by (rule take_sema) (simp_all add: NewListener_def defaultHandshakes_def)
  moreover have "listener_step example_prims (\<lambda>_. Some 1) example_net ?l1 ?l2"
    by (rule accept_tcp) simp
  ultimately have r: "(listener_step example_prims (\<lambda>_. Some 1) example_net)\<^sup>*\<^sup>* ?l ?l2"
    by (meson converse_rtranclp_into_rtranclp r_into_rtranclp)
  show ?thesis
    by (rule exI [of _ ?l2]) (use r listener_bounded [OF r] in
        \<open>simp add: NewListener_def defaultHandshakes_def\<close>)
qed

end
