(* ===== verification/Noise_Grpc.thy ===== *)
theory Noise_Grpc
  imports Noise_Listener
begin

section \<open>The gRPC transport credentials (mailbox/grpc\_noise\_conn.go)\<close>

text \<open>
  \<^verbatim>\<open>NoiseGrpcConn\<close>, the transport credentials that gRPC uses instead of TLS: it runs the
  noise handshake over a mailbox connection and is itself the connection afterwards. The same
  object is used for every connection attempt.
\<close>

subsection \<open>State and construction\<close>

record ('sk, 'pk, 'c) NoiseGrpcConn =
  g_ProxyConn :: "'c option"
  g_connData :: "('sk, 'pk) ConnData"
  g_nextMsg :: bytes
  g_noise :: "('sk, 'pk) Machine option"
  minHandshakeVersion :: u8
  maxHandshakeVersion :: u8

definition NewNoiseGrpcConn :: "('sk, 'pk) ConnData \<Rightarrow>
    (('sk, 'pk, 'c) NoiseGrpcConn \<Rightarrow> ('sk, 'pk, 'c) NoiseGrpcConn) list \<Rightarrow> ('sk, 'pk, 'c) NoiseGrpcConn" where
  "NewNoiseGrpcConn d options =
     foldl (\<lambda>g opt. opt g)
       \<lparr>g_ProxyConn = None, g_connData = d, g_nextMsg = [], g_noise = None,
        minHandshakeVersion = MinHandshakeVersion, maxHandshakeVersion = MaxHandshakeVersion\<rparr> options"

definition WithMinHandshakeVersion :: "u8 \<Rightarrow> ('sk, 'pk, 'c) NoiseGrpcConn \<Rightarrow> ('sk, 'pk, 'c) NoiseGrpcConn" where
  "WithMinHandshakeVersion v g = g\<lparr>minHandshakeVersion := v\<rparr>"

definition WithMaxHandshakeVersion :: "u8 \<Rightarrow> ('sk, 'pk, 'c) NoiseGrpcConn \<Rightarrow> ('sk, 'pk, 'c) NoiseGrpcConn" where
  "WithMaxHandshakeVersion v g = g\<lparr>maxHandshakeVersion := v\<rparr>"

text \<open>The copy that gRPC asks for; it shares the connection and the connection data.\<close>

definition Clone :: "('sk, 'pk, 'c) NoiseGrpcConn \<Rightarrow> ('sk, 'pk, 'c) NoiseGrpcConn" where
  "Clone g = \<lparr>g_ProxyConn = g_ProxyConn g, g_connData = g_connData g, g_nextMsg = [], g_noise = None,
     minHandshakeVersion = 0, maxHandshakeVersion = 0\<rparr>"

subsection \<open>Read and Write\<close>

definition defaultGrpcWriteBufSize :: nat where
  "defaultGrpcWriteBufSize = 32 * 1024"

text \<open>
  \<^verbatim>\<open>Read\<close> into a buffer of \<open>n\<close> bytes: the number it returns, the bytes it puts at the front of
  the buffer, its error. Without a handshake the call panics on the nil machine.
\<close>

definition Grpc_Read :: "('sk, 'pk) prims \<Rightarrow> 'c reader \<Rightarrow> nat \<Rightarrow> ('sk, 'pk, 'c) NoiseGrpcConn \<Rightarrow>
    ((nat \<times> bytes \<times> go_error option) \<times> ('sk, 'pk, 'c) NoiseGrpcConn) option" where
  "Grpc_Read P rd n g =
     (if g_nextMsg g \<noteq> [] then
        Some ((length (g_nextMsg g), take n (g_nextMsg g), None), g\<lparr>g_nextMsg := []\<rparr>)
      else
        (case (g_noise g, g_ProxyConn g) of
           (Some b, Some c) \<Rightarrow> do {
             (r, b', c') \<leftarrow> ReadMessage P rd b c;
             let g' = g\<lparr>g_noise := Some b', g_ProxyConn := Some c'\<rparr>;
             Some (case r of
                Inl e \<Rightarrow> ((0, [], Some (if e = ErrPanic then e else ErrWrap ''error decrypting payload'' e)), g')
              | Inr requestBytes \<Rightarrow>
                  if defaultGrpcWriteBufSize < length requestBytes then
                    ((defaultGrpcWriteBufSize, take n (take defaultGrpcWriteBufSize requestBytes), None),
                     g'\<lparr>g_nextMsg := drop defaultGrpcWriteBufSize requestBytes\<rparr>)
                  else ((length requestBytes, take n requestBytes, None), g')) }
         | _ \<Rightarrow> Some ((0, [], Some ErrPanic), g)))"

definition Grpc_Write :: "('sk, 'pk) prims \<Rightarrow> 'c writer \<Rightarrow> bytes \<Rightarrow> ('sk, 'pk, 'c) NoiseGrpcConn \<Rightarrow>
    (int \<times> go_error option) \<times> ('sk, 'pk, 'c) NoiseGrpcConn" where
  "Grpc_Write P wr b g =
     (case (g_noise g, g_ProxyConn g) of
        (Some m, Some c) \<Rightarrow>
          (case WriteMessage P b m of
             (Some e, m1) \<Rightarrow> ((0, Some e), g\<lparr>g_noise := Some m1\<rparr>)
           | (None, m1) \<Rightarrow>
               (case Flush wr m1 c of
                  ((n, err, m2), c') \<Rightarrow> ((n, err), g\<lparr>g_noise := Some m2, g_ProxyConn := Some c'\<rparr>)))
      | _ \<Rightarrow> ((0, Some ErrPanic), g))"

subsection \<open>Handshakes\<close>

text \<open>
  What \<^verbatim>\<open>ClientHandshake\<close> and \<^verbatim>\<open>ServerHandshake\<close> have in common. \<open>conn\<close> is \<open>None\<close> when the
  connection is not a \<^verbatim>\<open>ProxyConn\<close>; \<open>now\<close> and \<open>now'\<close> are the times of the two calls of
  \<^verbatim>\<open>SetReadDeadline\<close>. A failure leaves the connection and the connection data; the machine it
  leaves is replaced by the next handshake before anything uses it, and is not part of the
  result. The public key of the peer is serialized for the log.
\<close>

definition grpc_handshake :: "('sk, 'pk) prims \<Rightarrow> (nat \<Rightarrow> 'sk option) \<Rightarrow> nat \<Rightarrow> 'g gbn_conn \<Rightarrow> time \<Rightarrow> time \<Rightarrow>
    bool \<Rightarrow> 'g ProxyConn option \<Rightarrow> ('sk, 'pk, 'g ProxyConn) NoiseGrpcConn \<Rightarrow>
    (go_error \<times> 'g ProxyConn option \<times> ('sk, 'pk) ConnData) + ('sk, 'pk, 'g ProxyConn) NoiseGrpcConn" where
  "grpc_handshake P gen w G now now' init conn g =
     (case conn of
        None \<Rightarrow> Inl (ErrConn ''invalid connection type'', g_ProxyConn g, g_connData g)
      | Some c \<Rightarrow>
          (case NewBrontideMachine P gen
             (handshake_cfg init (minHandshakeVersion g) (maxHandshakeVersion g) (g_connData g)) of
             Inl e \<Rightarrow> Inl (e, Some c, g_connData g)
           | Inr b \<Rightarrow>
               (case DoHandshake P (proxy_Read w G) (proxy_Write w G) b
                  (proxy_SetReadDeadline w G now (now + handshakeReadTimeout) c, g_connData g) of
                  (Inl e, c', d') \<Rightarrow> Inl (e, Some c', d')
                | (Inr b', c', d') \<Rightarrow>
                    let c'' = proxy_SetReadDeadline w G now' zero_time c' in
                    if remoteStatic (m_hs b') = None then Inl (ErrPanic, Some c'', d')
                    else Inr (g\<lparr>g_ProxyConn := Some c'', g_noise := Some b', g_connData := d'\<rparr>))))"

definition ClientHandshake :: "('sk, 'pk) prims \<Rightarrow> (nat \<Rightarrow> 'sk option) \<Rightarrow> nat \<Rightarrow> 'g gbn_conn \<Rightarrow> time \<Rightarrow> time \<Rightarrow>
    'g ProxyConn option \<Rightarrow> ('sk, 'pk, 'g ProxyConn) NoiseGrpcConn \<Rightarrow>
    (go_error \<times> 'g ProxyConn option \<times> ('sk, 'pk) ConnData) + ('sk, 'pk, 'g ProxyConn) NoiseGrpcConn" where
  "ClientHandshake P gen w G now now' = grpc_handshake P gen w G now now' True"

definition ServerHandshake :: "('sk, 'pk) prims \<Rightarrow> (nat \<Rightarrow> 'sk option) \<Rightarrow> nat \<Rightarrow> 'g gbn_conn \<Rightarrow> time \<Rightarrow> time \<Rightarrow>
    'g ProxyConn option \<Rightarrow> ('sk, 'pk, 'g ProxyConn) NoiseGrpcConn \<Rightarrow>
    (go_error \<times> 'g ProxyConn option \<times> ('sk, 'pk) ConnData) + ('sk, 'pk, 'g ProxyConn) NoiseGrpcConn" where
  "ServerHandshake P gen w G now now' = grpc_handshake P gen w G now now' False"

subsection \<open>Request metadata\<close>

text \<open>\<^verbatim>\<open>strings.Split\<close> with a separator that is not empty; \<open>acc\<close> is the piece so far.\<close>

function split_from :: "bytes \<Rightarrow> bytes \<Rightarrow> bytes \<Rightarrow> bytes list" where
  "split_from sep acc [] = [acc]"
| "split_from sep acc (x # xs) =
     (if sep \<noteq> [] \<and> prefix sep (x # xs) then acc # split_from sep [] (drop (length sep) (x # xs))
      else split_from sep (acc @ [x]) xs)"
  by pat_completeness auto
termination
  by (relation "measure (\<lambda>(sep, acc, s). length s)") (auto simp: Suc_le_eq)

definition strings_Split :: "bytes \<Rightarrow> bytes \<Rightarrow> bytes list" where
  "strings_Split s sep = split_from sep [] s"

definition crlf :: bytes where
  "crlf = [13, 10]"

definition colon_space :: bytes where
  "colon_space = [58, 32]"

definition add_line :: "(bytes \<rightharpoonup> bytes) \<Rightarrow> bytes \<Rightarrow> (bytes \<rightharpoonup> bytes)" where
  "add_line md line =
     (case strings_Split line colon_space of [name, val] \<Rightarrow> md(name \<mapsto> val) | _ \<Rightarrow> md)"

definition GetRequestMetadata :: "('sk, 'pk, 'c) NoiseGrpcConn \<Rightarrow> (bytes \<rightharpoonup> bytes)" where
  "GetRequestMetadata g =
     (let authData = (case cd_authData (g_connData g) of None \<Rightarrow> [] | Some a \<Rightarrow> a)
      in foldl add_line Map.empty (strings_Split authData crlf))"


subsection \<open>Splitting and joining\<close>

text \<open>A separator of two different bytes cannot overlap the end of a piece without it.\<close>

lemma split_from_piece:
  assumes "a \<noteq> b" and "\<not> sublist [a, b] p"
  shows "split_from [a, b] acc (p @ [a, b] @ rest) = (acc @ p) # split_from [a, b] [] rest"
  using assms(2)
proof (induction p arbitrary: acc)
  case Nil
  then show ?case by simp
next
  case (Cons x xs)
  have "\<not> prefix [a, b] (x # xs @ [a, b] @ rest)"
  proof (cases xs)
    case Nil
    then show ?thesis using assms(1) by simp
  next
    case (Cons y ys)
    then show ?thesis using Cons.prems by (auto simp: sublist_Cons_right)
  qed
  moreover have "\<not> sublist [a, b] xs" using Cons.prems by (simp add: sublist_Cons_right)
  ultimately show ?case using Cons.IH [of "acc @ [x]"] by simp
qed

lemma split_from_last:
  assumes "\<not> sublist [a, b] p"
  shows "split_from [a, b] acc p = [acc @ p]"
  using assms
proof (induction p arbitrary: acc)
  case (Cons x xs)
  then show ?case using Cons.IH [of "acc @ [x]"] by (simp add: sublist_Cons_right)
qed simp

text \<open>Header fields the way they are put into the auth data.\<close>

definition field_line :: "bytes \<times> bytes \<Rightarrow> bytes" where
  "field_line kv = fst kv @ colon_space @ snd kv"

fun join_lines :: "bytes list \<Rightarrow> bytes" where
  "join_lines [] = []"
| "join_lines [l] = l"
| "join_lines (l # ls) = l @ crlf @ join_lines ls"

lemma split_lines:
  assumes "ls \<noteq> []" and "\<forall>l \<in> set ls. \<not> sublist crlf l"
  shows "strings_Split (join_lines ls) crlf = ls"
proof -
  have "split_from [13, 10] [] (join_lines ls) = ls"
    using assms
  proof (induction ls rule: join_lines.induct)
    case (2 l)
    then show ?case by (simp add: split_from_last crlf_def)
  next
    case (3 l l' ls)
    then show ?case
      using split_from_piece [of 13 10 l "[]" "join_lines (l' # ls)"] by (simp add: crlf_def)
  qed simp
  then show ?thesis by (simp add: strings_Split_def crlf_def)
qed

lemma add_field:
  assumes "\<not> sublist colon_space (fst kv)" and "\<not> sublist colon_space (snd kv)"
  shows "add_line md (field_line kv) = md(fst kv \<mapsto> snd kv)"
  using split_from_piece [of 58 32 "fst kv" "[]" "snd kv"] split_from_last [of 58 32 "snd kv" "[]"] assms
  by (simp add: add_line_def field_line_def strings_Split_def colon_space_def)

definition field_ok :: "bytes \<times> bytes \<Rightarrow> bool" where
  "field_ok kv \<longleftrightarrow> \<not> sublist colon_space (fst kv) \<and> \<not> sublist colon_space (snd kv) \<and>
     \<not> sublist crlf (field_line kv)"

lemma foldl_fields:
  assumes "\<forall>kv \<in> set kvs. field_ok kv"
  shows "foldl add_line md (map field_line kvs) = md ++ map_of (rev kvs)"
  using assms
  by (induction kvs arbitrary: md) (auto simp: field_ok_def add_field map_add_def fun_eq_iff
      split: option.splits)

text \<open>
  The metadata of a request are the header fields in the auth data: auth data made of
  lines \<open>name: value\<close> separated by CR LF give exactly these fields, the last one for a name that
  occurs twice, as long as no name or value contains a separator; auth data that are missing or
  empty give none.
\<close>

theorem request_metadata:
  assumes "\<forall>kv \<in> set kvs. field_ok kv" and "auth_bytes (cd_authData (g_connData g)) = join_lines (map field_line kvs)"
  shows "GetRequestMetadata g = map_of (rev kvs)"
proof (cases "kvs = []")
  case True
  then have "strings_Split (auth_bytes (cd_authData (g_connData g))) crlf = [[]]"
    using assms(2) by (simp add: strings_Split_def)
  then show ?thesis
    using True by (simp add: GetRequestMetadata_def auth_bytes_def Let_def add_line_def strings_Split_def)
next
  case False
  then have "strings_Split (auth_bytes (cd_authData (g_connData g))) crlf = map field_line kvs"
    using assms by (simp add: split_lines field_ok_def)
  then show ?thesis
    using foldl_fields [OF assms(1), of Map.empty]
    by (simp add: GetRequestMetadata_def auth_bytes_def Let_def)
qed

subsection \<open>Reading what was written\<close>

fun grpc_writes :: "('sk, 'pk) prims \<Rightarrow> 'c writer \<Rightarrow> bytes list \<Rightarrow> ('sk, 'pk, 'c) NoiseGrpcConn \<Rightarrow>
    (int \<times> go_error option) list \<times> ('sk, 'pk, 'c) NoiseGrpcConn" where
  "grpc_writes P wr [] g = ([], g)"
| "grpc_writes P wr (b # bs) g =
     (case Grpc_Write P wr b g of (r, g1) \<Rightarrow> case grpc_writes P wr bs g1 of (rs, g2) \<Rightarrow> (r # rs, g2))"

fun grpc_reads :: "('sk, 'pk) prims \<Rightarrow> 'c reader \<Rightarrow> nat list \<Rightarrow> ('sk, 'pk, 'c) NoiseGrpcConn \<Rightarrow>
    ((nat \<times> bytes \<times> go_error option) list \<times> ('sk, 'pk, 'c) NoiseGrpcConn) option" where
  "grpc_reads P rd [] g = Some ([], g)"
| "grpc_reads P rd (n # ns) g = do {
     (r, g1) \<leftarrow> Grpc_Read P rd n g;
     (rs, g2) \<leftarrow> grpc_reads P rd ns g1;
     Some (r # rs, g2) }"

lemma grpc_reads_append:
  assumes "grpc_reads P rd ns g = Some (rs, g1)" and "grpc_reads P rd ns' g1 = Some (rs', g2)"
  shows "grpc_reads P rd (ns @ ns') g = Some (rs @ rs', g2)"
  using assms by (induction ns arbitrary: g rs) (auto split: bind_splits)

text \<open>The reads that a message takes: one, or two when it has more than 32 KiB.\<close>

definition pieces :: "bytes \<Rightarrow> bytes list" where
  "pieces m = (if length m \<le> defaultGrpcWriteBufSize then [m]
     else [take defaultGrpcWriteBufSize m, drop defaultGrpcWriteBufSize m])"

definition piece_read :: "bytes \<Rightarrow> nat \<times> bytes \<times> go_error option" where
  "piece_read p = (length p, p, None)"

lemma concat_pieces: "concat (pieces m) = m"
  by (simp add: pieces_def)

lemma frames_not_empty:
  assumes "prims_ok P"
  shows "[] \<notin> set (frames P c ms)"
proof (induction ms arbitrary: c)
  case (Cons m ms)
  have "fst (frame P c m) \<noteq> []" "snd (frame P c m) \<noteq> []"
    using frame_lengths [OF assms, of c m] by (auto simp: encHeaderSize_def lengthHeaderSize_def macSize_def)
  with Cons show ?case by auto
qed simp

context message_conn
begin

lemma grpc_write_all:
  assumes "prims_ok P" and "g_noise g = Some b" and "g_ProxyConn g = Some c"
    and "cipher_inv (sendCipher b)" and "pending b = []"
    and "\<forall>m \<in> set ms. length m \<le> MaxUint16" and "MaxUint16 + macSize < lim"
  shows "\<exists>g' b' c'. grpc_writes P wr ms g = (map (\<lambda>m. (int (length m), None)) ms, g') \<and>
    g_noise g' = Some b' \<and> g_ProxyConn g' = Some c' \<and> outbox c' = outbox c @ frames P (sendCipher b) ms"
  using assms(2-6)
proof (induction ms arbitrary: g b c)
  case Nil
  then show ?case by simp
next
  case (Cons m ms)
  have m: "length m \<le> MaxUint16" using Cons.prems by simp
  obtain b1 c1 where w: "WriteMessage P m b = (None, b1)"
    "Flush wr b1 c = ((int (length m), None, b\<lparr>sendCipher := next_cipher P (sendCipher b)\<rparr>), c1)"
    "outbox c1 = outbox c @ [fst (frame P (sendCipher b) m), snd (frame P (sendCipher b) m)]"
    by (rule write_flush [OF assms(1) Cons.prems(3,4) m assms(7)])
  let ?b = "b\<lparr>sendCipher := next_cipher P (sendCipher b)\<rparr>"
  let ?g = "g\<lparr>g_noise := Some ?b, g_ProxyConn := Some c1\<rparr>"
  have "Grpc_Write P wr m g = ((int (length m), None), ?g)"
    using Cons.prems(1,2) w(1,2) by (simp add: Grpc_Write_def)
  moreover have "\<exists>g' b' c'. grpc_writes P wr ms ?g = (map (\<lambda>m. (int (length m), None)) ms, g') \<and>
    g_noise g' = Some b' \<and> g_ProxyConn g' = Some c' \<and> outbox c' = outbox c1 @ frames P (sendCipher ?b) ms"
    by (rule Cons.IH) (use Cons.prems in \<open>simp_all add: pending_def\<close>)
  ultimately show ?case using w(3) by auto
qed

lemma grpc_read_one:
  assumes "prims_ok P" and g: "g_noise g = Some b" "g_ProxyConn g = Some c" "g_nextMsg g = []"
    and "cipher_inv (recvCipher b)" and "length m \<le> MaxUint16" and "no_empty c"
    and s: "stream c = concat (frames P (recvCipher b) (m # ms))"
    and ns: "length ns = length (pieces m)" "\<forall>n \<in> set ns. defaultGrpcWriteBufSize \<le> n"
  obtains g' c' where "grpc_reads P rd ns g = Some (map piece_read (pieces m), g')"
    and "g_noise g' = Some (b\<lparr>recvCipher := next_cipher P (recvCipher b)\<rparr>)" and "g_ProxyConn g' = Some c'"
    and "g_nextMsg g' = []" and "no_empty c'"
    and "stream c' = concat (frames P (next_cipher P (recvCipher b)) ms)"
proof -
  let ?b = "b\<lparr>recvCipher := next_cipher P (recvCipher b)\<rparr>"
  have s': "stream c = fst (frame P (recvCipher b) m) @ snd (frame P (recvCipher b) m) @
      concat (frames P (next_cipher P (recvCipher b)) ms)" using s by simp
  obtain c' where r: "ReadMessage P rd b c = Some (Inr m, ?b, c')"
      "stream c' = concat (frames P (next_cipher P (recvCipher b)) ms)" "no_empty c'"
    by (rule read_frame [OF assms(1,5-7) s'])
  let ?g = "g\<lparr>g_noise := Some ?b, g_ProxyConn := Some c'\<rparr>"
  show thesis
  proof (cases "length m \<le> defaultGrpcWriteBufSize")
    case True
    then obtain n where n: "ns = [n]" "defaultGrpcWriteBufSize \<le> n"
      using ns by (auto simp: pieces_def length_Suc_conv)
    have "grpc_reads P rd ns g = Some (map piece_read (pieces m), ?g)"
      using True n g r(1) by (simp add: Grpc_Read_def pieces_def piece_read_def Let_def)
    then show thesis by (rule that) (use g r in simp_all)
  next
    case False
    then obtain n k where n: "ns = [n, k]" "defaultGrpcWriteBufSize \<le> n" "defaultGrpcWriteBufSize \<le> k"
      using ns by (auto simp: pieces_def length_Suc_conv)
    have "length m - defaultGrpcWriteBufSize \<le> k"
      using n(3) assms(6) by (simp add: MaxUint16_def defaultGrpcWriteBufSize_def)
    then have "grpc_reads P rd ns g = Some (map piece_read (pieces m), ?g)"
      using False n g r(1)
      by (simp add: Grpc_Read_def pieces_def piece_read_def Let_def min_def)
    then show thesis by (rule that) (use g r in simp_all)
  qed
qed

lemma grpc_read_all:
  assumes "prims_ok P" and "g_noise g = Some b" "g_ProxyConn g = Some c" "g_nextMsg g = []"
    and "cipher_inv (recvCipher b)" and "\<forall>m \<in> set ms. length m \<le> MaxUint16" and "no_empty c"
    and "stream c = concat (frames P (recvCipher b) ms)"
    and "length ns = length (concat (map pieces ms))" "\<forall>n \<in> set ns. defaultGrpcWriteBufSize \<le> n"
  shows "\<exists>g'. grpc_reads P rd ns g = Some (map piece_read (concat (map pieces ms)), g') \<and> g_nextMsg g' = []"
  using assms(2-)
proof (induction ms arbitrary: g b c ns)
  case Nil
  then show ?case by simp
next
  case (Cons m ms)
  let ?n1 = "take (length (pieces m)) ns" and ?n2 = "drop (length (pieces m)) ns"
  have m: "length m \<le> MaxUint16" using Cons.prems by simp
  have l: "length ?n1 = length (pieces m)" "\<forall>n \<in> set ?n1. defaultGrpcWriteBufSize \<le> n"
    using Cons.prems by (auto dest: in_set_takeD)
  obtain g1 c1 where 1: "grpc_reads P rd ?n1 g = Some (map piece_read (pieces m), g1)"
    "g_noise g1 = Some (b\<lparr>recvCipher := next_cipher P (recvCipher b)\<rparr>)" "g_ProxyConn g1 = Some c1"
    "g_nextMsg g1 = []" "no_empty c1" "stream c1 = concat (frames P (next_cipher P (recvCipher b)) ms)"
    by (rule grpc_read_one [OF assms(1) Cons.prems(1-4) m Cons.prems(6,7) l])
  have "\<exists>g'. grpc_reads P rd ?n2 g1 = Some (map piece_read (concat (map pieces ms)), g') \<and> g_nextMsg g' = []"
    by (rule Cons.IH [OF 1(2-4)]) (use Cons.prems 1(5,6) in \<open>auto dest: in_set_dropD\<close>)
  then obtain g2 where 2: "grpc_reads P rd ?n2 g1 = Some (map piece_read (concat (map pieces ms)), g2)"
      "g_nextMsg g2 = []" by blast
  from grpc_reads_append [OF 1(1) 2(1)] 2(2) show ?case by simp
qed

end


subsection \<open>A session\<close>

lemma p_deadline [simp]:
  "p_buf (proxy_SetReadDeadline 64 queue_gbn now t c) = p_buf c"
  "p_in (proxy_SetReadDeadline 64 queue_gbn now t c) = p_in c"
  "p_out (proxy_SetReadDeadline 64 queue_gbn now t c) = p_out c"
  by (cases c; simp add: proxy_SetReadDeadline_def SetReadDeadline_def p_buf_def p_in_def p_out_def
      client_control_def server_control_def queue_defs)+

lemma grpc_handshake_ends:
  assumes "NewBrontideMachine P gen (handshake_cfg init (minHandshakeVersion g) (maxHandshakeVersion g)
      (g_connData g)) = Inr b"
    and "handshake_ends P b (g_connData g) ins outs b' d'" and "remoteStatic (m_hs b') \<noteq> None"
    and "p_buf c = []" and "p_in c = ins @ ms"
  obtains c' where "grpc_handshake P gen 64 queue_gbn now now' init (Some c) g =
      Inr (g\<lparr>g_ProxyConn := Some c', g_noise := Some b', g_connData := d'\<rparr>)"
    and "p_buf c' = []" and "p_in c' = ms" and "p_out c' = p_out c @ outs"
proof -
  let ?c = "proxy_SetReadDeadline 64 queue_gbn now (now + handshakeReadTimeout) c"
  obtain c1 where c1: "DoHandshake P (proxy_Read 64 queue_gbn) (proxy_Write 64 queue_gbn) b (?c, g_connData g) =
      (Inr b', c1, d')" "p_buf c1 = []" "p_in c1 = ms" "p_out c1 = p_out c @ outs"
    using assms(2,4,5) unfolding handshake_ends_def by (metis p_deadline)
  show thesis
    by (rule that [of "proxy_SetReadDeadline 64 queue_gbn now' zero_time c1"])
      (use assms(1,3) c1 in \<open>auto simp: grpc_handshake_def Let_def\<close>)
qed

lemma grpc_transfer:
  assumes "prims_ok P" and "channels_match a b" and "g_noise A = Some a" and "g_ProxyConn A = Some ca"
    and "\<forall>m \<in> set ms. length m \<le> MaxUint16"
  obtains A' ca' where
    "grpc_writes P (proxy_Write 64 queue_gbn) ms A = (map (\<lambda>m. (int (length m), None)) ms, A')"
    and "g_ProxyConn A' = Some ca'" and "p_out ca' = p_out ca @ frames P (sendCipher a) ms"
proof -
  have "cipher_inv (sendCipher a)" "pending a = []"
    using assms(2) unfolding channels_match_def pending_def by (blast, simp)
  from mbox.grpc_write_all [OF assms(1,3,4) this assms(5) mbox_room] that show thesis by blast
qed

lemma grpc_receive:
  assumes "prims_ok P" and "channels_match a b" and "g_noise B = Some b" and "g_ProxyConn B = Some cb"
    and "g_nextMsg B = []" and "p_buf cb = []" and "p_in cb = frames P (sendCipher a) ms"
    and "\<forall>m \<in> set ms. length m \<le> MaxUint16"
    and "length ns = length (concat (map pieces ms))" and "\<forall>n \<in> set ns. defaultGrpcWriteBufSize \<le> n"
  shows "\<exists>B'. grpc_reads P (proxy_Read 64 queue_gbn) ns B =
    Some (map piece_read (concat (map pieces ms)), B') \<and> g_nextMsg B' = []"
proof -
  have c: "recvCipher b = sendCipher a" using assms(2) by (simp add: channels_match_def)
  then have inv: "cipher_inv (recvCipher b)" using assms(2) by (simp add: channels_match_def)
  have "mbox.no_empty cb" "mbox.stream cb = concat (frames P (recvCipher b) ms)"
    using assms(6,7) frames_not_empty [OF assms(1)] by (simp_all add: mbox.no_empty_def mbox.stream_def c)
  from mbox.grpc_read_all [OF assms(1,3-5) inv assms(8) this assms(9,10)] show ?thesis .
qed


lemma fresh_grpc [simp]:
  "g_connData (NewNoiseGrpcConn d []) = d" "minHandshakeVersion (NewNoiseGrpcConn d []) = 0"
  "maxHandshakeVersion (NewNoiseGrpcConn d []) = 2" "g_nextMsg (NewNoiseGrpcConn d []) = []"
  by (simp_all add: NewNoiseGrpcConn_def MinHandshakeVersion_def MaxHandshakeVersion_def)

lemma concat_map_pieces: "concat (concat (map pieces ms)) = concat ms"
  by (induction ms) (simp_all add: concat_pieces)

lemma stored_pair:
  assumes "ends_paired P 2 2 dI dR bI bR"
  shows "ConnData_HandshakePattern (stored (m_hs bI) dI) = KKPattern"
    and "ConnData_HandshakePattern (stored (m_hs bR) dR) = KKPattern"
    and "cd_authData (stored (m_hs bI) dI) = Some (auth_bytes (cd_authData dR))"
  using assms by (simp_all add: ends_paired_def stored_def ConnData_HandshakePattern_def received_exact)

lemma stored_peers:
  "ends_paired P 2 2 dI dR bI bR \<Longrightarrow> peers P (stored (m_hs bI) dI) (stored (m_hs bR) dR)"
  by (simp add: ends_paired_def stored_def peers_def Let_def)

lemma session_run:
  assumes "prims_ok P"
    and bI: "NewBrontideMachine P gI (handshake_cfg True 0 2 dI) = Inr bI"
    and bR: "NewBrontideMachine P gR (handshake_cfg False 0 2 dR) = Inr bR"
    and I: "handshake_ends P bI dI [m2] [m1, m3] bI' (stored (m_hs bI') dI)"
    and R: "handshake_ends P bR dR [m1, m3] [m2] bR' (stored (m_hs bR') dR)"
    and p: "ends_paired P 2 2 dI dR bI' bR'"
    and ms: "\<forall>m \<in> set ms. length m \<le> MaxUint16" "length ns = length (concat (map pieces ms))"
      "\<forall>n \<in> set ns. defaultGrpcWriteBufSize \<le> n"
    and c: "p_buf cI = []" "p_buf cR = []" "p_in cI = [m2]" "p_in cR = [m1, m3] @ frames P (sendCipher bI') ms"
  shows "\<exists>A A' B B' ca cb. ClientHandshake P gI 64 queue_gbn t1 t2 (Some cI) (NewNoiseGrpcConn dI []) = Inr A \<and>
      ServerHandshake P gR 64 queue_gbn t3 t4 (Some cR) (NewNoiseGrpcConn dR []) = Inr B \<and>
      grpc_writes P (proxy_Write 64 queue_gbn) ms A = (map (\<lambda>m. (int (length m), None)) ms, A') \<and>
      g_ProxyConn A' = Some ca \<and> p_out ca = p_out cI @ [m1, m3] @ frames P (sendCipher bI') ms \<and>
      g_ProxyConn B = Some cb \<and> p_out cb = p_out cR @ [m2] \<and>
      grpc_reads P (proxy_Read 64 queue_gbn) ns B = Some (map piece_read (concat (map pieces ms)), B') \<and>
      concat (concat (map pieces ms)) = concat ms \<and>
      ConnData_HandshakePattern (g_connData A) = KKPattern \<and>
      ConnData_HandshakePattern (g_connData B) = KKPattern \<and>
      cd_authData (g_connData A) = Some (auth_bytes (cd_authData dR)) \<and>
      peers P (g_connData A) (g_connData B)"
proof -
  let ?gI = "NewNoiseGrpcConn dI []" and ?gR = "NewNoiseGrpcConn dR []"
  have e: "remoteStatic (m_hs bI') \<noteq> None" "remoteStatic (m_hs bR') \<noteq> None" "channels_match bI' bR'"
    using p by (simp_all add: ends_paired_def)
  obtain c1 where 1: "grpc_handshake P gI 64 queue_gbn t1 t2 True (Some cI) ?gI =
      Inr (?gI\<lparr>g_ProxyConn := Some c1, g_noise := Some bI', g_connData := stored (m_hs bI') dI\<rparr>)"
      "p_buf c1 = []" "p_in c1 = []" "p_out c1 = p_out cI @ [m1, m3]"
    by (rule grpc_handshake_ends [of P gI True ?gI bI "[m2]" "[m1, m3]" bI' "stored (m_hs bI') dI"
          cI "[]" t1 t2]) (use bI I e c in simp_all)
  obtain c2 where 2: "grpc_handshake P gR 64 queue_gbn t3 t4 False (Some cR) ?gR =
      Inr (?gR\<lparr>g_ProxyConn := Some c2, g_noise := Some bR', g_connData := stored (m_hs bR') dR\<rparr>)"
      "p_buf c2 = []" "p_in c2 = frames P (sendCipher bI') ms" "p_out c2 = p_out cR @ [m2]"
    by (rule grpc_handshake_ends [of P gR False ?gR bR "[m1, m3]" "[m2]" bR' "stored (m_hs bR') dR"
          cR "frames P (sendCipher bI') ms" t3 t4]) (use bR R e c in simp_all)
  let ?A = "?gI\<lparr>g_ProxyConn := Some c1, g_noise := Some bI', g_connData := stored (m_hs bI') dI\<rparr>"
  let ?B = "?gR\<lparr>g_ProxyConn := Some c2, g_noise := Some bR', g_connData := stored (m_hs bR') dR\<rparr>"
  obtain A' ca where 3: "grpc_writes P (proxy_Write 64 queue_gbn) ms ?A =
      (map (\<lambda>m. (int (length m), None)) ms, A')" "g_ProxyConn A' = Some ca"
      "p_out ca = p_out c1 @ frames P (sendCipher bI') ms"
    by (rule grpc_transfer [OF assms(1) e(3), of ?A c1 ms]) (use ms in simp_all)
  obtain B' where 4: "grpc_reads P (proxy_Read 64 queue_gbn) ns ?B =
      Some (map piece_read (concat (map pieces ms)), B')"
    using grpc_receive [OF assms(1) e(3), of ?B c2 ms ns] 2(2,3) ms by auto
  show ?thesis
    by (rule exI [of _ ?A], rule exI [of _ A'], rule exI [of _ ?B], rule exI [of _ B'],
        rule exI [of _ ca], rule exI [of _ c2])
      (use 1 2 3 4 stored_pair [OF p] stored_peers [OF p] concat_map_pieces in \<open>simp add: ClientHandshake_def ServerHandshake_def\<close>)
qed

text \<open>Messages that a mailbox connection can carry, and a connection with such messages.\<close>

definition carried :: "bytes list \<Rightarrow> bool" where
  "carried ms \<longleftrightarrow> set ms \<subseteq> range payload_of"

lemma carried_conn:
  assumes "carried ms"
  obtains c where "p_buf c = []" and "p_in c = ms" and "p_out c = []"
proof -
  have "\<exists>bs. ms = map payload_of bs"
    using assms unfolding carried_def by (subst ex_map_conv) blast
  then obtain bs where "ms = map payload_of bs" ..
  then show thesis
    by (intro that [of "ClientProxy \<lparr>serverAddr = [], impl = \<lparr>q_in = bs, q_out = [], q_sendTimeout = 0,
        q_recvTimeout = 0\<rparr>, readDeadline = 0, writeDeadline = 0, receiveSID = [], sendSID = [], recvBuffer = []\<rparr>"])
      (simp_all add: p_buf_def p_in_def p_out_def payloads_in_def payloads_out_def)
qed

lemma carried_simps [simp]: "carried []" "carried (xs @ ys) = (carried xs \<and> carried ys)"
  by (auto simp: carried_def)

lemma carried_out: "carried (p_out c)"
  by (auto simp: carried_def p_out_def payloads_out_def)

lemma carried_waits:
  assumes "handshake_waits P b d ins outs" and "carried ins"
  shows "carried outs"
proof -
  obtain c where c: "p_buf c = []" "p_in c = ins" "p_out c = []"
    by (rule carried_conn [OF assms(2)])
  with assms(1) obtain c' where "p_out c' = p_out c @ outs" unfolding handshake_waits_def by blast
  then have "p_out c' = outs" using c(3) by simp
  with carried_out [of c'] show ?thesis by simp
qed

lemma carried_ends:
  assumes "handshake_ends P b d ins outs b' d'" and "carried ins"
  shows "carried outs"
proof -
  obtain c where c: "p_buf c = []" "p_in c = ins" "p_out c = []"
    by (rule carried_conn [OF assms(2)])
  then have "p_in c = ins @ []" by simp
  with assms(1) c(1) obtain c' where "p_out c' = p_out c @ outs" unfolding handshake_ends_def by blast
  then have "p_out c' = outs" using c(3) by simp
  with carried_out [of c'] show ?thesis by simp
qed

lemma carried_frames:
  assumes "prims_ok P" and "\<forall>m \<in> set ms. length m \<le> MaxUint16"
  shows "carried (frames P c ms)"
proof -
  have "length b < 2 ^ 32" if "b \<in> set (frames P c ms)" for b
    using that assms(2) frame_lengths [OF assms(1)]
    by (induction ms arbitrary: c)
      (auto simp: encHeaderSize_def lengthHeaderSize_def macSize_def MaxUint16_def)
  then have "b \<in> range payload_of" if "b \<in> set (frames P c ms)" for b
    using that payload_of_Serialize [of b 0] by (intro range_eqI [of _ _ "MsgData_Serialize (NewMsgData 0 b)"]) simp
  then show ?thesis unfolding carried_def by blast
qed

text \<open>
  C5: a whole first session over the mailbox. Two fresh credentials with the same passphrase
  run their handshakes on connections that carry each other's messages; then a sequence of
  writes of the client reports every byte as written, and the server's reads, with buffers of
  at least 32 KiB, return the messages in order and unchanged, in one read or in two when a
  message is longer than 32 KiB. Both ends have stored each other's key and use the KK pattern
  from now on; the request metadata of the client come from the server's auth data.
\<close>

theorem grpc_session:
  assumes "prims_ok P" and "parties_ok gI gR (0, 2) (0, 2) dI dR"
    and "cd_remoteKey dI = None" and "cd_remoteKey dR = None"
    and "cd_passphraseEntropy dI = cd_passphraseEntropy dR"
    and "scrypt_key P (cd_passphraseEntropy dR) (cd_passphraseEntropy dR) = Some k"
    and "\<forall>m \<in> set ms. length m \<le> MaxUint16"
    and "length ns = length (concat (map pieces ms))" and "\<forall>n \<in> set ns. defaultGrpcWriteBufSize \<le> n"
  shows "\<exists>m1 m2 m3 fs. carried [m2] \<and> carried ([m1, m3] @ fs) \<and>
    (\<forall>cI cR t1 t2 t3 t4. p_buf cI = [] \<and> p_buf cR = [] \<and> p_in cI = [m2] \<and>
      p_in cR = [m1, m3] @ fs \<longrightarrow>
    (\<exists>A A' B B' ca cb. ClientHandshake P gI 64 queue_gbn t1 t2 (Some cI) (NewNoiseGrpcConn dI []) = Inr A \<and>
      ServerHandshake P gR 64 queue_gbn t3 t4 (Some cR) (NewNoiseGrpcConn dR []) = Inr B \<and>
      grpc_writes P (proxy_Write 64 queue_gbn) ms A = (map (\<lambda>m. (int (length m), None)) ms, A') \<and>
      g_ProxyConn A' = Some ca \<and> p_out ca = p_out cI @ [m1, m3] @ fs \<and>
      g_ProxyConn B = Some cb \<and> p_out cb = p_out cR @ [m2] \<and>
      grpc_reads P (proxy_Read 64 queue_gbn) ns B = Some (map piece_read (concat (map pieces ms)), B') \<and>
      concat (concat (map pieces ms)) = concat ms \<and>
      ConnData_HandshakePattern (g_connData A) = KKPattern \<and>
      ConnData_HandshakePattern (g_connData B) = KKPattern \<and>
      cd_authData (g_connData A) = Some (auth_bytes (cd_authData dR)) \<and>
      peers P (g_connData A) (g_connData B)))"
proof -
  have v: "(0 :: u8) \<le> 2" "(2 :: u8) \<le> 2" "((2 :: u8) = 0) = ((2 :: u8) = 0)" by simp_all
  obtain bI bR m1 m2 m3 bI' bR' where X:
    "NewBrontideMachine P gI (handshake_cfg True 0 2 dI) = Inr bI"
    "NewBrontideMachine P gR (handshake_cfg False 0 2 dR) = Inr bR"
    "handshake_waits P bI dI [] [m1]" "handshake_waits P bR dR [m1] [2 # m2]"
    "handshake_ends P bI dI [2 # m2] [m1, 2 # m3] bI' (stored (m_hs bI') dI)"
    "handshake_ends P bR dR [m1, 2 # m3] [2 # m2] bR' (stored (m_hs bR') dR)"
    "ends_paired P 2 2 dI dR bI' bR'"
    by (rule xx_machines [OF assms(1-6) v(1,2,2,3)])
  have m2: "carried [2 # m2]" using carried_waits X(3,4) by (metis carried_simps(1))
  have m3: "carried [m1, 2 # m3]" using carried_ends [OF X(5) m2] .
  have fs: "carried ([m1, 2 # m3] @ frames P (sendCipher bI') ms)"
    using m3 carried_frames [OF assms(1,7)] by (simp only: carried_simps)
  show ?thesis
    by (rule exI [of _ m1], rule exI [of _ "2 # m2"], rule exI [of _ "2 # m3"],
        rule exI [of _ "frames P (sendCipher bI') ms"], intro conjI allI impI, rule m2, rule fs,
        elim conjE, rule session_run [OF assms(1) X(1,2,5,6,7) assms(7-9)])
qed

theorem grpc_session_witness:
  "\<exists>A A' B B' cI cR.
     ClientHandshake example_prims (\<lambda>_. Some 11) 64 queue_gbn 0 0 (Some cI)
       (NewNoiseGrpcConn (example_client None) []) = Inr A \<and>
     ServerHandshake example_prims (\<lambda>_. Some 13) 64 queue_gbn 0 0 (Some cR)
       (NewNoiseGrpcConn (example_server None [9]) []) = Inr B \<and>
     grpc_writes example_prims (proxy_Write 64 queue_gbn) [[1, 2], [3]] A = ([(2, None), (1, None)], A') \<and>
     grpc_reads example_prims (proxy_Read 64 queue_gbn) [32768, 32768] B =
       Some ([(2, [1, 2], None), (1, [3], None)], B') \<and>
     cd_authData (g_connData A) = Some [9]"
proof -
  let ?ms = "[[1, 2], [3]] :: bytes list"
  have p: "parties_ok (\<lambda>_. Some 11) (\<lambda>_. Some 13) (0, 2) (0, 2) (example_client None) (example_server None [9])"
    by (rule example_parties) (simp_all add: MaxInt32_def)
  have ms: "\<forall>m \<in> set ?ms. length m \<le> MaxUint16"
      "length [32768, 32768 :: nat] = length (concat (map pieces ?ms))"
      "\<forall>n \<in> set [32768, 32768]. defaultGrpcWriteBufSize \<le> n"
    by (simp_all add: MaxUint16_def pieces_def defaultGrpcWriteBufSize_def)
  have r: "map (\<lambda>m. (int (length m), None)) ?ms = [(2, None), (1, None)]"
      "map piece_read (concat (map pieces ?ms)) = [(2, [1, 2], None), (1, [3], None)]"
      "auth_bytes (cd_authData (example_server None [9])) = [9]"
    by (simp_all add: pieces_def piece_read_def defaultGrpcWriteBufSize_def example_updates auth_bytes_def)
  show ?thesis
    apply (insert grpc_session [OF example_prims_ok p example_xx ms])
    apply (elim exE conjE)
    subgoal premises prems for m1 m2 m3 fs
      apply (rule carried_conn [OF prems(1)], rule carried_conn [OF prems(2)])
      subgoal premises c for cI cR
        using prems(3) [rule_format, of cI cR 0 0 0 0, unfolded r] c by blast
      done
    done
qed


subsection \<open>What a new handshake does not reset\<close>

text \<open>
  C39: the second half of a message survives the connection it came from. When a connection
  ends between the two reads of a message of more than 32 KiB, the next handshake on the same
  credentials, of a client or of a server, keeps the rest, and the first read on the new
  connection returns these bytes of the old one before anything of the new peer.
\<close>

theorem grpc_stale_bytes:
  assumes "g_nextMsg g \<noteq> []"
    and "ClientHandshake P gen w G now now' conn g = Inr g' \<or>
      ServerHandshake P gen w G now now' conn g = Inr g'"
  shows "Grpc_Read P rd n g' =
    Some ((length (g_nextMsg g), take n (g_nextMsg g), None), g'\<lparr>g_nextMsg := []\<rparr>)"
  using assms
  by (auto simp: ClientHandshake_def ServerHandshake_def grpc_handshake_def Grpc_Read_def Let_def
      split: option.splits sum.splits prod.splits if_splits)

theorem grpc_stale_bytes_witness:
  "\<exists>c g'. ClientHandshake example_prims (\<lambda>_. Some 11) 64 queue_gbn 0 0 (Some c)
       ((NewNoiseGrpcConn (example_client None) [])\<lparr>g_nextMsg := [42]\<rparr>) = Inr g' \<and>
     Grpc_Read example_prims (proxy_Read 64 queue_gbn) 100 g' =
       Some ((1, [42], None), g'\<lparr>g_nextMsg := []\<rparr>)"
proof -
  let ?P = example_prims and ?dI = "example_client None" and ?dR = "example_server None [9]"
  let ?g = "(NewNoiseGrpcConn ?dI [])\<lparr>g_nextMsg := [42]\<rparr>"
  have p: "parties_ok (\<lambda>_. Some 11) (\<lambda>_. Some 13) (0, 2) (0, 2) ?dI ?dR"
    by (rule example_parties) (simp_all add: MaxInt32_def)
  have v: "(0 :: u8) \<le> 2" "(2 :: u8) \<le> 2" "((2 :: u8) = 0) = ((2 :: u8) = 0)" by simp_all
  obtain bI bR m1 m2 m3 bI' bR' where X:
    "NewBrontideMachine ?P (\<lambda>_. Some 11) (handshake_cfg True 0 2 ?dI) = Inr bI"
    "NewBrontideMachine ?P (\<lambda>_. Some 13) (handshake_cfg False 0 2 ?dR) = Inr bR"
    "handshake_waits ?P bI ?dI [] [m1]" "handshake_waits ?P bR ?dR [m1] [2 # m2]"
    "handshake_ends ?P bI ?dI [2 # m2] [m1, 2 # m3] bI' (stored (m_hs bI') ?dI)"
    "handshake_ends ?P bR ?dR [m1, 2 # m3] [2 # m2] bR' (stored (m_hs bR') ?dR)"
    "ends_paired ?P 2 2 ?dI ?dR bI' bR'"
    by (rule xx_machines [OF example_prims_ok p example_xx v(1,2,2,3)])
  have "carried [2 # m2]" by (rule carried_waits [OF X(4) carried_waits [OF X(3)]]) simp
  then obtain c where c: "p_buf c = []" "p_in c = [2 # m2]" by (rule carried_conn)
  have e: "remoteStatic (m_hs bI') \<noteq> None" using X(7) by (simp add: ends_paired_def)
  have "\<exists>g'. ClientHandshake ?P (\<lambda>_. Some 11) 64 queue_gbn 0 0 (Some c) ?g = Inr g'"
    unfolding ClientHandshake_def
    by (rule grpc_handshake_ends [of ?P "\<lambda>_. Some 11" True ?g bI "[2 # m2]" "[m1, 2 # m3]" bI'
          "stored (m_hs bI') ?dI" c "[]" 0 0]) (use X e c in auto)
  then obtain g' where g': "ClientHandshake ?P (\<lambda>_. Some 11) 64 queue_gbn 0 0 (Some c) ?g = Inr g'" ..
  then show ?thesis
    using grpc_stale_bytes [of ?g ?P "\<lambda>_. Some 11" 64 queue_gbn 0 0 "Some c" g' "proxy_Read 64 queue_gbn" 100]
    by auto
qed

text \<open>A copy of the credentials only speaks version 0 and cannot take part in a KK handshake.\<close>

lemma clone_cannot_pair:
  assumes "cd_remoteKey (g_connData g) \<noteq> None"
  shows "ClientHandshake P gen w G now now' (Some c) (Clone g) = Inl (ErrKKVersion, Some c, g_connData g)"
  using assms
  by (simp add: ClientHandshake_def grpc_handshake_def Clone_def NewBrontideMachine_def handshake_cfg_def
      ConnData_HandshakePattern_def pattern_names Let_def del: not_None_eq)

text \<open>A read into a buffer that is too short reports more bytes than it copied and loses the rest.\<close>

lemma grpc_short_buffer:
  assumes "n < length (g_nextMsg g)"
  shows "\<exists>k copied g'. Grpc_Read P rd n g = Some ((k, copied, None), g') \<and> n < k \<and>
    length copied = n \<and> g_nextMsg g' = []"
  using assms by (auto simp: Grpc_Read_def)

end
