(* ===== verification/Mailbox_Pairing.thy ===== *)
theory Mailbox_Pairing
  imports Mailbox_Session Noise_Grpc
begin

section \<open>Pairing phrases (mailbox/crypto.go, mailbox/create\_conn.go)\<close>

text \<open>
  The ten words of a pairing phrase and the entropy they stand for, and the construction of a
  client from a phrase. The bit stream (package bstream) and the word list (package aezeed) are
  not part of the repository: they are parameters, and what is relied on is stated as
  \<open>bstream_ok\<close> and \<open>words_ok\<close>.
\<close>

subsection \<open>Bits\<close>

text \<open>Bits are written with the most significant one first.\<close>

definition bits_of :: "nat \<Rightarrow> 'a::len word \<Rightarrow> bool list" where
  "bits_of n u = rev (map (bit u) [0..<n])"

definition bits_val :: "bool list \<Rightarrow> 'a::len word" where
  "bits_val bs = horner_sum of_bool 2 (rev bs)"

text \<open>Bytes made of bits, the last one filled up with zeros.\<close>

fun pack :: "bool list \<Rightarrow> bytes" where
  "pack [] = []"
| "pack (b # bs) = bits_val (take 8 (b # bs @ replicate 7 False)) # pack (drop 7 bs)"

lemma length_bits_of [simp]: "length (bits_of n u) = n"
  by (simp add: bits_of_def)

lemma bits_val_of: "bits_val (bits_of n u) = take_bit n (u :: 'a::len word)"
  by (simp add: bits_val_def bits_of_def horner_sum_bit_eq_take_bit)

lemma bit_bits_val: "length bs \<le> LENGTH('a) \<Longrightarrow> i < length bs \<Longrightarrow>
    bit (bits_val bs :: 'a::len word) i = bs ! (length bs - Suc i)"
  by (simp add: bits_val_def bit_horner_sum_bit_word_iff rev_nth)

lemma bits_of_val:
  assumes "length bs = n" and "n \<le> LENGTH('a)"
  shows "bits_of n (bits_val bs :: 'a::len word) = bs"
  using assms by (intro nth_equalityI) (auto simp: bits_of_def rev_nth bit_bits_val)

lemma pack_step: "bs \<noteq> [] \<Longrightarrow> pack bs = bits_val (take 8 (bs @ replicate 7 False)) # pack (drop 8 bs)"
  by (cases bs) (simp_all add: numeral_eq_Suc)

lemma concat_bits_take:
  "concat (map (bits_of 8) (pack bs)) = bs @ replicate ((8 - length bs mod 8) mod 8) False"
proof (induction "length bs" arbitrary: bs rule: less_induct)
  case less
  show ?case
  proof (cases "bs = []")
    case False
    let ?t = "take 8 (bs @ replicate 7 False)"
    have b8: "bits_of 8 (bits_val ?t :: u8) = ?t" by (rule bits_of_val) (use False in \<open>cases bs; simp\<close>)+
    show ?thesis
    proof (cases "8 \<le> length bs")
      case True
      then obtain k where k: "length bs = 8 + k" using le_Suc_ex by blast
      have "concat (map (bits_of 8) (pack (drop 8 bs)))
          = drop 8 bs @ replicate ((8 - length (drop 8 bs) mod 8) mod 8) False"
        by (rule less) (use k in simp)
      moreover have "?t = take 8 bs" using True by simp
      ultimately show ?thesis using b8 k by (simp add: pack_step [OF False])
    next
      case lt: False
      then have "?t = bs @ replicate (8 - length bs) False" using False by (cases bs) simp_all
      with b8 lt False show ?thesis by (simp add: pack_step [OF False])
    qed
  qed simp
qed

lemma pack_append: "pack (concat (map (bits_of 8) bs) @ rest) = bs @ pack rest"
proof (induction bs)
  case (Cons b bs)
  let ?bs = "bits_of 8 b @ concat (map (bits_of 8) bs) @ rest"
  have ne: "?bs \<noteq> []" using length_bits_of [of 8 b] by (cases "bits_of 8 b") auto
  have "bits_val (bits_of 8 b) = b" by (simp add: bits_val_of take_bit_word_eq_self)
  with Cons.IH show ?case by (simp add: pack_step [OF ne])
qed simp

subsection \<open>Words and entropy\<close>

text \<open>
  What the code uses of the bit stream: a reader over bytes, a writer, and \<^verbatim>\<open>Bytes\<close>; of the word
  list: \<^verbatim>\<open>DefaultWordList\<close> and \<^verbatim>\<open>ReverseWordMap\<close>, a map whose missing entries read as 0.
\<close>

record 'r bstream =
  bs_reader :: "bytes \<Rightarrow> 'r"
  bs_writer :: "u8 \<Rightarrow> 'r"
  bs_ReadBits :: "nat \<Rightarrow> 'r \<Rightarrow> (go_error + u64) \<times> 'r"
  bs_WriteBits :: "u64 \<Rightarrow> nat \<Rightarrow> 'r \<Rightarrow> 'r"
  bs_Bytes :: "'r \<Rightarrow> bytes"

definition NumPassphraseWords :: nat where
  "NumPassphraseWords = 10"

definition NumPassphraseEntropyBytes :: nat where
  "NumPassphraseEntropyBytes = 14"

definition BitsPerWord :: nat where
  "BitsPerWord = 11"

text \<open>The loop; an index outside the word list panics (\<open>None\<close>).\<close>

fun fill_words :: "'r bstream \<Rightarrow> bytes list \<Rightarrow> nat \<Rightarrow> nat \<Rightarrow> 'r \<Rightarrow> bytes list \<Rightarrow>
    (bytes list \<times> go_error option) option" where
  "fill_words B wl 0 i r p = Some (p, None)"
| "fill_words B wl (Suc n) i r p =
     (case bs_ReadBits B BitsPerWord r of
        (Inl e, r') \<Rightarrow> Some (p, Some e)
      | (Inr index, r') \<Rightarrow>
          if unat index < length wl then fill_words B wl n (Suc i) r' (p[i := wl ! unat index]) else None)"

definition PassphraseEntropyToMnemonic :: "'r bstream \<Rightarrow> bytes list \<Rightarrow> bytes \<Rightarrow>
    (bytes list \<times> go_error option) option" where
  "PassphraseEntropyToMnemonic B wl entropy =
     fill_words B wl NumPassphraseWords 0 (bs_reader B entropy) (replicate NumPassphraseWords [])"

definition PassphraseMnemonicToEntropy :: "'r bstream \<Rightarrow> (bytes \<Rightarrow> nat) \<Rightarrow> bytes list \<Rightarrow> bytes" where
  "PassphraseMnemonicToEntropy B index passphrase =
     (let w = fold (\<lambda>word w. bs_WriteBits B (of_nat (index word)) BitsPerWord w) passphrase
                (bs_writer B (of_nat NumPassphraseEntropyBytes))
      in take NumPassphraseEntropyBytes (bs_Bytes B w @ replicate NumPassphraseEntropyBytes 0))"

text \<open>\<open>rand\<close> is the result of \<^verbatim>\<open>rand.Read\<close>.\<close>

definition NewPassphraseEntropy :: "'r bstream \<Rightarrow> bytes list \<Rightarrow> (bytes \<Rightarrow> nat) \<Rightarrow> go_error + bytes \<Rightarrow>
    (bytes list \<times> bytes \<times> go_error option) option" where
  "NewPassphraseEntropy B wl index rand =
     (case rand of
        Inl e \<Rightarrow> Some (replicate NumPassphraseWords [], replicate NumPassphraseEntropyBytes 0, Some e)
      | Inr entropy \<Rightarrow> do {
          (passphrase, err) \<leftarrow> PassphraseEntropyToMnemonic B wl entropy;
          Some (case err of
             Some e \<Rightarrow> (passphrase, entropy, Some e)
           | None \<Rightarrow> (passphrase, PassphraseMnemonicToEntropy B index passphrase, None)) })"

lemmas pairing_consts = NumPassphraseWords_def NumPassphraseEntropyBytes_def BitsPerWord_def

text \<open>
  The documented behaviour of the parameters: bits are read and written one after the other,
  most significant first, and the unused bits of the last byte are zero; there is a word for
  each value of 11 bits, and the map inverts the list.
\<close>

definition bstream_ok :: "('r \<Rightarrow> bool list) \<Rightarrow> 'r bstream \<Rightarrow> bool" where
  "bstream_ok bits B \<longleftrightarrow>
     (\<forall>bs. bits (bs_reader B bs) = concat (map (bits_of 8) bs)) \<and>
     (\<forall>r n. n \<le> length (bits r) \<and> n \<le> 64 \<longrightarrow>
        fst (bs_ReadBits B n r) = Inr (bits_val (take n (bits r))) \<and> bits (snd (bs_ReadBits B n r)) = drop n (bits r)) \<and>
     (\<forall>k. bits (bs_writer B k) = []) \<and>
     (\<forall>u n w. n \<le> 64 \<longrightarrow> bits (bs_WriteBits B u n w) = bits w @ bits_of n u) \<and>
     (\<forall>w. bs_Bytes B w = pack (bits w))"

definition words_ok :: "bytes list \<Rightarrow> (bytes \<Rightarrow> nat) \<Rightarrow> bool" where
  "words_ok wl index \<longleftrightarrow> length wl = 2048 \<and> (\<forall>i < 2048. index (wl ! i) = i)"

lemma bstream_okD:
  assumes "bstream_ok bits B"
  shows "bits (bs_reader B bs) = concat (map (bits_of 8) bs)"
    and "n \<le> length (bits r) \<Longrightarrow> n \<le> 64 \<Longrightarrow> \<exists>r'. bs_ReadBits B n r = (Inr (bits_val (take n (bits r))), r') \<and> bits r' = drop n (bits r)"
    and "bits (bs_writer B k) = []"
    and "n \<le> 64 \<Longrightarrow> bits (bs_WriteBits B u n w) = bits w @ bits_of n u"
    and "bs_Bytes B w = pack (bits w)"
  using assms unfolding bstream_ok_def by (metis prod.collapse)+

text \<open>The words that bits stand for.\<close>

fun word_indices :: "nat \<Rightarrow> bool list \<Rightarrow> nat list" where
  "word_indices 0 bs = []"
| "word_indices (Suc n) bs = unat (bits_val (take 11 bs) :: u64) # word_indices n (drop 11 bs)"

lemma length_word_indices [simp]: "length (word_indices n bs) = n"
  by (induction n arbitrary: bs) simp_all

lemma bits_val_11: "length bs = 11 \<Longrightarrow> unat (bits_val bs :: u64) < 2048"
proof -
  assume l: "length bs = 11"
  have "bits_val bs = (take_bit 11 (bits_val bs) :: u64)"
    using bits_of_val [of bs 11, where 'a = 64] bits_val_of [of 11 "bits_val bs :: u64"] l by simp
  then have "unat (bits_val bs :: u64) = unat (take_bit 11 (bits_val bs) :: u64)" by simp
  also have "\<dots> < 2048" using take_bit_nat_less_exp [of 11 "unat (bits_val bs :: u64)"] by (simp add: unsigned_take_bit_eq)
  finally show ?thesis .
qed

lemma word_indices_bound: "11 * n \<le> length bs \<Longrightarrow> i \<in> set (word_indices n bs) \<Longrightarrow> i < 2048"
proof (induction n arbitrary: bs)
  case (Suc n)
  then show ?case using Suc.IH [of "drop 11 bs"] bits_val_11 [of "take 11 bs"] by auto
qed simp

lemma concat_word_indices:
  "11 * n \<le> length bs \<Longrightarrow> concat (map (\<lambda>i. bits_of 11 (of_nat i :: u64)) (word_indices n bs)) = take (11 * n) bs"
proof (induction n arbitrary: bs)
  case (Suc n)
  then have "bits_of 11 (bits_val (take 11 bs) :: u64) = take 11 bs" by (intro bits_of_val) auto
  with Suc show ?case by (simp add: take_add [of 11 "11 * n"])
qed simp

lemma word_indices_concat:
  assumes "\<forall>i \<in> set is. i < 2048"
  shows "word_indices (length is) (concat (map (\<lambda>i. bits_of 11 (of_nat i :: u64)) is) @ rest) = is"
  using assms
proof (induction "is")
  case (Cons i "is")
  then have "unat (of_nat i :: u64) = i" by (simp add: unsigned_of_nat take_bit_eq_mod)
  moreover have "unat (take_bit 11 (of_nat i :: u64)) = take_bit 11 (unat (of_nat i :: u64))"
    by (rule unsigned_take_bit_eq)
  ultimately have "unat (take_bit 11 (of_nat i :: u64)) = i"
    using Cons.prems by (simp only:) (simp add: take_bit_eq_mod)
  with Cons show ?case by (simp add: bits_val_of)
qed simp

lemma fill_words_spec:
  assumes "bstream_ok bits B" and "length wl = 2048" and "11 * n \<le> length (bits r)" and "length p = i + n"
  shows "fill_words B wl n i r p = Some (take i p @ map (\<lambda>j. wl ! j) (word_indices n (bits r)), None)"
  using assms(3,4)
proof (induction n arbitrary: i r p)
  case (Suc n)
  obtain r' where r': "bs_ReadBits B BitsPerWord r = (Inr (bits_val (take 11 (bits r))), r')" "bits r' = drop 11 (bits r)"
    using bstream_okD(2) [OF assms(1), of BitsPerWord r] Suc.prems(1) by (auto simp: BitsPerWord_def)
  have v: "unat (bits_val (take 11 (bits r)) :: u64) < 2048" by (rule bits_val_11) (use Suc.prems(1) in simp)
  let ?p = "p[i := wl ! unat (bits_val (take 11 (bits r)) :: u64)]"
  have "fill_words B wl n (Suc i) r' ?p
      = Some (take (Suc i) ?p @ map (\<lambda>j. wl ! j) (word_indices n (bits r')), None)"
    by (rule Suc.IH) (use Suc.prems r' in simp_all)
  moreover have "take (Suc i) ?p = take i p @ [wl ! unat (bits_val (take 11 (bits r)) :: u64)]"
    using Suc.prems(2) by (simp add: take_Suc_conv_app_nth)
  ultimately show ?case using r' v assms(2) by simp
qed simp

lemma MnemonicToEntropy_bits:
  assumes "bstream_ok bits B"
  shows "PassphraseMnemonicToEntropy B index ws = take 14
    (pack (concat (map (\<lambda>w. bits_of 11 (of_nat (index w) :: u64)) ws)) @ replicate 14 0)"
proof -
  have "bits (fold (\<lambda>word w. bs_WriteBits B (of_nat (index word)) BitsPerWord w) ws w0)
      = bits w0 @ concat (map (\<lambda>w. bits_of 11 (of_nat (index w) :: u64)) ws)" for w0
    by (induction ws arbitrary: w0) (simp_all add: bstream_okD(4) [OF assms] BitsPerWord_def)
  then show ?thesis
    by (simp add: PassphraseMnemonicToEntropy_def Let_def bstream_okD(3,5) [OF assms] pairing_consts)
qed

text \<open>The bits of fourteen bytes that the words keep: all but the last two.\<close>

definition clear_unused :: "bytes \<Rightarrow> bytes" where
  "clear_unused e = butlast e @ [last e AND 0xFC]"

lemma length_concat_bits: "length (concat (map (bits_of n) bs)) = n * length bs"
  by (induction bs) simp_all

lemma pack_last: "pack (take 6 (bits_of 8 b)) = [b AND 0xFC]"
proof -
  have ne: "take 6 (bits_of 8 b) \<noteq> []" using length_bits_of [of 8 b] by (cases "bits_of 8 b") auto
  have "bits_val (take 6 (bits_of 8 b) @ [False, False]) = (b AND 0xFC :: u8)"
  proof (rule bit_word_eqI)
    fix i assume "i < LENGTH(8)"
    then have "i \<in> {0, 1, 2, 3, 4, 5, 6, 7}" by auto
    then show "bit (bits_val (take 6 (bits_of 8 b) @ [False, False]) :: u8) i = bit (b AND 0xFC) i"
      by (auto simp: bit_bits_val bits_of_def rev_nth nth_append bit_and_iff numeral_2_eq_2)
  qed
  moreover have "take 8 (take 6 (bits_of 8 b) @ replicate 7 False) = take 6 (bits_of 8 b) @ [False, False]"
    by (simp add: numeral_eq_Suc)
  ultimately show ?thesis by (simp add: pack_step [OF ne])
qed

lemma pack_110:
  assumes "length e = 14"
  shows "pack (take 110 (concat (map (bits_of 8) e))) = clear_unused e"
proof -
  have e: "e = butlast e @ [last e]" using assms by (intro append_butlast_last_id [symmetric]) auto
  have l: "length (concat (map (bits_of 8) (butlast e))) = 104" using assms by (simp add: length_concat_bits)
  have "take 110 (concat (map (bits_of 8) e)) = concat (map (bits_of 8) (butlast e)) @ take 6 (bits_of 8 (last e))"
    by (subst e) (simp add: l)
  then show ?thesis by (simp add: pack_append pack_last clear_unused_def)
qed

lemma length_clear_unused [simp]: "e \<noteq> [] \<Longrightarrow> length (clear_unused e) = length e"
  by (simp add: clear_unused_def)

lemma EntropyToMnemonic_words:
  assumes "bstream_ok bits B" and "words_ok wl index" and "length e = 14"
  shows "PassphraseEntropyToMnemonic B wl e
    = Some (map (\<lambda>j. wl ! j) (word_indices 10 (concat (map (bits_of 8) e))), None)"
  using fill_words_spec [OF assms(1), of wl 10 "bs_reader B e" "replicate 10 []" 0] assms(2,3)
  by (simp add: PassphraseEntropyToMnemonic_def NumPassphraseWords_def bstream_okD(1) [OF assms(1)]
      length_concat_bits words_ok_def)

lemma index_words:
  assumes "words_ok wl index" and "\<forall>i \<in> set is. i < 2048"
  shows "map index (map (\<lambda>j. wl ! j) is) = is"
  using assms by (intro nth_equalityI) (auto simp: words_ok_def)

lemma entropy_words_entropy:
  assumes "bstream_ok bits B" and "words_ok wl index" and "length e = 14"
  shows "PassphraseMnemonicToEntropy B index (map (\<lambda>j. wl ! j) (word_indices 10 (concat (map (bits_of 8) e))))
    = clear_unused e"
proof -
  let ?bs = "concat (map (bits_of 8) e)" and ?is = "word_indices 10 (concat (map (bits_of 8) e))"
  have l: "11 * 10 \<le> length ?bs" using assms(3) by (simp add: length_concat_bits)
  have "map index (map (\<lambda>j. wl ! j) ?is) = ?is"
    by (rule index_words [OF assms(2)]) (use word_indices_bound [OF l] in blast)
  then have "concat (map (\<lambda>i. bits_of 11 (of_nat i :: u64)) (map index (map (\<lambda>j. wl ! j) ?is))) = take 110 ?bs"
    using concat_word_indices [OF l] by simp
  moreover have "map (\<lambda>i. bits_of 11 (of_nat i :: u64)) (map index ws) = map (\<lambda>w. bits_of 11 (of_nat (index w) :: u64)) ws" for ws
    by simp
  ultimately have "PassphraseMnemonicToEntropy B index (map (\<lambda>j. wl ! j) ?is) = take 14 (clear_unused e @ replicate 14 0)"
    by (simp only: MnemonicToEntropy_bits [OF assms(1)] pack_110 [OF assms(3)])
  moreover have "length (clear_unused e) = 14" using assms(3) by (cases e) simp_all
  ultimately show ?thesis by simp
qed

lemma words_entropy_words:
  assumes B: "bstream_ok bits B" and wl: "words_ok wl index" and ws: "length ws = 10" "set ws \<subseteq> set wl"
  shows "PassphraseEntropyToMnemonic B wl (PassphraseMnemonicToEntropy B index ws) = Some (ws, None)"
    and "length (PassphraseMnemonicToEntropy B index ws) = 14"
proof -
  let ?is = "map index ws" and ?bits = "concat (map (\<lambda>i. bits_of 11 (of_nat i :: u64)) (map index ws))"
  have i: "index w < 2048 \<and> wl ! index w = w" if "w \<in> set wl" for w
    using that wl by (auto simp: words_ok_def in_set_conv_nth)
  have l: "length ?bits = 110" using ws(1) by (simp add: length_concat comp_def sum_list_triv)
  have c: "concat (map (bits_of 8) (pack ?bits)) = ?bits @ [False, False]"
    using concat_bits_take [of ?bits] l by (simp add: numeral_2_eq_2)
  then have "8 * length (pack ?bits) = 112" using length_concat_bits [of 8 "pack ?bits"] l by simp
  then have e: "PassphraseMnemonicToEntropy B index ws = pack ?bits" and "length (pack ?bits) = 14"
    by (simp_all add: MnemonicToEntropy_bits [OF B] comp_def)
  then show "length (PassphraseMnemonicToEntropy B index ws) = 14" by simp
  have "word_indices (length ?is) (?bits @ [False, False]) = ?is"
    by (rule word_indices_concat) (use i ws(2) in auto)
  then have "word_indices 10 (concat (map (bits_of 8) (pack ?bits))) = ?is" using c ws(1) by simp
  moreover have "map (\<lambda>j. wl ! j) ?is = ws" unfolding map_map by (rule map_idI) (use i ws(2) in auto)
  ultimately show "PassphraseEntropyToMnemonic B wl (PassphraseMnemonicToEntropy B index ws) = Some (ws, None)"
    using EntropyToMnemonic_words [OF B wl, of "pack ?bits"] e \<open>length (pack ?bits) = 14\<close> by simp
qed

lemma EntropyToMnemonic_ok:
  assumes "bstream_ok bits B" and "words_ok wl index" and "length e = 14"
  obtains ws where "PassphraseEntropyToMnemonic B wl e = Some (ws, None)" and "length ws = 10" and "set ws \<subseteq> set wl"
    and "PassphraseMnemonicToEntropy B index ws = clear_unused e"
proof
  let ?is = "word_indices 10 (concat (map (bits_of 8) e))"
  show "PassphraseEntropyToMnemonic B wl e = Some (map (\<lambda>j. wl ! j) ?is, None)"
    by (rule EntropyToMnemonic_words [OF assms])
  show "length (map (\<lambda>j. wl ! j) ?is) = 10" by simp
  have "i < 2048" if "i \<in> set ?is" for i
    by (rule word_indices_bound [OF _ that]) (use assms(3) in \<open>simp add: length_concat_bits\<close>)
  then show "set (map (\<lambda>j. wl ! j) ?is) \<subseteq> set wl" using assms(2) by (auto simp: words_ok_def)
  show "PassphraseMnemonicToEntropy B index (map (\<lambda>j. wl ! j) ?is) = clear_unused e"
    by (rule entropy_words_entropy [OF assms])
qed

text \<open>A bit stream as a list of bits, and a list of words of two bytes.\<close>

definition example_bstream :: "bool list bstream" where
  "example_bstream = \<lparr>bs_reader = (\<lambda>bs. concat (map (bits_of 8) bs)), bs_writer = (\<lambda>k. []),
     bs_ReadBits = (\<lambda>n r. if n \<le> length r then (Inr (bits_val (take n r)), drop n r) else (Inl go_error.ErrEOF, r)),
     bs_WriteBits = (\<lambda>u n w. w @ bits_of n u), bs_Bytes = pack\<rparr>"

definition example_words :: "bytes list" where
  "example_words = map (\<lambda>i. [64 + of_nat (i div 64), 64 + of_nat (i mod 64)]) [0..<2048]"

definition example_index :: "bytes \<Rightarrow> nat" where
  "example_index w = 64 * (unat (w ! 0 - 64)) + unat (w ! 1 - 64)"

lemma example_bstream_ok: "bstream_ok id example_bstream"
  by (simp add: bstream_ok_def example_bstream_def)

lemma example_words_ok: "words_ok example_words example_index"
proof -
  have "example_index (example_words ! i) = i" if "i < 2048" for i
  proof -
    have "i div 64 < 256" "i mod 64 < 256" using that by (simp_all add: less_mult_imp_div_less)
    then show ?thesis using that
      by (simp add: example_index_def example_words_def unsigned_of_nat take_bit_eq_mod)
  qed
  then show ?thesis by (simp add: words_ok_def example_words_def)
qed

lemma example_words_no_space: "\<forall>w \<in> set example_words. 32 \<notin> set w"
proof -
  have "32 \<noteq> (64 + of_nat k :: u8)" if "k < 64" for k
  proof -
    have "unat (64 + of_nat k :: u8) = 64 + k"
      using that by (simp add: unat_word_ariths unsigned_of_nat take_bit_eq_mod)
    moreover have "unat (32 :: u8) = 32" by simp
    ultimately have "unat (32 :: u8) \<noteq> unat (64 + of_nat k :: u8)" by linarith
    then show ?thesis by metis
  qed
  then show ?thesis by (auto simp: example_words_def less_mult_imp_div_less)
qed

text \<open>
  C22: words and entropy stand for each other. Every entropy of 14 bytes has ten words of the
  list, which give back the entropy without the last two bits, the ones that ten words of 11
  bits cannot hold; ten words of the list give an entropy whose words they are; and the words
  and the entropy that \<^verbatim>\<open>NewPassphraseEntropy\<close> returns belong together in both directions.
\<close>

theorem mnemonic_roundtrip:
  assumes "bstream_ok bits B" and "words_ok wl index" and "length e = 14"
    and "length ws = 10" and "set ws \<subseteq> set wl"
  shows "(\<exists>p. PassphraseEntropyToMnemonic B wl e = Some (p, None) \<and> length p = 10 \<and> set p \<subseteq> set wl \<and>
      PassphraseMnemonicToEntropy B index p = clear_unused e) \<and>
    PassphraseEntropyToMnemonic B wl (PassphraseMnemonicToEntropy B index ws) = Some (ws, None) \<and>
    (\<exists>p e'. NewPassphraseEntropy B wl index (Inr e) = Some (p, e', None) \<and> length e' = 14 \<and>
      PassphraseMnemonicToEntropy B index p = e' \<and> PassphraseEntropyToMnemonic B wl e' = Some (p, None))"
proof -
  obtain p where p: "PassphraseEntropyToMnemonic B wl e = Some (p, None)" "length p = 10" "set p \<subseteq> set wl"
      "PassphraseMnemonicToEntropy B index p = clear_unused e"
    using EntropyToMnemonic_ok [OF assms(1-3)] .
  then have "NewPassphraseEntropy B wl index (Inr e) = Some (p, PassphraseMnemonicToEntropy B index p, None)"
    by (simp add: NewPassphraseEntropy_def)
  with p words_entropy_words [OF assms(1,2) p(2,3)] words_entropy_words [OF assms(1,2,4,5)] show ?thesis by blast
qed

theorem mnemonic_roundtrip_witness:
  "\<exists>p. PassphraseEntropyToMnemonic example_bstream example_words (replicate 14 255) = Some (p, None) \<and>
     PassphraseMnemonicToEntropy example_bstream example_index p = replicate 13 255 @ [252]"
proof -
  have "example_words ! 0 \<in> set example_words" by (rule nth_mem) (simp add: example_words_def)
  then have "set (replicate 10 (example_words ! 0)) \<subseteq> set example_words" by simp
  from mnemonic_roundtrip [OF example_bstream_ok example_words_ok, of "replicate 14 255", OF _ _ this]
  show ?thesis by (auto simp: clear_unused_def numeral_eq_Suc)
qed

subsection \<open>A client for a pairing phrase\<close>

text \<open>
  \<^verbatim>\<open>NewClientWebsocketConn\<close>: the session and the credentials for gRPC, which share the
  connection data; the dial options only pass them on. The words of the phrase are copied to
  an array of ten.
\<close>

definition phrase_words :: "bytes \<Rightarrow> bytes list" where
  "phrase_words phrase = take NumPassphraseWords (strings_Split phrase [32] @ replicate NumPassphraseWords [])"

definition NewClientWebsocketConn :: "('sk, 'pk) prims \<Rightarrow> 'r bstream \<Rightarrow> (bytes \<Rightarrow> nat) \<Rightarrow> string \<Rightarrow> bytes \<Rightarrow>
    'sk \<Rightarrow> 'pk option \<Rightarrow> ('pk option \<Rightarrow> go_error option) option \<Rightarrow> (bytes \<Rightarrow> go_error option) option \<Rightarrow>
    go_error + ('sk, 'pk) Client \<times> ('sk, 'pk, 'c) NoiseGrpcConn" where
  "NewClientWebsocketConn P B index mailboxServer pairingPhrase lk rk onR onA =
     (let entropy = PassphraseMnemonicToEntropy B index (phrase_words pairingPhrase);
          connData = NewConnData lk rk entropy None onR onA
      in ebind (NewWebsocketsClient P mailboxServer connData) (\<lambda>transportConn.
           Inr (transportConn, NewNoiseGrpcConn connData [])))"

text \<open>The phrase as it is shown to the user: the words with a space between them.\<close>

fun join_words :: "bytes list \<Rightarrow> bytes" where
  "join_words [] = []"
| "join_words [w] = w"
| "join_words (w # ws) = w @ 32 # join_words ws"

lemma split_word:
  "32 \<notin> set w \<Longrightarrow> split_from [32] acc (w @ 32 # rest) = (acc @ w) # split_from [32] [] rest"
  "32 \<notin> set w \<Longrightarrow> split_from [32] acc w = [acc @ w]"
  by (induction w arbitrary: acc) auto

lemma split_words: "ws \<noteq> [] \<Longrightarrow> \<forall>w \<in> set ws. 32 \<notin> set w \<Longrightarrow> strings_Split (join_words ws) [32] = ws"
  unfolding strings_Split_def by (induction ws rule: join_words.induct) (auto simp: split_word)

text \<open>
  The phrase leads the client to the server. A server makes a passphrase and waits with
  its entropy; a client that is given the words, joined by spaces, builds connection data with
  the same entropy: the two are peers, so they derive the same session id, and the credentials
  of the client use the same data.
\<close>

theorem pairing_phrase_meets:
  assumes "prims_ok P" and "bstream_ok bits B" and "words_ok wl index" and "\<forall>w \<in> set wl. 32 \<notin> set w"
    and "length e = 14"
    and "NewPassphraseEntropy B wl index (Inr e) = Some (ws, entropy, None)"
    and "NewServer P None host (NewConnData sk None entropy auth onR onA) = Inr v"
  shows "\<exists>c (g :: ('sk, 'pk, 'c) NoiseGrpcConn).
    NewClientWebsocketConn P B index host (join_words ws) ck None onR' onA' = Inr (c, g) \<and>
    peers P (cl_connData c) (sv_connData v) \<and> cl_sid c = sv_sid v \<and> g_connData g = cl_connData c"
proof -
  obtain p where p: "PassphraseEntropyToMnemonic B wl e = Some (p, None)" "length p = 10" "set p \<subseteq> set wl"
    using EntropyToMnemonic_ok [OF assms(2,3,5)] by metis
  with assms(6) have ws: "ws = p" "entropy = PassphraseMnemonicToEntropy B index p"
    by (auto simp: NewPassphraseEntropy_def)
  have "strings_Split (join_words p) [32] = p" by (rule split_words) (use p assms(4) in auto)
  then have "phrase_words (join_words ws) = p" using p(2) ws by (simp add: phrase_words_def NumPassphraseWords_def)
  then show ?thesis using assms(7) ws
    by (auto simp: NewClientWebsocketConn_def NewWebsocketsClient_def NewClient_def NewServer_def NewConnData_def
        SID_def ebind_def peers_def NewNoiseGrpcConn_def Let_def)
qed

end
