(* ===== verification/Client_Perms.thy ===== *)
theory Client_Perms
  imports LNC_Prelude "HOL-Library.Char_ord"
begin

section \<open>What a macaroon permits (mobile/mobile.go, cmd/wasm-client/main.go)\<close>

text \<open>
  The mobile and the WebAssembly client tell an application which RPC it may call with the
  macaroon of the session. The decoding of a macaroon id (a protobuf) and the permissions that
  an RPC needs (\<^verbatim>\<open>perms.Manager\<close>) are not part of the repository and are parameters. The model
  follows both clients, which differ in the treatment of the entity \<^verbatim>\<open>uri\<close>.
\<close>

subsection \<open>Operations\<close>

text \<open>\<^verbatim>\<open>lnrpc.Op\<close> of a macaroon, and \<^verbatim>\<open>bakery.Op\<close> that an RPC requires.\<close>

record mac_op =
  Entity :: string
  Actions :: "string list"

record bakery_op =
  b_Entity :: string
  b_Action :: string

text \<open>
  \<^verbatim>\<open>extractMacaroonOps\<close> on the id of a macaroon; \<open>latest\<close> is \<^verbatim>\<open>bakery.LatestVersion\<close> and \<open>unmarshal\<close>
  the protobuf decoder. An empty id is an index out of range: \<open>None\<close>.
\<close>

datatype perm_error = InvalidMacaroonVersion bytes | UndecodableMacaroon string

definition extractMacaroonOps :: "u8 \<Rightarrow> (bytes \<Rightarrow> string + mac_op list) \<Rightarrow> bytes \<Rightarrow> (perm_error + mac_op list) option" where
  "extractMacaroonOps latest unmarshal rawID =
     (case rawID of
        [] \<Rightarrow> None
      | v # idProto \<Rightarrow> Some (
          if v \<noteq> latest then Inl (InvalidMacaroonVersion rawID)
          else (case unmarshal idProto of Inl e \<Rightarrow> Inl (UndecodableMacaroon e) | Inr ops \<Rightarrow> Inr ops)))"

fun read_actions :: "string list \<Rightarrow> bool" where
  "read_actions [] = True"
| "read_actions (action # as) = (if action \<noteq> ''read'' then False else read_actions as)"

fun isReadOnly :: "mac_op list \<Rightarrow> bool" where
  "isReadOnly [] = True"
| "isReadOnly (op # ops) = (if read_actions (Actions op) then isReadOnly ops else False)"

text \<open>The lookup map of \<^verbatim>\<open>hasPermissions\<close>: an entity that occurs again starts a new inner map.\<close>

definition add_op :: "mac_op \<Rightarrow> (string \<rightharpoonup> string set) \<Rightarrow> (string \<rightharpoonup> string set)" where
  "add_op op m = m(Entity op \<mapsto> set (Actions op))"

fun check_ops :: "(string \<rightharpoonup> string set) \<Rightarrow> bakery_op list \<Rightarrow> bool" where
  "check_ops m [] = True"
| "check_ops m (op # ops) =
     (case m (b_Entity op) of
        None \<Rightarrow> False
      | Some actions \<Rightarrow> if b_Action op \<notin> actions then False else check_ops m ops)"

definition hasPermissions :: "mac_op list \<Rightarrow> bakery_op list \<Rightarrow> bool" where
  "hasPermissions macOps requiredOps = check_ops (fold add_op macOps Map.empty) requiredOps"

text \<open>The WebAssembly client returns early when the macaroon names the URI itself.\<close>

definition PermissionEntityCustomURI :: string where
  "PermissionEntityCustomURI = ''uri''"

fun scan_uri :: "string \<Rightarrow> mac_op list \<Rightarrow> (string \<rightharpoonup> string set) \<Rightarrow> (string \<rightharpoonup> string set) option" where
  "scan_uri uri [] m = Some m"
| "scan_uri uri (op # ops) m =
     (if Entity op = PermissionEntityCustomURI \<and> uri \<in> set (Actions op) then None
      else scan_uri uri ops (add_op op m))"

definition wasm_hasPermissions :: "string \<Rightarrow> mac_op list \<Rightarrow> bakery_op list \<Rightarrow> bool" where
  "wasm_hasPermissions uri macOps requiredOps =
     (case scan_uri uri macOps Map.empty of None \<Rightarrow> True | Some m \<Rightarrow> check_ops m requiredOps)"

fun isCustom :: "mac_op list \<Rightarrow> bool" where
  "isCustom [] = False"
| "isCustom (op # ops) = (if Entity op = PermissionEntityCustomURI then True else isCustom ops)"

subsection \<open>Method names\<close>

text \<open>
  \<^verbatim>\<open>jsonCBRegex.ReplaceAllString(name, "/$1.$2/$3")\<close> with three groups of word characters
  separated by dots. A greedy group ends where the word characters end.
\<close>

definition word_char :: "char \<Rightarrow> bool" where
  "word_char c \<longleftrightarrow> CHR ''0'' \<le> c \<and> c \<le> CHR ''9'' \<or> CHR ''A'' \<le> c \<and> c \<le> CHR ''Z'' \<or>
     CHR ''a'' \<le> c \<and> c \<le> CHR ''z'' \<or> c = CHR ''_''"

definition take_word :: "string \<Rightarrow> (string \<times> string) option" where
  "take_word s = (if takeWhile word_char s = [] then None else Some (takeWhile word_char s, dropWhile word_char s))"

definition take_dot :: "string \<Rightarrow> string option" where
  "take_dot s = (case s of [] \<Rightarrow> None | c # r \<Rightarrow> if c = CHR ''.'' then Some r else None)"

definition cb_match :: "string \<Rightarrow> (string \<times> string \<times> string \<times> string) option" where
  "cb_match s = do {
     (a, s1) \<leftarrow> take_word s; s2 \<leftarrow> take_dot s1;
     (b, s3) \<leftarrow> take_word s2; s4 \<leftarrow> take_dot s3;
     (c, rest) \<leftarrow> take_word s4;
     Some (a, b, c, rest) }"

lemma take_word_shorter: "take_word s = Some (w, r) \<Longrightarrow> s = w @ r \<and> w \<noteq> []"
  by (auto simp: take_word_def split: if_splits)

lemma take_dot_shorter: "take_dot s = Some r \<Longrightarrow> s = CHR ''.'' # r"
  by (auto simp: take_dot_def split: list.splits if_splits)

lemma cb_match_eq:
  assumes "cb_match s = Some (a, b, c, rest)"
  shows "s = a @ CHR ''.'' # b @ CHR ''.'' # c @ rest" and "a \<noteq> []" and "b \<noteq> []" and "c \<noteq> []"
  using assms by (auto simp: cb_match_def bind_eq_Some_conv dest!: take_word_shorter take_dot_shorter)

function cb_to_uri :: "string \<Rightarrow> string" where
  "cb_to_uri s =
     (case cb_match s of
        Some (a, b, c, rest) \<Rightarrow> ''/'' @ a @ ''.'' @ b @ ''/'' @ c @ cb_to_uri rest
      | None \<Rightarrow> (case s of [] \<Rightarrow> [] | x # xs \<Rightarrow> x # cb_to_uri xs))"
  by pat_completeness auto
termination
  by (relation "measure length") (auto dest: cb_match_eq(1))

declare cb_to_uri.simps [simp del]

lemma take_word_dot: "w \<noteq> [] \<Longrightarrow> list_all word_char w \<Longrightarrow> take_word (w @ CHR ''.'' # r) = Some (w, CHR ''.'' # r)"
  by (auto simp: take_word_def list_all_iff word_char_def takeWhile_append2 dropWhile_append2)

lemma cb_to_uri_name:
  assumes "a \<noteq> []" "b \<noteq> []" "c \<noteq> []" and "list_all word_char a" "list_all word_char b" "list_all word_char c"
  shows "cb_to_uri (a @ ''.'' @ b @ ''.'' @ c) = ''/'' @ a @ ''.'' @ b @ ''/'' @ c"
proof -
  have c: "takeWhile word_char c = c" "dropWhile word_char c = []"
    using assms(6) by (auto simp: list_all_iff takeWhile_eq_all_conv dropWhile_eq_Nil_conv)
  have "take_word c = Some (c, [])" unfolding take_word_def c using assms(3) by simp
  then have m: "cb_match (a @ ''.'' @ b @ ''.'' @ c) = Some (a, b, c, [])"
    using take_word_dot [of a] take_word_dot [of b] assms by (simp add: cb_match_def take_dot_def)
  have "cb_match [] = None" by (simp add: cb_match_def take_word_def)
  then have "cb_to_uri [] = []" by (simp add: cb_to_uri.simps [of "[]"])
  with m show ?thesis by (subst cb_to_uri.simps) simp
qed

subsection \<open>The answers are right\<close>

text \<open>What a macaroon grants.\<close>

definition grants :: "mac_op list \<Rightarrow> string \<Rightarrow> string \<Rightarrow> bool" where
  "grants ops entity action \<longleftrightarrow> (\<exists>op \<in> set ops. Entity op = entity \<and> action \<in> set (Actions op))"

lemma isReadOnly_iff: "isReadOnly ops \<longleftrightarrow> (\<forall>entity action. grants ops entity action \<longrightarrow> action = ''read'')"
proof -
  have "read_actions as \<longleftrightarrow> (\<forall>a \<in> set as. a = ''read'')" for as by (induction as) auto
  then have "isReadOnly ops \<longleftrightarrow> (\<forall>op \<in> set ops. \<forall>a \<in> set (Actions op). a = ''read'')"
    by (induction ops) auto
  then show ?thesis by (auto simp: grants_def)
qed

lemma isCustom_iff: "isCustom ops \<longleftrightarrow> (\<exists>op \<in> set ops. Entity op = ''uri'')"
  by (induction ops) (auto simp: PermissionEntityCustomURI_def)

lemma check_ops_iff:
  "check_ops m req \<longleftrightarrow> (\<forall>r \<in> set req. \<exists>as. m (b_Entity r) = Some as \<and> b_Action r \<in> as)"
  by (induction req) (auto split: option.splits)

lemma fold_add_op_other: "e \<notin> Entity ` set ops \<Longrightarrow> fold add_op ops m e = m e"
  by (induction ops arbitrary: m) (auto simp: add_op_def)

lemma fold_add_op_sound:
  "fold add_op ops m e = Some as \<Longrightarrow> a \<in> as \<Longrightarrow> grants ops e a \<or> m e = Some as"
proof (induction ops arbitrary: m)
  case (Cons op ops)
  from Cons.IH [of "add_op op m"] Cons.prems show ?case
    by (auto simp: grants_def add_op_def split: if_splits)
qed simp

lemma fold_add_op_complete:
  "distinct (map Entity ops) \<Longrightarrow> op \<in> set ops \<Longrightarrow> fold add_op ops m (Entity op) = Some (set (Actions op))"
proof (induction ops arbitrary: m)
  case (Cons x ops)
  have x: "add_op x m (Entity x) = Some (set (Actions x))" by (simp add: add_op_def)
  have "fold add_op ops (add_op x m) (Entity x) = add_op x m (Entity x)"
    by (rule fold_add_op_other) (use Cons.prems in auto)
  with x Cons show ?case by auto
qed simp

lemma hasPermissions_sound:
  "hasPermissions ops req \<Longrightarrow> r \<in> set req \<Longrightarrow> grants ops (b_Entity r) (b_Action r)"
  using fold_add_op_sound [of ops Map.empty "b_Entity r"] by (fastforce simp: hasPermissions_def check_ops_iff)

lemma hasPermissions_iff:
  assumes "distinct (map Entity ops)"
  shows "hasPermissions ops req \<longleftrightarrow> (\<forall>r \<in> set req. grants ops (b_Entity r) (b_Action r))"
  using hasPermissions_sound [of ops req] fold_add_op_complete [OF assms]
  by (auto simp: hasPermissions_def check_ops_iff grants_def) metis

lemma scan_uri_eq:
  "scan_uri uri ops m = (if grants ops ''uri'' uri then None else Some (fold add_op ops m))"
  by (induction ops arbitrary: m) (auto simp: grants_def PermissionEntityCustomURI_def)

lemma wasm_hasPermissions_eq: "wasm_hasPermissions uri ops req \<longleftrightarrow> grants ops ''uri'' uri \<or> hasPermissions ops req"
  by (simp add: wasm_hasPermissions_def scan_uri_eq hasPermissions_def)

text \<open>
  A macaroon that lists an entity twice: the second entry hides the first one, and an operation
  that the macaroon grants is refused.
\<close>

lemma permissions_overwritten:
  "grants [\<lparr>Entity = ''info'', Actions = [''read'']\<rparr>, \<lparr>Entity = ''info'', Actions = [''write'']\<rparr>] ''info'' ''read'' \<and>
   \<not> hasPermissions [\<lparr>Entity = ''info'', Actions = [''read'']\<rparr>, \<lparr>Entity = ''info'', Actions = [''write'']\<rparr>]
       [\<lparr>b_Entity = ''info'', b_Action = ''read''\<rparr>]"
  by (simp add: grants_def hasPermissions_def add_op_def)

end
