(* ===== verification/Client_Apps.thy ===== *)
theory Client_Apps
  imports Mailbox_Pairing Client_Perms
begin

section \<open>The mobile and the WebAssembly client (mobile/mobile.go, cmd/wasm-client/main.go)\<close>

text \<open>
  The functions the two clients offer to an application: keys in text form, the callbacks of a
  connection, and the state of the clients. The library of keys (\<open>keylib\<close>), the decoder of
  macaroons, their expiry time and the gRPC connection are parameters. A panic is \<open>None\<close>.
\<close>

subsection \<open>Hexadecimal text\<close>

text \<open>\<^verbatim>\<open>hex.DecodeString\<close>.\<close>

definition hex_val :: "char \<Rightarrow> u8 option" where
  "hex_val c =
     (if CHR ''0'' \<le> c \<and> c \<le> CHR ''9'' then Some (of_char c - 48)
      else if CHR ''a'' \<le> c \<and> c \<le> CHR ''f'' then Some (of_char c - 87)
      else if CHR ''A'' \<le> c \<and> c \<le> CHR ''F'' then Some (of_char c - 55)
      else None)"

fun hex_decode :: "string \<Rightarrow> go_error + bytes" where
  "hex_decode [] = Inr []"
| "hex_decode [c] = Inl (ErrConn (if hex_val c = None then ''encoding/hex: invalid byte''
     else ''encoding/hex: odd length hex string''))"
| "hex_decode (a # b # r) =
     (case (hex_val a, hex_val b) of
        (Some x, Some y) \<Rightarrow> ebind (hex_decode r) (\<lambda>bs. Inr ((push_bit 4 x OR y) # bs))
      | _ \<Rightarrow> Inl (ErrConn ''encoding/hex: invalid byte''))"

lemma hex_val_digit:
  assumes "unat d < 16"
  shows "hex_val (hex_digit d) = Some d"
proof -
  have "unat d = 0 \<or> unat d = 1 \<or> unat d = 2 \<or> unat d = 3 \<or> unat d = 4 \<or> unat d = 5 \<or> unat d = 6 \<or> unat d = 7 \<or>
      unat d = 8 \<or> unat d = 9 \<or> unat d = 10 \<or> unat d = 11 \<or> unat d = 12 \<or> unat d = 13 \<or> unat d = 14 \<or> unat d = 15"
    using assms by (simp add: less_Suc_eq numeral_eq_Suc)
  moreover have "d = of_nat (unat d)" by simp
  ultimately show ?thesis
    by (elim disjE) (simp_all add: hex_digit_def hex_val_def)
qed

lemma hex_roundtrip: "hex_decode (hex_encode bs) = Inr bs"
proof (induction bs)
  case (Cons b bs)
  then show ?case
    by (simp add: hex_encode_def hex_byte_def hex_val_digit nibble_bounds nibbles ebind_def)
qed (simp add: hex_encode_def)

subsection \<open>Keys\<close>

text \<open>
  \<^verbatim>\<open>btcec\<close>: a new private key, its serialization, and the private key for bytes.
\<close>

record 'sk keylib =
  NewPrivateKey :: "go_error + 'sk"
  sk_Serialize :: "'sk \<Rightarrow> bytes"
  PrivKeyFromBytes :: "bytes \<Rightarrow> 'sk"

text \<open>The errors of the two clients.\<close>

datatype app_error =
    NoNamespace
  | UnknownNamespace string
  | GettingClient app_error
  | NeedMailboxServer
  | RemoteWithoutLocal
  | NeedOnLocalPrivCreate
  | NeedOnRemoteKeyReceive
  | NeedParameters
  | NeedRpcName
  | NeedRequest
  | NotReady
  | RpcNotFound string
  | NoMacaroonYet
  | NoExpiry
  | NoMacaroonInAuthData
  | BadMacaroon string
  | LibError go_error
  | JsError string

text \<open>
  The switch of \<^verbatim>\<open>parseKeys\<close>, the same in both clients: a new key, which the caller passes on in
  text form, a known local key, or both keys.
\<close>

definition parse_local :: "'sk keylib \<Rightarrow> string \<Rightarrow> go_error + 'sk" where
  "parse_local K s = ebind (hex_decode s) (\<lambda>b. Inr (PrivKeyFromBytes K b))"

definition parse_remote :: "('sk, 'pk) prims \<Rightarrow> string \<Rightarrow> go_error + 'pk" where
  "parse_remote P s =
     ebind (hex_decode s) (\<lambda>b. case pk_parse P b of None \<Rightarrow> Inl ErrPubKey | Some k \<Rightarrow> Inr k)"

definition switch_keys :: "('sk, 'pk) prims \<Rightarrow> 'sk keylib \<Rightarrow> string \<Rightarrow> string \<Rightarrow>
    go_error + 'sk \<times> 'pk option \<times> string option" where
  "switch_keys P K localPrivKey remotePubKey =
     (if localPrivKey = [] \<and> remotePubKey = [] then
        ebind (NewPrivateKey K) (\<lambda>k. Inr (k, None, Some (hex_encode (sk_Serialize K k))))
      else if remotePubKey = [] then
        ebind (parse_local K localPrivKey) (\<lambda>k. Inr (k, None, None))
      else
        ebind (parse_local K localPrivKey) (\<lambda>k.
          ebind (parse_remote P remotePubKey) (\<lambda>r. Inr (k, Some r, None))))"

subsection \<open>Auth data\<close>

text \<open>The text in bytes.\<close>

definition bytes_str :: "bytes \<Rightarrow> string" where
  "bytes_str = map (\<lambda>b. char_of (unat b))"

text \<open>
  The callback for auth data, up to storing the macaroon: \<open>unmarshal\<close> is
  \<^verbatim>\<open>Macaroon.UnmarshalBinary\<close>. The data are a header field whose value is the macaroon in
  hexadecimal text.
\<close>

definition parse_auth_data :: "(bytes \<Rightarrow> string + 'mac) \<Rightarrow> bytes \<Rightarrow> app_error + 'mac" where
  "parse_auth_data unmarshal data =
     (case strings_Split data colon_space of
        [name, val] \<Rightarrow>
          if name \<noteq> str_bytes ''Macaroon'' then Inl NoMacaroonInAuthData
          else (case hex_decode (bytes_str val) of
                  Inl e \<Rightarrow> Inl (LibError e)
                | Inr macBytes \<Rightarrow> (case unmarshal macBytes of Inl e \<Rightarrow> Inl (BadMacaroon e) | Inr mac \<Rightarrow> Inr mac))
      | _ \<Rightarrow> Inl NoMacaroonInAuthData)"

subsection \<open>The mobile client\<close>

text \<open>
  A client; callbacks are interfaces that are nil until they are registered. \<open>statusChecker\<close>
  reads the status of the connection in a world \<open>'w\<close>.
\<close>

record ('mac, 'conn, 'w) mobileClient =
  lndConn :: "'conn option"
  statusChecker :: "('w \<Rightarrow> ClientStatus) option"
  client_mac :: "'mac option"
  localPrivCreateCallback :: "nat option"
  remoteKeyReceiveCallback :: "nat option"
  authDataCallback :: "nat option"

definition newMobileClient :: "('mac, 'conn, 'w) mobileClient" where
  "newMobileClient = \<lparr>lndConn = None, statusChecker = None, client_mac = None,
     localPrivCreateCallback = None, remoteKeyReceiveCallback = None, authDataCallback = None\<rparr>"

text \<open>
  The package's variables, and what was sent to the callbacks. The manager of permissions is
  known by its method \<^verbatim>\<open>URIPermissions\<close>. \<open>insecureSkipVerify\<close> is the setting in the TLS configuration of
  the default HTTP transport.
\<close>

record ('mac, 'conn, 'w) mobile =
  clients :: "string \<rightharpoonup> ('mac, 'conn, 'w) mobileClient"
  permsMgr :: "(string \<rightharpoonup> bakery_op list) option"
  rpc_registry :: "string set"
  interceptorLogsInitialize :: bool
  insecureSkipVerify :: bool
  sent_results :: "(nat \<times> string) list"

definition getClient :: "string \<Rightarrow> ('mac, 'conn, 'w) mobile \<Rightarrow> app_error + ('mac, 'conn, 'w) mobileClient" where
  "getClient nameSpace st = (case clients st nameSpace of None \<Rightarrow> Inl (UnknownNamespace nameSpace) | Some mc \<Rightarrow> Inr mc)"

definition put_client :: "string \<Rightarrow> ('mac, 'conn, 'w) mobileClient \<Rightarrow> ('mac, 'conn, 'w) mobile \<Rightarrow> ('mac, 'conn, 'w) mobile" where
  "put_client nameSpace mc st = st\<lparr>clients := (clients st)(nameSpace \<mapsto> mc)\<rparr>"

text \<open>\<open>SendResult\<close> on a nil callback panics.\<close>

definition SendResult :: "nat option \<Rightarrow> string \<Rightarrow> ('mac, 'conn, 'w) mobile \<Rightarrow> ('mac, 'conn, 'w) mobile option" where
  "SendResult cb json st = map_option (\<lambda>i. st\<lparr>sent_results := sent_results st @ [(i, json)]\<rparr>) cb"

text \<open>\<open>newManager\<close> is the result of \<^verbatim>\<open>perms.NewManager\<close>, which is stored together with the error.\<close>

definition initGlobals :: "(string \<rightharpoonup> bakery_op list) option \<times> go_error option \<Rightarrow> ('mac, 'conn, 'w) mobile \<Rightarrow>
    go_error option \<times> ('mac, 'conn, 'w) mobile" where
  "initGlobals newManager st =
     (if permsMgr st \<noteq> None then (None, st) else (snd newManager, st\<lparr>permsMgr := fst newManager\<rparr>))"

text \<open>
  \<open>logs\<close> is the result of setting up the signals and the loggers, \<open>regs\<close> are the RPC names
  that are registered.
\<close>

definition InitLNC :: "(string \<rightharpoonup> bakery_op list) option \<times> go_error option \<Rightarrow> go_error option \<Rightarrow> string set \<Rightarrow> string \<Rightarrow>
    ('mac, 'conn, 'w) mobile \<Rightarrow> app_error option \<times> ('mac, 'conn, 'w) mobile" where
  "InitLNC newManager logs regs nameSpace st =
     (if nameSpace = [] then (Some NoNamespace, st)
      else case initGlobals newManager st of
        (Some e, st1) \<Rightarrow> (Some (LibError e), st1)
      | (None, st1) \<Rightarrow>
          if interceptorLogsInitialize st1 then (None, put_client nameSpace newMobileClient st1)
          else (case logs of
            Some e \<Rightarrow> (Some (LibError e), st1)
          | None \<Rightarrow> (None, put_client nameSpace newMobileClient
              (st1\<lparr>rpc_registry := rpc_registry st1 \<union> regs, interceptorLogsInitialize := True\<rparr>))))"

definition validateArgs :: "string \<Rightarrow> string \<Rightarrow> string \<Rightarrow> app_error option" where
  "validateArgs mailboxServer localPrivKey remotePubKey =
     (if mailboxServer = [] then Some NeedMailboxServer
      else if remotePubKey \<noteq> [] \<and> localPrivKey = [] then Some RemoteWithoutLocal
      else None)"

definition parseKeys :: "('sk, 'pk) prims \<Rightarrow> 'sk keylib \<Rightarrow> string \<Rightarrow> string \<Rightarrow> string \<Rightarrow> ('mac, 'conn, 'w) mobile \<Rightarrow>
    ((app_error + 'sk \<times> 'pk option) \<times> ('mac, 'conn, 'w) mobile) option" where
  "parseKeys P K nameSpace localPrivKey remotePubKey st =
     (case getClient nameSpace st of
        Inl e \<Rightarrow> Some (Inl (GettingClient e), st)
      | Inr mc \<Rightarrow>
          (case switch_keys P K localPrivKey remotePubKey of
             Inl e \<Rightarrow> Some (Inl (LibError e), st)
           | Inr (k, r, None) \<Rightarrow> Some (Inr (k, r), st)
           | Inr (k, r, Some text) \<Rightarrow>
               map_option (\<lambda>st'. (Inr (k, r), st')) (SendResult (localPrivCreateCallback mc) text st)))"

text \<open>
  \<^verbatim>\<open>ConnectServer\<close> up to the goroutine it starts, and what the goroutine does: it makes the
  connection (\<open>NewClientWebsocketConn\<close>), which calls back when the key and the auth data of
  the peer arrive, and stores the status checker and the connection. The goroutine holds on to
  the client it found; the steps assume that the namespace is not initialised again meanwhile.
\<close>

definition ConnectServer :: "('sk, 'pk) prims \<Rightarrow> 'sk keylib \<Rightarrow> string \<Rightarrow> string \<Rightarrow> bool \<Rightarrow> string \<Rightarrow> string \<Rightarrow> ('mac, 'conn, 'w) mobile \<Rightarrow>
    ((app_error + 'sk \<times> 'pk option) \<times> ('mac, 'conn, 'w) mobile) option" where
  "ConnectServer P K nameSpace mailboxServer isDevServer localKey remoteKey st =
     (case validateArgs mailboxServer localKey remoteKey of
        Some e \<Rightarrow> Some (Inl e, st)
      | None \<Rightarrow>
          (case parseKeys P K nameSpace localKey remoteKey st of
             Some (Inr ks, st1) \<Rightarrow> Some (Inr ks, if isDevServer then st1\<lparr>insecureSkipVerify := True\<rparr> else st1)
           | r \<Rightarrow> r))"

definition mobile_onRemoteStatic :: "('sk, 'pk) prims \<Rightarrow> string \<Rightarrow> 'pk \<Rightarrow> ('mac, 'conn, 'w) mobile \<Rightarrow> ('mac, 'conn, 'w) mobile option" where
  "mobile_onRemoteStatic P nameSpace key st =
     (case clients st nameSpace of
        None \<Rightarrow> Some st
      | Some mc \<Rightarrow> SendResult (remoteKeyReceiveCallback mc) (hex_encode (pk_ser P key)) st)"

definition mobile_onAuthData :: "(bytes \<Rightarrow> string + 'mac) \<Rightarrow> string \<Rightarrow> bytes \<Rightarrow> ('mac, 'conn, 'w) mobile \<Rightarrow>
    (app_error option \<times> ('mac, 'conn, 'w) mobile) option" where
  "mobile_onAuthData unmarshal nameSpace data st =
     (case clients st nameSpace of
        None \<Rightarrow> Some (None, st)
      | Some mc \<Rightarrow>
          (case parse_auth_data unmarshal data of
             Inl e \<Rightarrow> Some (Some e, st)
           | Inr mac \<Rightarrow>
               let st1 = put_client nameSpace (mc\<lparr>client_mac := Some mac\<rparr>) st
               in map_option (\<lambda>st2. (None, st2)) (SendResult (authDataCallback mc) (bytes_str data) st1)))"

definition mobile_started :: "string \<Rightarrow> ('w \<Rightarrow> ClientStatus) \<Rightarrow> ('mac, 'conn, 'w) mobile \<Rightarrow> ('mac, 'conn, 'w) mobile" where
  "mobile_started nameSpace checker st =
     (case clients st nameSpace of None \<Rightarrow> st | Some mc \<Rightarrow> put_client nameSpace (mc\<lparr>statusChecker := Some checker\<rparr>) st)"

text \<open>The goroutine up to the callbacks' registration; \<open>checker\<close> reads the status of the new client.\<close>

definition mobile_goroutine :: "('sk, 'pk) prims \<Rightarrow> 'r bstream \<Rightarrow> (bytes \<Rightarrow> nat) \<Rightarrow> string \<Rightarrow> string \<Rightarrow> bytes \<Rightarrow> 'sk \<Rightarrow> 'pk option \<Rightarrow>
    ('pk option \<Rightarrow> go_error option) \<Rightarrow> (bytes \<Rightarrow> go_error option) \<Rightarrow>
    (('sk, 'pk) Client \<times> ('sk, 'pk, 'c) NoiseGrpcConn \<Rightarrow> 'w \<Rightarrow> ClientStatus) \<Rightarrow> ('mac, 'conn, 'w) mobile \<Rightarrow>
    (app_error + ('sk, 'pk) Client \<times> ('sk, 'pk, 'c) NoiseGrpcConn) \<times> ('mac, 'conn, 'w) mobile" where
  "mobile_goroutine P B index nameSpace mailboxServer pairingPhrase localPriv remotePub onR onA checker st =
     (case getClient nameSpace st of
        Inl e \<Rightarrow> (Inl e, st)
      | Inr mc \<Rightarrow>
          (case NewClientWebsocketConn P B index mailboxServer pairingPhrase localPriv remotePub (Some onR) (Some onA) of
             Inl e \<Rightarrow> (Inl (LibError e), st)
           | Inr cg \<Rightarrow> (Inr cg, mobile_started nameSpace (checker cg) st)))"

definition mobile_connected :: "string \<Rightarrow> go_error + 'conn \<Rightarrow> ('mac, 'conn, 'w) mobile \<Rightarrow> ('mac, 'conn, 'w) mobile" where
  "mobile_connected nameSpace lndConn' st =
     (case (lndConn', clients st nameSpace) of
        (Inr conn, Some mc) \<Rightarrow> put_client nameSpace (mc\<lparr>lndConn := Some conn\<rparr>) st
      | _ \<Rightarrow> st)"

text \<open>A call that starts with \<^verbatim>\<open>getClient\<close>.\<close>

definition with_client :: "string \<Rightarrow> (('mac, 'conn, 'w) mobileClient \<Rightarrow> app_error + 'a) \<Rightarrow> ('mac, 'conn, 'w) mobile \<Rightarrow> app_error + 'a" where
  "with_client nameSpace f st = (case getClient nameSpace st of Inl e \<Rightarrow> Inl (GettingClient e) | Inr mc \<Rightarrow> f mc)"

definition update_client :: "string \<Rightarrow> (('mac, 'conn, 'w) mobileClient \<Rightarrow> ('mac, 'conn, 'w) mobileClient) \<Rightarrow> ('mac, 'conn, 'w) mobile \<Rightarrow>
    app_error option \<times> ('mac, 'conn, 'w) mobile" where
  "update_client nameSpace f st =
     (case getClient nameSpace st of Inl e \<Rightarrow> (Some (GettingClient e), st) | Inr mc \<Rightarrow> (None, put_client nameSpace (f mc) st))"

definition IsConnected :: "string \<Rightarrow> ('mac, 'conn, 'w) mobile \<Rightarrow> app_error + bool" where
  "IsConnected nameSpace = with_client nameSpace (\<lambda>mc. Inr (lndConn mc \<noteq> None))"

definition Disconnect :: "string \<Rightarrow> ('mac, 'conn, 'w) mobile \<Rightarrow> app_error option \<times> ('mac, 'conn, 'w) mobile" where
  "Disconnect nameSpace = update_client nameSpace (\<lambda>mc. mc\<lparr>lndConn := None\<rparr>)"

definition Status :: "'w \<Rightarrow> string \<Rightarrow> ('mac, 'conn, 'w) mobile \<Rightarrow> app_error + ClientStatus option" where
  "Status w nameSpace = with_client nameSpace (\<lambda>mc. Inr (map_option (\<lambda>f. f w) (statusChecker mc)))"

definition RegisterLocalPrivCreateCallback :: "string \<Rightarrow> nat \<Rightarrow> ('mac, 'conn, 'w) mobile \<Rightarrow> app_error option \<times> ('mac, 'conn, 'w) mobile" where
  "RegisterLocalPrivCreateCallback nameSpace c = update_client nameSpace (\<lambda>mc. mc\<lparr>localPrivCreateCallback := Some c\<rparr>)"

definition RegisterRemoteKeyReceiveCallback :: "string \<Rightarrow> nat \<Rightarrow> ('mac, 'conn, 'w) mobile \<Rightarrow> app_error option \<times> ('mac, 'conn, 'w) mobile" where
  "RegisterRemoteKeyReceiveCallback nameSpace c = update_client nameSpace (\<lambda>mc. mc\<lparr>remoteKeyReceiveCallback := Some c\<rparr>)"

definition RegisterAuthDataCallback :: "string \<Rightarrow> nat \<Rightarrow> ('mac, 'conn, 'w) mobile \<Rightarrow> app_error option \<times> ('mac, 'conn, 'w) mobile" where
  "RegisterAuthDataCallback nameSpace c = update_client nameSpace (\<lambda>mc. mc\<lparr>authDataCallback := Some c\<rparr>)"

text \<open>The connection on which the RPC is called.\<close>

definition InvokeRPC :: "string \<Rightarrow> string \<Rightarrow> string \<Rightarrow> ('mac, 'conn, 'w) mobile \<Rightarrow> app_error + 'conn" where
  "InvokeRPC nameSpace rpcName requestJSON st = with_client nameSpace (\<lambda>mc.
     if rpcName = [] then Inl NeedRpcName
     else if requestJSON = [] then Inl NeedRequest
     else case lndConn mc of
       None \<Rightarrow> Inl NotReady
     | Some conn \<Rightarrow> if rpcName \<notin> rpc_registry st then Inl (RpcNotFound rpcName) else Inr conn) st"

text \<open>
  The answers about the macaroon: \<open>mac_Id\<close> is its id, \<open>expiry\<close> the Unix time of
  \<^verbatim>\<open>checkers.ExpiryTime\<close>. Errors of decoding are logged and answered with false.
\<close>

definition mac_IsReadOnly :: "u8 \<Rightarrow> (bytes \<Rightarrow> string + mac_op list) \<Rightarrow> ('mac \<Rightarrow> bytes) \<Rightarrow> 'mac option \<Rightarrow> bool option" where
  "mac_IsReadOnly latest unmarshal mac_Id m =
     (case m of
        None \<Rightarrow> Some False
      | Some mac \<Rightarrow>
          map_option (\<lambda>r. case r of Inl e \<Rightarrow> False | Inr ops \<Rightarrow> isReadOnly ops)
            (extractMacaroonOps latest unmarshal (mac_Id mac)))"

definition mac_IsCustom :: "u8 \<Rightarrow> (bytes \<Rightarrow> string + mac_op list) \<Rightarrow> ('mac \<Rightarrow> bytes) \<Rightarrow> 'mac option \<Rightarrow> bool option" where
  "mac_IsCustom latest unmarshal mac_Id m =
     (case m of
        None \<Rightarrow> Some False
      | Some mac \<Rightarrow>
          map_option (\<lambda>r. case r of Inl e \<Rightarrow> False | Inr ops \<Rightarrow> isCustom ops)
            (extractMacaroonOps latest unmarshal (mac_Id mac)))"

text \<open>\<open>perms\<close> is \<^verbatim>\<open>permsMgr.URIPermissions\<close>, \<open>check\<close> the \<^verbatim>\<open>hasPermissions\<close> of the client.\<close>

definition mac_HasPermissions :: "(string \<Rightarrow> mac_op list \<Rightarrow> bakery_op list \<Rightarrow> bool) \<Rightarrow> (string \<rightharpoonup> bakery_op list) \<Rightarrow> u8 \<Rightarrow>
    (bytes \<Rightarrow> string + mac_op list) \<Rightarrow> ('mac \<Rightarrow> bytes) \<Rightarrow> 'mac option \<Rightarrow> string \<Rightarrow> bool option" where
  "mac_HasPermissions check perms latest unmarshal mac_Id m permission =
     (case m of
        None \<Rightarrow> Some False
      | Some mac \<Rightarrow>
          let uri = cb_to_uri permission in
          (case perms uri of
             None \<Rightarrow> Some False
           | Some ops \<Rightarrow>
               map_option (\<lambda>r. case r of Inl e \<Rightarrow> False | Inr macOps \<Rightarrow> check uri macOps ops)
                 (extractMacaroonOps latest unmarshal (mac_Id mac))))"

definition mobile_IsReadOnly :: "u8 \<Rightarrow> (bytes \<Rightarrow> string + mac_op list) \<Rightarrow> ('mac \<Rightarrow> bytes) \<Rightarrow> string \<Rightarrow>
    ('mac, 'conn, 'w) mobile \<Rightarrow> (app_error + bool) option" where
  "mobile_IsReadOnly latest unmarshal mac_Id nameSpace st =
     (case getClient nameSpace st of
        Inl e \<Rightarrow> Some (Inl (GettingClient e))
      | Inr mc \<Rightarrow> map_option Inr (mac_IsReadOnly latest unmarshal mac_Id (client_mac mc)))"

definition mobile_HasPermissions :: "u8 \<Rightarrow> (bytes \<Rightarrow> string + mac_op list) \<Rightarrow> ('mac \<Rightarrow> bytes) \<Rightarrow>
    string \<Rightarrow> string \<Rightarrow> ('mac, 'conn, 'w) mobile \<Rightarrow> (app_error + bool) option" where
  "mobile_HasPermissions latest unmarshal mac_Id nameSpace permission st =
     (case getClient nameSpace st of
        Inl e \<Rightarrow> Some (Inl (GettingClient e))
      | Inr mc \<Rightarrow>
          if permission = [] then Some (Inr False)
          else (case (client_mac mc, permsMgr st) of
             (None, _) \<Rightarrow> Some (Inr False)
           | (Some mac, None) \<Rightarrow> None
           | (Some mac, Some perms) \<Rightarrow> map_option Inr
               (mac_HasPermissions (\<lambda>uri. hasPermissions) perms latest unmarshal mac_Id (Some mac) permission)))"

text \<open>
  \<^verbatim>\<open>string(rune(n))\<close>: the low 32 bits as a code point in UTF-8, the replacement character when
  they are no code point.
\<close>

definition rune :: "int \<Rightarrow> int" where
  "rune n = (n + 2 ^ 31) mod 2 ^ 32 - 2 ^ 31"

definition utf8 :: "int \<Rightarrow> bytes" where
  "utf8 n =
     (let r = rune n; c = (if r < 0 \<or> 0x10FFFF < r \<or> 0xD800 \<le> r \<and> r \<le> 0xDFFF then 0xFFFD else r) in
      if c < 0x80 then [of_int c]
      else if c < 0x800 then [of_int (0xC0 + c div 64), of_int (0x80 + c mod 64)]
      else if c < 0x10000 then [of_int (0xE0 + c div 4096), of_int (0x80 + c div 64 mod 64), of_int (0x80 + c mod 64)]
      else [of_int (0xF0 + c div 262144), of_int (0x80 + c div 4096 mod 64), of_int (0x80 + c div 64 mod 64),
            of_int (0x80 + c mod 64)])"

definition mobile_GetExpiry :: "('mac \<Rightarrow> int option) \<Rightarrow> string \<Rightarrow> ('mac, 'conn, 'w) mobile \<Rightarrow> app_error + bytes" where
  "mobile_GetExpiry expiry nameSpace = with_client nameSpace (\<lambda>mc.
     case client_mac mc of
       None \<Rightarrow> Inl NoMacaroonYet
     | Some mac \<Rightarrow> (case expiry mac of None \<Rightarrow> Inl NoExpiry | Some t \<Rightarrow> Inr (utf8 t)))"

subsection \<open>The WebAssembly client\<close>

record wasm_config =
  wc_DebugLevel :: string
  wc_NameSpace :: string
  wc_OnLocalPrivCreate :: string
  wc_OnRemoteKeyReceive :: string
  wc_OnAuthData :: string

record ('mac, 'conn, 'w) wasmClient =
  wasm_cfg :: wasm_config
  wasm_lndConn :: "'conn option"
  wasm_statusChecker :: "('w \<Rightarrow> ClientStatus) option"
  wasm_mac :: "'mac option"
  wasm_registry :: "string set"

definition newWasmClient :: "wasm_config \<Rightarrow> app_error + ('mac, 'conn, 'w) wasmClient" where
  "newWasmClient conf =
     (if wc_NameSpace conf = [] then Inl NoNamespace
      else Inr \<lparr>wasm_cfg = conf, wasm_lndConn = None, wasm_statusChecker = None, wasm_mac = None,
                wasm_registry = {}\<rparr>)"

definition wasm_validateArgs :: "wasm_config \<Rightarrow> string \<Rightarrow> string \<Rightarrow> app_error option" where
  "wasm_validateArgs conf localPrivKey remotePubKey =
     (if remotePubKey \<noteq> [] \<and> localPrivKey = [] then Some RemoteWithoutLocal
      else if localPrivKey = [] \<and> wc_OnLocalPrivCreate conf = [] then Some NeedOnLocalPrivCreate
      else if remotePubKey = [] \<and> wc_OnRemoteKeyReceive conf = [] then Some NeedOnRemoteKeyReceive
      else None)"

text \<open>
  A JavaScript function is called by its name, in an object when the name has two parts; \<open>js\<close>
  is what the call returns, an error text or nothing. The calls are recorded with the scope,
  the name and the argument.
\<close>

type_synonym js_call = "string option \<times> string \<times> string"
type_synonym js_env = "string option \<Rightarrow> string \<Rightarrow> string \<Rightarrow> string option"

fun split_dots :: "string \<Rightarrow> string \<Rightarrow> string list" where
  "split_dots acc [] = [acc]"
| "split_dots acc (c # cs) = (if c = CHR ''.'' then acc # split_dots [] cs else split_dots (acc @ [c]) cs)"

definition callJsCallback :: "js_env \<Rightarrow> string \<Rightarrow> string \<Rightarrow> app_error option \<times> js_call list" where
  "callJsCallback js callbackName val =
     (let (scope, name) = (case split_dots [] callbackName of a # b # _ \<Rightarrow> (Some a, b) | _ \<Rightarrow> (None, callbackName))
      in (map_option JsError (js scope name val), [(scope, name, val)]))"

definition wasm_parseKeys :: "('sk, 'pk) prims \<Rightarrow> 'sk keylib \<Rightarrow> js_env \<Rightarrow> string \<Rightarrow> string \<Rightarrow> string \<Rightarrow>
    (app_error + 'sk \<times> 'pk option) \<times> js_call list" where
  "wasm_parseKeys P K js onLocalPrivCreate localPrivKey remotePubKey =
     (case switch_keys P K localPrivKey remotePubKey of
        Inl e \<Rightarrow> (Inl (LibError e), [])
      | Inr (k, r, None) \<Rightarrow> (Inr (k, r), [])
      | Inr (k, r, Some text) \<Rightarrow>
          (case callJsCallback js onLocalPrivCreate text of
             (Some e, calls) \<Rightarrow> (Inl e, calls)
           | (None, calls) \<Rightarrow> (Inr (k, r), calls)))"

text \<open>An error of the arguments or the keys ends the program (\<open>Inr\<close> of an error).\<close>

definition wasm_ConnectServer :: "('sk, 'pk) prims \<Rightarrow> 'sk keylib \<Rightarrow> js_env \<Rightarrow>
    ('mac, 'conn, 'w) wasmClient \<Rightarrow> string list \<Rightarrow> app_error + (app_error + 'sk \<times> 'pk option) \<times> js_call list" where
  "wasm_ConnectServer P K js w args =
     (case args of
        [mailboxServer, isDevServer, pairingPhrase, localKey, remoteKey] \<Rightarrow>
          Inr (case wasm_validateArgs (wasm_cfg w) localKey remoteKey of
                 Some e \<Rightarrow> (Inl e, [])
               | None \<Rightarrow> wasm_parseKeys P K js (wc_OnLocalPrivCreate (wasm_cfg w)) localKey remoteKey)
      | _ \<Rightarrow> Inl NeedParameters)"

definition wasm_onRemoteStatic :: "('sk, 'pk) prims \<Rightarrow> js_env \<Rightarrow> ('mac, 'conn, 'w) wasmClient \<Rightarrow> 'pk \<Rightarrow>
    app_error option \<times> js_call list" where
  "wasm_onRemoteStatic P js w key = callJsCallback js (wc_OnRemoteKeyReceive (wasm_cfg w)) (hex_encode (pk_ser P key))"

definition wasm_onAuthData :: "(bytes \<Rightarrow> string + 'mac) \<Rightarrow> js_env \<Rightarrow> bytes \<Rightarrow> ('mac, 'conn, 'w) wasmClient \<Rightarrow>
    app_error option \<times> ('mac, 'conn, 'w) wasmClient \<times> js_call list" where
  "wasm_onAuthData unmarshal js data w =
     (case parse_auth_data unmarshal data of
        Inl e \<Rightarrow> (Some e, w, [])
      | Inr mac \<Rightarrow>
          (case callJsCallback js (wc_OnAuthData (wasm_cfg w)) (bytes_str data) of
             (e, calls) \<Rightarrow> (e, w\<lparr>wasm_mac := Some mac\<rparr>, calls)))"

definition wasm_started :: "('w \<Rightarrow> ClientStatus) \<Rightarrow> ('mac, 'conn, 'w) wasmClient \<Rightarrow> ('mac, 'conn, 'w) wasmClient" where
  "wasm_started checker w = w\<lparr>wasm_statusChecker := Some checker\<rparr>"

text \<open>The goroutine of \<^verbatim>\<open>ConnectServer\<close>; an error ends the program (\<open>Inl\<close>).\<close>

definition wasm_goroutine :: "('sk, 'pk) prims \<Rightarrow> 'r bstream \<Rightarrow> (bytes \<Rightarrow> nat) \<Rightarrow> string \<Rightarrow> bytes \<Rightarrow> 'sk \<Rightarrow> 'pk option \<Rightarrow>
    ('pk option \<Rightarrow> go_error option) \<Rightarrow> (bytes \<Rightarrow> go_error option) \<Rightarrow>
    (('sk, 'pk) Client \<times> ('sk, 'pk, 'c) NoiseGrpcConn \<Rightarrow> 'w \<Rightarrow> ClientStatus) \<Rightarrow> ('mac, 'conn, 'w) wasmClient \<Rightarrow>
    app_error + (('sk, 'pk) Client \<times> ('sk, 'pk, 'c) NoiseGrpcConn) \<times> ('mac, 'conn, 'w) wasmClient" where
  "wasm_goroutine P B index mailboxServer pairingPhrase localPriv remotePub onR onA checker w =
     (case NewClientWebsocketConn P B index mailboxServer pairingPhrase localPriv remotePub (Some onR) (Some onA) of
        Inl e \<Rightarrow> Inl (LibError e)
      | Inr cg \<Rightarrow> Inr (cg, wasm_started (checker cg) w))"

definition wasm_connected :: "go_error + 'conn \<Rightarrow> ('mac, 'conn, 'w) wasmClient \<Rightarrow> app_error + ('mac, 'conn, 'w) wasmClient" where
  "wasm_connected lndConn' w =
     (case lndConn' of Inl e \<Rightarrow> Inl (LibError e) | Inr conn \<Rightarrow> Inr (w\<lparr>wasm_lndConn := Some conn\<rparr>))"

text \<open>The loop over \<^verbatim>\<open>litrpc.Registrations\<close> in \<^verbatim>\<open>main\<close>; \<open>regs\<close> are the names of one registration.\<close>

definition wasm_register :: "string set list \<Rightarrow> ('mac, 'conn, 'w) wasmClient \<Rightarrow> ('mac, 'conn, 'w) wasmClient" where
  "wasm_register regs w = foldl (\<lambda>w r. w\<lparr>wasm_registry := wasm_registry w \<union> r\<rparr>) w regs"

text \<open>
  The start of the program. \<open>subs\<close> are the registrations of the sub-servers with the manager of
  permissions; \<open>scope\<close> is the global JavaScript object, in which the object of the namespace may
  exist already, and \<open>funcs\<close> are the ten functions of the client.
\<close>

definition wasm_initGlobals :: "(string \<rightharpoonup> bakery_op list) option \<Rightarrow> go_error + (string \<rightharpoonup> bakery_op list) \<Rightarrow>
    ((string \<rightharpoonup> bakery_op list) \<Rightarrow> (string \<rightharpoonup> bakery_op list)) list \<Rightarrow> go_error + (string \<rightharpoonup> bakery_op list)" where
  "wasm_initGlobals mgr newManager subs =
     (case mgr of
        Some p \<Rightarrow> Inr p
      | None \<Rightarrow> ebind newManager (\<lambda>p. Inr (foldl (\<lambda>p sub. sub p) p subs)))"

definition callback_names :: "string list" where
  "callback_names = [''wasmClientIsReady'', ''wasmClientConnectServer'', ''wasmClientIsConnected'', ''wasmClientDisconnect'',
     ''wasmClientInvokeRPC'', ''wasmClientStatus'', ''wasmClientGetExpiry'', ''wasmClientHasPerms'', ''wasmClientIsReadOnly'',
     ''wasmClientIsCustom'']"

definition set_callbacks :: "(string \<rightharpoonup> 'f) option \<Rightarrow> (string \<rightharpoonup> 'f) \<Rightarrow> (string \<rightharpoonup> 'f)" where
  "set_callbacks nsObj callbacks = (case nsObj of Some obj \<Rightarrow> obj ++ callbacks | None \<Rightarrow> callbacks)"

definition wasm_main :: "go_error + (string \<rightharpoonup> bakery_op list) \<Rightarrow> ((string \<rightharpoonup> bakery_op list) \<Rightarrow> (string \<rightharpoonup> bakery_op list)) list \<Rightarrow>
    go_error + wasm_config \<Rightarrow> go_error option \<Rightarrow> (string \<Rightarrow> go_error option) \<Rightarrow> string set list \<Rightarrow> 'f list \<Rightarrow>
    (string \<rightharpoonup> string \<rightharpoonup> 'f) \<Rightarrow>
    app_error + ('mac, 'conn, 'w) wasmClient \<times> (string \<rightharpoonup> bakery_op list) \<times> (string \<rightharpoonup> string \<rightharpoonup> 'f)" where
  "wasm_main newManager subs parsed intercept setLevels regs funcs scope =
     (case wasm_initGlobals None newManager subs of
        Inl e \<Rightarrow> Inl (LibError e)
      | Inr perms \<Rightarrow>
     (case parsed of
        Inl e \<Rightarrow> Inl (LibError e)
      | Inr conf \<Rightarrow>
     (case intercept of
        Some e \<Rightarrow> Inl (LibError e)
      | None \<Rightarrow>
     (case setLevels (wc_DebugLevel conf) of
        Some e \<Rightarrow> Inl (LibError e)
      | None \<Rightarrow>
     (case newWasmClient conf of
        Inl e \<Rightarrow> Inl e
      | Inr w \<Rightarrow> Inr (wasm_register regs w, perms,
          scope(wc_NameSpace conf \<mapsto>
            set_callbacks (scope (wc_NameSpace conf)) (map_of (zip callback_names funcs)))))))))"

definition wasm_IsReady :: bool where
  "wasm_IsReady = True"

definition wasm_IsConnected :: "('mac, 'conn, 'w) wasmClient \<Rightarrow> bool" where
  "wasm_IsConnected w = (wasm_lndConn w \<noteq> None)"

definition wasm_Disconnect :: "('mac, 'conn, 'w) wasmClient \<Rightarrow> ('mac, 'conn, 'w) wasmClient" where
  "wasm_Disconnect w = w\<lparr>wasm_lndConn := None\<rparr>"

definition wasm_Status :: "'w \<Rightarrow> ('mac, 'conn, 'w) wasmClient \<Rightarrow> ClientStatus option" where
  "wasm_Status s w = map_option (\<lambda>f. f s) (wasm_statusChecker w)"

definition wasm_InvokeRPC :: "('mac, 'conn, 'w) wasmClient \<Rightarrow> string list \<Rightarrow> app_error + 'conn" where
  "wasm_InvokeRPC w args =
     (case args of
        [rpcName, requestJSON, callback] \<Rightarrow>
          (case wasm_lndConn w of
             None \<Rightarrow> Inl NotReady
           | Some conn \<Rightarrow> if rpcName \<notin> wasm_registry w then Inl (RpcNotFound rpcName) else Inr conn)
      | _ \<Rightarrow> Inl NeedParameters)"

definition wasm_GetExpiry :: "('mac \<Rightarrow> int option) \<Rightarrow> ('mac, 'conn, 'w) wasmClient \<Rightarrow> int option" where
  "wasm_GetExpiry expiry w = Option.bind (wasm_mac w) expiry"

definition wasm_IsReadOnly :: "u8 \<Rightarrow> (bytes \<Rightarrow> string + mac_op list) \<Rightarrow> ('mac \<Rightarrow> bytes) \<Rightarrow> ('mac, 'conn, 'w) wasmClient \<Rightarrow> bool option" where
  "wasm_IsReadOnly latest unmarshal mac_Id w = mac_IsReadOnly latest unmarshal mac_Id (wasm_mac w)"

definition wasm_IsCustom :: "u8 \<Rightarrow> (bytes \<Rightarrow> string + mac_op list) \<Rightarrow> ('mac \<Rightarrow> bytes) \<Rightarrow> ('mac, 'conn, 'w) wasmClient \<Rightarrow> bool option" where
  "wasm_IsCustom latest unmarshal mac_Id w = mac_IsCustom latest unmarshal mac_Id (wasm_mac w)"

definition wasm_HasPermissions :: "(string \<rightharpoonup> bakery_op list) \<Rightarrow> u8 \<Rightarrow> (bytes \<Rightarrow> string + mac_op list) \<Rightarrow> ('mac \<Rightarrow> bytes) \<Rightarrow>
    ('mac, 'conn, 'w) wasmClient \<Rightarrow> string list \<Rightarrow> bool option" where
  "wasm_HasPermissions perms latest unmarshal mac_Id w args =
     (case args of
        [permission] \<Rightarrow>
          mac_HasPermissions wasm_hasPermissions perms latest unmarshal mac_Id (wasm_mac w) permission
      | _ \<Rightarrow> Some False)"

subsection \<open>Keys that were handed out are accepted again\<close>

text \<open>What the clients rely on of \<^verbatim>\<open>btcec\<close>: a private key is 32 bytes, from which it is read back.\<close>

definition keylib_ok :: "'sk keylib \<Rightarrow> bool" where
  "keylib_ok K \<longleftrightarrow> (\<forall>k. PrivKeyFromBytes K (sk_Serialize K k) = k \<and> length (sk_Serialize K k) = 32)"

lemma hex_encode_Nil: "hex_encode bs = [] \<longleftrightarrow> bs = []"
  by (cases bs) (simp_all add: hex_encode_def hex_byte_def)

lemma parse_local_text: "keylib_ok K \<Longrightarrow> parse_local K (hex_encode (sk_Serialize K k)) = Inr k"
  by (simp add: parse_local_def hex_roundtrip ebind_def keylib_ok_def)

lemma parse_remote_text: "prims_ok P \<Longrightarrow> parse_remote P (hex_encode (pk_ser P p)) = Inr p"
  by (simp add: parse_remote_def hex_roundtrip ebind_def prims_okD(5))

lemma key_texts:
  shows "keylib_ok K \<Longrightarrow> hex_encode (sk_Serialize K k) \<noteq> []" and "prims_ok P \<Longrightarrow> hex_encode (pk_ser P p) \<noteq> []"
proof -
  assume "keylib_ok K"
  then have "length (sk_Serialize K k) = 32" by (simp add: keylib_ok_def)
  then show "hex_encode (sk_Serialize K k) \<noteq> []" by (auto simp: hex_encode_Nil)
next
  assume "prims_ok P"
  from prims_okD(6) [OF this, of p] show "hex_encode (pk_ser P p) \<noteq> []" by (auto simp: hex_encode_Nil)
qed

lemma switch_keys_texts:
  assumes "prims_ok P" "keylib_ok K"
  shows "switch_keys P K (hex_encode (sk_Serialize K k)) (hex_encode (pk_ser P p)) = Inr (k, Some p, None)"
  using key_texts(1) [OF assms(2)] key_texts(2) [OF assms(1)] assms by (simp add: switch_keys_def parse_local_text parse_remote_text ebind_def)

lemma connect_first:
  assumes "ConnectServer P K ns srv dev [] [] st = Some (Inr (k, r), st1)"
  shows "r = None \<and> (\<exists>i. sent_results st1 = sent_results st @ [(i, hex_encode (sk_Serialize K k))])"
  using assms
  by (auto simp: ConnectServer_def parseKeys_def switch_keys_def ebind_def SendResult_def
      split: option.splits sum.splits if_splits)

text \<open>
  C23: the keys that the application is told to store bring the session back. A first
  connection without keys makes a new private key and passes its text to the application; the
  peer's key is passed on as text when it arrives. Both clients accept the two texts later, in
  any state and for any namespace that exists, and get the same two keys from them, so that the
  next handshake is the one between known keys.
\<close>

theorem stored_keys_reconnect:
  assumes "prims_ok P" and "keylib_ok K"
    and "ConnectServer P K ns srv dev [] [] st = Some (Inr (k, r), st1)"
    and "mobile_onRemoteStatic P ns key st2 = Some st3" and "clients st2 ns = Some mc"
    and "clients st4 ns' = Some mc'" and "srv' \<noteq> []"
  shows "r = None \<and> (\<exists>i j localText remoteText.
    sent_results st1 = sent_results st @ [(i, localText)] \<and> sent_results st3 = sent_results st2 @ [(j, remoteText)] \<and>
    ConnectServer P K ns' srv' False localText remoteText st4 = Some (Inr (k, Some key), st4) \<and>
    wasm_parseKeys P K js cb localText remoteText = (Inr (k, Some key), []) \<and>
    ConnData_HandshakePattern (NewConnData k (Some key) pw auth onR onA) = KKPattern)"
proof -
  let ?l = "hex_encode (sk_Serialize K k)" and ?r = "hex_encode (pk_ser P key)"
  obtain i where i: "r = None" "sent_results st1 = sent_results st @ [(i, ?l)]"
    using connect_first [OF assms(3)] by blast
  obtain j where j: "sent_results st3 = sent_results st2 @ [(j, ?r)]"
    using assms(4,5) by (auto simp: mobile_onRemoteStatic_def SendResult_def)
  have s: "switch_keys P K ?l ?r = Inr (k, Some key, None)" by (rule switch_keys_texts [OF assms(1,2)])
  have c: "ConnectServer P K ns' srv' False ?l ?r st4 = Some (Inr (k, Some key), st4)"
    using s assms(6,7) key_texts(1) [OF assms(2)]
    by (simp add: ConnectServer_def validateArgs_def parseKeys_def getClient_def)
  have w: "wasm_parseKeys P K js cb ?l ?r = (Inr (k, Some key), [])" using s by (simp add: wasm_parseKeys_def)
  have h: "ConnData_HandshakePattern (NewConnData k (Some key) pw auth onR onA) = KKPattern"
    by (simp add: ConnData_HandshakePattern_def NewConnData_def)
  show ?thesis using i j c w h by blast
qed

definition example_keylib :: "u8 keylib" where
  "example_keylib = \<lparr>NewPrivateKey = Inr 5, sk_Serialize = (\<lambda>k. k # replicate 31 0), PrivKeyFromBytes = (\<lambda>b. b ! 0)\<rparr>"

lemma example_keylib_ok: "keylib_ok example_keylib"
  by (simp add: keylib_ok_def example_keylib_def)

definition example_mobile :: "(u8, nat, nat) mobile" where
  "example_mobile = \<lparr>clients = [''ns'' \<mapsto> newMobileClient\<lparr>localPrivCreateCallback := Some 0, remoteKeyReceiveCallback := Some 1,
     authDataCallback := Some 2, client_mac := Some 7\<rparr>],
     permsMgr = Some [''/r.L/Get'' \<mapsto> [\<lparr>b_Entity = ''info'', b_Action = ''write''\<rparr>]], rpc_registry = {}, interceptorLogsInitialize = True, insecureSkipVerify = False, sent_results = []\<rparr>"

theorem stored_keys_reconnect_witness:
  "\<exists>localText remoteText i j st1 st3.
     ConnectServer example_prims example_keylib ''ns'' ''srv'' True [] [] example_mobile = Some (Inr (5, None), st1) \<and>
     sent_results st1 = [(i, localText)] \<and>
     mobile_onRemoteStatic example_prims ''ns'' 9 example_mobile = Some st3 \<and> sent_results st3 = [(j, remoteText)] \<and>
     ConnectServer example_prims example_keylib ''ns'' ''srv'' False localText remoteText example_mobile =
       Some (Inr (5, Some 9), example_mobile)"
proof -
  obtain st1 where 1: "ConnectServer example_prims example_keylib ''ns'' ''srv'' True [] [] example_mobile = Some (Inr (5, None), st1)"
    by (simp add: ConnectServer_def validateArgs_def parseKeys_def getClient_def example_mobile_def switch_keys_def
        example_keylib_def ebind_def SendResult_def)
  obtain st3 where 3: "mobile_onRemoteStatic example_prims ''ns'' 9 example_mobile = Some st3"
    by (simp add: mobile_onRemoteStatic_def example_mobile_def SendResult_def)
  have c: "clients example_mobile ''ns'' = Some (the (clients example_mobile ''ns''))" by (simp add: example_mobile_def)
  have e: "sent_results example_mobile = []" by (simp add: example_mobile_def)
  from stored_keys_reconnect [OF example_prims_ok example_keylib_ok 1 3 c c, of "''srv''"] 1 3 e show ?thesis
    by fastforce
qed

subsection \<open>Auth data\<close>

lemma split_from_ne: "split_from sep acc s \<noteq> []"
  by (induction sep acc s rule: split_from.induct) auto

lemma split_from_one: "split_from sep acc s = [x] \<Longrightarrow> x = acc @ s"
  by (induction sep acc s rule: split_from.induct) (auto simp: split_from_ne split: if_splits)

lemma split_from_two: "split_from sep acc s = [x, y] \<Longrightarrow> acc @ s = x @ sep @ y"
proof (induction sep acc s rule: split_from.induct)
  case (2 sep acc a s)
  show ?case
  proof (cases "sep \<noteq> [] \<and> prefix sep (a # s)")
    case True
    then have y: "split_from sep [] (drop (length sep) (a # s)) = [y]" and x: "x = acc" using "2.prems" by auto
    from split_from_one [OF y] True x show ?thesis by (auto simp: prefix_def)
  next
    case False
    then have "split_from sep (acc @ [a]) s = [x, y]" using "2.prems" by auto
    with "2.IH"(2) [OF False] show ?thesis by simp
  qed
qed simp

lemma split_no_sep: "c \<notin> set s \<Longrightarrow> split_from [c, d] acc s = [acc @ s]"
  by (induction s arbitrary: acc) (auto simp: prefix_Cons)

lemma hex_decode_bad: "hex_val c = None \<Longrightarrow> c \<in> set s \<Longrightarrow> hex_decode s \<noteq> Inr bs"
proof (induction s arbitrary: bs rule: hex_decode.induct)
  case (3 a b r)
  show ?case
  proof (cases "hex_val a = None \<or> hex_val b = None")
    case True
    then show ?thesis by (auto split: option.splits)
  next
    case False
    then obtain x y where xy: "hex_val a = Some x" "hex_val b = Some y" by auto
    then have "c \<in> set r" using 3 by auto
    then have "hex_decode r \<noteq> Inr z" for z using "3.IH" xy "3.prems"(1) by blast
    then show ?thesis using xy by (cases "hex_decode r") (auto simp: ebind_def)
  qed
qed auto

lemma hex_no_cr: "hex_decode (bytes_str v) = Inr bs \<Longrightarrow> 13 \<notin> set v"
proof
  assume "hex_decode (bytes_str v) = Inr bs" "13 \<in> set v"
  moreover from this(2) have "char_of (unat (13 :: u8)) \<in> set (bytes_str v)" unfolding bytes_str_def by force
  moreover have "hex_val (char_of (unat (13 :: u8))) = None" by code_simp
  ultimately show False using hex_decode_bad by blast
qed

lemma parse_auth_dataD:
  assumes "parse_auth_data unmarshal data = Inr mac"
  obtains val macBytes where "data = str_bytes ''Macaroon'' @ colon_space @ val" and
    "strings_Split data colon_space = [str_bytes ''Macaroon'', val]" and
    "hex_decode (bytes_str val) = Inr macBytes" and "unmarshal macBytes = Inr mac"
proof -
  from assms obtain name val macBytes where s: "strings_Split data colon_space = [name, val]" and
    n: "name = str_bytes ''Macaroon''" and "hex_decode (bytes_str val) = Inr macBytes" "unmarshal macBytes = Inr mac"
    by (auto simp: parse_auth_data_def split: list.splits if_splits sum.splits)
  moreover have "data = name @ colon_space @ val"
    using split_from_two [OF s [unfolded strings_Split_def]] by simp
  ultimately show ?thesis using that by simp
qed

text \<open>
  C24: auth data that a client accepts become the credentials of its calls. When the callback
  for auth data of the mobile or of the WebAssembly client stores a macaroon, the metadata of
  every RPC on a connection with these auth data is the one field \<^verbatim>\<open>Macaroon\<close>, and its value
  decodes to exactly the bytes of the macaroon that was stored.
\<close>

theorem auth_data_metadata:
  assumes "parse_auth_data unmarshal data = Inr mac" and "cd_authData (g_connData g) = Some data"
  shows "(\<exists>val macBytes. GetRequestMetadata g = [str_bytes ''Macaroon'' \<mapsto> val] \<and>
      hex_decode (bytes_str val) = Inr macBytes \<and> unmarshal macBytes = Inr mac) \<and>
    wasm_mac (fst (snd (wasm_onAuthData unmarshal js data w))) = Some mac \<and>
    (clients st ns = Some mc \<longrightarrow> authDataCallback mc = Some i \<longrightarrow>
      (\<exists>st'. mobile_onAuthData unmarshal ns data st = Some (None, st') \<and>
         clients st' ns = Some (mc\<lparr>client_mac := Some mac\<rparr>) \<and>
         sent_results st' = sent_results st @ [(i, bytes_str data)]))"
proof -
  obtain val macBytes where d: "data = str_bytes ''Macaroon'' @ colon_space @ val"
    "strings_Split data colon_space = [str_bytes ''Macaroon'', val]"
    "hex_decode (bytes_str val) = Inr macBytes" "unmarshal macBytes = Inr mac"
    by (rule parse_auth_dataD [OF assms(1)])
  have "13 \<notin> set data" using hex_no_cr [OF d(3)] by (simp add: d(1) str_bytes_def colon_space_def)
  then have "strings_Split data crlf = [data]" by (simp add: strings_Split_def crlf_def split_no_sep)
  then have g: "GetRequestMetadata g = [str_bytes ''Macaroon'' \<mapsto> val]"
    using assms(2) d(2) by (simp add: GetRequestMetadata_def Let_def add_line_def)
  have w: "wasm_mac (fst (snd (wasm_onAuthData unmarshal js data w))) = Some mac"
    using assms(1) by (simp add: wasm_onAuthData_def split: prod.splits)
  have "clients st ns = Some mc \<Longrightarrow> authDataCallback mc = Some i \<Longrightarrow>
      \<exists>st'. mobile_onAuthData unmarshal ns data st = Some (None, st') \<and>
         clients st' ns = Some (mc\<lparr>client_mac := Some mac\<rparr>) \<and> sent_results st' = sent_results st @ [(i, bytes_str data)]"
    using assms(1) by (simp add: mobile_onAuthData_def Let_def SendResult_def put_client_def)
  with g w d(3,4) show ?thesis by blast
qed

lemma bytes_str_bytes [simp]: "bytes_str (str_bytes s) = s"
proof -
  have "unat (of_char c :: u8) = of_char c" for c
    using unat_of_nat [of "of_char c", where 'a = 8] by (simp add: of_nat_of_char)
  then show ?thesis by (induction s) (simp_all add: bytes_str_def str_bytes_def)
qed

definition example_auth :: bytes where
  "example_auth = str_bytes ''Macaroon: 07''"

lemma example_auth_parts: "strings_Split example_auth colon_space = [str_bytes ''Macaroon'', str_bytes ''07'']"
  by (simp add: strings_Split_def example_auth_def str_bytes_def colon_space_def)

definition example_unmarshal :: "bytes \<Rightarrow> string + u8" where
  "example_unmarshal b = (if b = [7] then Inr 7 else Inl [])"

theorem auth_data_metadata_witness:
  "\<exists>val. GetRequestMetadata (NewNoiseGrpcConn (NewConnData (5 :: u8) (None :: u8 option) [] (Some example_auth) None None) []
         :: (u8, u8, unit) NoiseGrpcConn) = [str_bytes ''Macaroon'' \<mapsto> val] \<and> hex_decode (bytes_str val) = Inr [7] \<and>
     (\<exists>st'. mobile_onAuthData example_unmarshal ''ns'' example_auth example_mobile = Some (None, st') \<and>
        sent_results st' = [(2, ''Macaroon: 07'')])"
proof -
  let ?g = "NewNoiseGrpcConn (NewConnData (5 :: u8) (None :: u8 option) [] (Some example_auth) None None) [] :: (u8, u8, unit) NoiseGrpcConn"
  have "hex_decode ''07'' = Inr [7]" by (simp add: hex_val_def ebind_def)
  then have p: "parse_auth_data example_unmarshal example_auth = Inr 7"
    by (simp add: parse_auth_data_def example_auth_parts example_unmarshal_def)
  have a: "cd_authData (g_connData ?g) = Some example_auth" by (simp add: NewNoiseGrpcConn_def NewConnData_def)
  obtain mc where c: "clients example_mobile ''ns'' = Some mc" "authDataCallback mc = Some 2" "sent_results example_mobile = []"
    by (simp add: example_mobile_def)
  note r = auth_data_metadata [OF p a, of undefined undefined example_mobile "''ns''" mc 2]
  obtain val mb where v: "GetRequestMetadata ?g = [str_bytes ''Macaroon'' \<mapsto> val]"
    "hex_decode (bytes_str val) = Inr mb" "example_unmarshal mb = Inr 7"
    using r [THEN conjunct1] by blast
  obtain st' where t: "mobile_onAuthData example_unmarshal ''ns'' example_auth example_mobile = Some (None, st')"
    "sent_results st' = [(2, ''Macaroon: 07'')]"
    using r [THEN conjunct2, THEN conjunct2] c by (auto simp: example_auth_def)
  have "mb = [7]" using v(3) by (simp add: example_unmarshal_def split: if_splits)
  then show ?thesis using v(1,2) t by blast
qed

subsection \<open>Permissions and expiry\<close>


definition example_wasm :: "(u8, nat, nat) wasmClient" where
  "example_wasm = \<lparr>wasm_cfg = \<lparr>wc_DebugLevel = [], wc_NameSpace = ''ns'', wc_OnLocalPrivCreate = ''a.b'', wc_OnRemoteKeyReceive = [],
     wc_OnAuthData = []\<rparr>, wasm_lndConn = None, wasm_statusChecker = None, wasm_mac = Some 7, wasm_registry = {}\<rparr>"

definition example_ops :: "mac_op list" where
  "example_ops = [\<lparr>Entity = ''info'', Actions = [''read'']\<rparr>, \<lparr>Entity = ''uri'', Actions = [''/r.L/Get'']\<rparr>]"


text \<open>
  C40: the mobile client cannot tell when a macaroon expires. \<^verbatim>\<open>GetExpiry\<close> converts the Unix time
  to a code point and not to digits, so for every time from 14 January 1970 to the
  end of the range of 32 bits the answer is the UTF-8 text of the replacement character, the
  same for all of them; the WebAssembly client returns the time.
\<close>

theorem expiry_unreadable:
  assumes "clients st ns = Some mc" and "client_mac mc = Some mac" and "wasm_mac w = Some mac" and "expiry mac = Some t"
    and "0x10FFFF < t" and "t < 2 ^ 31"
  shows "mobile_GetExpiry expiry ns st = Inr [0xEF, 0xBF, 0xBD] \<and> wasm_GetExpiry expiry w = Some t"
proof -
  have "rune t = t" using assms(5,6) by (simp add: rune_def)
  then have "utf8 t = [0xEF, 0xBF, 0xBD]" using assms(5) by (simp add: utf8_def Let_def)
  then show ?thesis
    using assms(1-4) by (simp add: mobile_GetExpiry_def with_client_def getClient_def wasm_GetExpiry_def)
qed

theorem expiry_unreadable_witness:
  "mobile_GetExpiry (\<lambda>m. Some 1700000000) ''ns'' example_mobile = Inr [0xEF, 0xBF, 0xBD] \<and>
   wasm_GetExpiry (\<lambda>m. Some 1700000000) example_wasm = Some 1700000000"
proof -
  obtain mc where c: "clients example_mobile ''ns'' = Some mc" "client_mac mc = Some 7" by (simp add: example_mobile_def)
  have w: "wasm_mac example_wasm = Some 7" by (simp add: example_wasm_def)
  show ?thesis by (rule expiry_unreadable [OF c w]) simp_all
qed

end
