(* ===== verification/Mailbox_Numsgen.thy ===== *)
theory Mailbox_Numsgen
  imports Noise_Cipher
begin

section \<open>The generator of the public point (mailbox/numsgen/main.go)\<close>

text \<open>
  The point with which the passphrase is mixed into the handshake must not have a known
  logarithm. The program looks for the first counter whose hash, together with a phrase, is the
  x coordinate of a point. The phrase is the one after \<^verbatim>\<open>strings.TrimSpace\<close>; the printed lines are
  not modelled. The loop may run forever, which is the value \<open>None\<close>.
\<close>

definition put_u64 :: "u64 \<Rightarrow> bytes" where
  "put_u64 x = put_u32 (ucast (drop_bit 32 x)) @ put_u32 (ucast x)"

definition increment :: "('sk, 'pk) prims \<Rightarrow> bytes \<Rightarrow> u64 \<Rightarrow> bytes" where
  "increment P seedPhrase i = sha256 P (put_u64 i @ seedPhrase)"

definition candidatePoint :: "('sk, 'pk) prims \<Rightarrow> bytes \<Rightarrow> u64 \<Rightarrow> 'pk option" where
  "candidatePoint P seedPhrase i =
     (let candidateSeed = increment P seedPhrase i; pubBytes = 2 # take 32 (candidateSeed @ zero32)
      in pk_parse P pubBytes)"

partial_function (option) numsgen_loop :: "('sk, 'pk) prims \<Rightarrow> bytes \<Rightarrow> u64 \<Rightarrow> (u64 \<times> 'pk) option" where
  "numsgen_loop P seedPhrase i =
     (case candidatePoint P seedPhrase i of
        Some p \<Rightarrow> Some (i, p)
      | None \<Rightarrow> numsgen_loop P seedPhrase (i + 1))"

definition numsgen :: "('sk, 'pk) prims \<Rightarrow> bytes \<Rightarrow> (u64 \<times> 'pk) option" where
  "numsgen P seedPhrase = numsgen_loop P seedPhrase 0"

lemma numsgen_loop_finds:
  "\<forall>k < n. candidatePoint P s (i + of_nat k) = None \<Longrightarrow> candidatePoint P s (i + of_nat n) = Some p \<Longrightarrow>
   numsgen_loop P s i = Some (i + of_nat n, p)"
proof (induction n arbitrary: i)
  case 0
  then show ?case by (subst numsgen_loop.simps) simp
next
  case (Suc n)
  have "candidatePoint P s i = None" using Suc.prems(1) by force
  moreover have "\<forall>k < n. candidatePoint P s (i + 1 + of_nat k) = None"
    using Suc.prems(1) by (metis Suc_less_eq add.assoc of_nat_Suc)
  moreover have "candidatePoint P s (i + 1 + of_nat n) = Some p" using Suc.prems(2) by (simp add: add.assoc)
  ultimately show ?case using Suc.IH [of "i + 1"] by (subst numsgen_loop.simps) (simp add: add.assoc)
qed

lemmas numsgen_loop_induct =
  numsgen_loop.raw_induct [where Pa = "\<lambda>a. Q (fst (fst a)) (snd (fst a)) (snd a)" for Q,
    unfolded fst_conv snd_conv, rotated, consumes 1, case_names step]

lemma numsgen_loop_sound:
  assumes "numsgen_loop P s i = Some y"
  shows "\<exists>n. fst y = i + of_nat n \<and> candidatePoint P s (fst y) = Some (snd y) \<and>
    (\<forall>k < n. candidatePoint P s (i + of_nat k) = None)"
  using assms
proof (induction rule: numsgen_loop_induct)
  case (step loop P s i y)
  show ?case
  proof (cases "candidatePoint P s i")
    case None
    then have "loop P s (i + 1) = Some y" using step(2) by simp
    from step(1) [OF this] obtain n where n: "fst y = i + 1 + of_nat n" "candidatePoint P s (fst y) = Some (snd y)"
      "\<forall>k < n. candidatePoint P s (i + 1 + of_nat k) = None" by blast
    have "candidatePoint P s (i + of_nat k) = None" if "k < Suc n" for k
      using that None n(3) by (cases k) (simp_all add: add.assoc)
    moreover have "fst y = i + of_nat (Suc n)" using n(1) by (simp add: add.assoc)
    ultimately show ?thesis using n(2) by blast
  next
    case (Some q)
    then have "y = (i, q)" using step(2) by simp
    then show ?thesis using Some by (intro exI [of _ 0]) simp
  qed
qed

text \<open>
  C33: the search for the point ends exactly when some counter of 64 bits gives a point, and it
  returns the first such counter.
\<close>

theorem numsgen_first:
  "numsgen P s = Some (j, p) \<longleftrightarrow> candidatePoint P s j = Some p \<and> (\<forall>k < j. candidatePoint P s k = None)"
proof
  assume "numsgen P s = Some (j, p)"
  then obtain n where n: "j = of_nat n" "candidatePoint P s j = Some p" "\<forall>k < n. candidatePoint P s (of_nat k) = None"
    using numsgen_loop_sound [of P s 0 "(j, p)"] by (auto simp: numsgen_def)
  have "candidatePoint P s k = None" if "k < j" for k
  proof -
    have "unat j \<le> n" by (simp add: n(1) unat_of_nat)
    with that have "unat k < n" by (simp add: word_less_nat_alt)
    with n(3) show ?thesis by (metis of_nat_unat ucast_id)
  qed
  with n(2) show "candidatePoint P s j = Some p \<and> (\<forall>k < j. candidatePoint P s k = None)" by blast
next
  assume a: "candidatePoint P s j = Some p \<and> (\<forall>k < j. candidatePoint P s k = None)"
  have "candidatePoint P s (0 + of_nat k) = None" if "k < unat j" for k
  proof -
    have "k < 2 ^ 64" using that unsigned_less [of j, where ?'a = nat] by simp
    then have "unat (of_nat k :: u64) = k" by (simp add: unat_of_nat)
    with that have "(of_nat k :: u64) < j" by (simp add: word_less_nat_alt)
    with a show ?thesis by simp
  qed
  with a show "numsgen P s = Some (j, p)"
    using numsgen_loop_finds [of "unat j" P s 0 p] by (simp add: numsgen_def)
qed

theorem numsgen_first_witness:
  "numsgen (example_prims\<lparr>pk_parse := \<lambda>b. if b ! 8 = 3 then Some (b ! 8) else None\<rparr>) [] = Some (3, 3)"
proof -
  let ?P = "example_prims\<lparr>pk_parse := \<lambda>b. if b ! 8 = 3 then Some (b ! 8) else None\<rparr>"
  have c: "candidatePoint ?P [] i = (if (ucast i :: u8) = 3 then Some (ucast i) else None)" for i
  proof -
    have "(ucast (ucast i :: u32) :: u8) = ucast i" by (rule bit_word_eqI) (simp add: bit_simps)
    then show ?thesis
      by (simp add: candidatePoint_def increment_def Let_def put_u64_def put_u32_def example_prims_def zero32_def nth_append)
  qed
  have n: "(ucast k :: u8) \<noteq> 3" if "k < (3 :: u64)" for k
  proof
    have k: "unat k < 3" using that by (simp add: word_less_nat_alt)
    assume "(ucast k :: u8) = 3"
    then have "unat (ucast k :: u8) = 3" by simp
    with k show False by (simp add: unsigned_ucast_eq take_bit_eq_mod)
  qed
  have "candidatePoint ?P [] 3 = Some 3" by (simp add: c)
  moreover have "\<forall>k < 3. candidatePoint ?P [] k = None" using n by (simp add: c)
  ultimately show ?thesis using numsgen_first [of ?P "[]" 3 3] by blast
qed

end
