(* ===== verification/Noise_Credentials.thy ===== *)
theory Noise_Credentials
  imports Mailbox_Session Noise_Grpc
begin

section \<open>The credentials towards gRPC (mailbox/grpc\_noise\_conn.go, mailbox/interface.go)\<close>

text \<open>
  What gRPC asks of \<^verbatim>\<open>NoiseGrpcConn\<close> besides reading, writing and the handshakes: addresses,
  protocol information and \<^verbatim>\<open>Close\<close>. The connection below is a parameter of the operations that
  pass a call on to it. The second part is the vocabulary for whole sessions: a handshake
  between two credentials that are given by the connection data they share with their owners.
\<close>

subsection \<open>Addresses and protocol information\<close>

definition ProtocolName :: string where
  "ProtocolName = ''XXeke_secp256k1+SPAKE2_CHACHAPOLY1305_SHA256''"

definition Grpc_LocalAddr :: "('sk, 'pk) prims \<Rightarrow> ('c \<Rightarrow> Addr) \<Rightarrow> ('sk, 'pk, 'c) NoiseGrpcConn \<Rightarrow> 'pk NoiseAddr" where
  "Grpc_LocalAddr P conn_LocalAddr g =
     (case g_ProxyConn g of
        None \<Rightarrow> \<lparr>na_PubKey = Some (ec_pub P (cd_localKey (g_connData g))), na_Server = []\<rparr>
      | Some c \<Rightarrow> \<lparr>na_PubKey = Some (ec_pub P (cd_localKey (g_connData g))),
                   na_Server = Addr_String (conn_LocalAddr c)\<rparr>)"

definition Grpc_RemoteAddr :: "('c \<Rightarrow> Addr) \<Rightarrow> ('sk, 'pk, 'c) NoiseGrpcConn \<Rightarrow> 'pk NoiseAddr" where
  "Grpc_RemoteAddr conn_RemoteAddr g =
     (case g_ProxyConn g of
        None \<Rightarrow> \<lparr>na_PubKey = cd_remoteKey (g_connData g), na_Server = []\<rparr>
      | Some c \<Rightarrow> \<lparr>na_PubKey = cd_remoteKey (g_connData g), na_Server = Addr_String (conn_RemoteAddr c)\<rparr>)"

text \<open>\<^verbatim>\<open>credentials.ProtocolInfo\<close> and \<^verbatim>\<open>AuthInfo\<close>; the security levels are those of gRPC, a parameter.\<close>

record ProtocolInfo =
  pi_ProtocolVersion :: string
  pi_SecurityProtocol :: string
  pi_ServerName :: string

definition Grpc_Info :: ProtocolInfo where
  "Grpc_Info = \<lparr>pi_ProtocolVersion = ''0'', pi_SecurityProtocol = ProtocolName, pi_ServerName = ''lnd''\<rparr>"

record 'level AuthInfo =
  ai_SecurityLevel :: 'level

definition NewAuthInfo :: "'level \<Rightarrow> 'level AuthInfo" where
  "NewAuthInfo PrivacyAndIntegrity = \<lparr>ai_SecurityLevel = PrivacyAndIntegrity\<rparr>"

definition AuthType :: "'level AuthInfo \<Rightarrow> string" where
  "AuthType a = ProtocolName"

definition OverrideServerName :: "string \<Rightarrow> go_error option" where
  "OverrideServerName name = None"

definition RequireTransportSecurity :: bool where
  "RequireTransportSecurity = True"

text \<open>\<^verbatim>\<open>Close\<close> before the first handshake calls a method of a nil interface: \<open>None\<close>.\<close>

definition Grpc_Close :: "('c \<Rightarrow> go_error option \<times> 'c) \<Rightarrow> ('sk, 'pk, 'c) NoiseGrpcConn \<Rightarrow>
    (go_error option \<times> ('sk, 'pk, 'c) NoiseGrpcConn) option" where
  "Grpc_Close conn_Close g =
     map_option (\<lambda>c. case conn_Close c of (e, c') \<Rightarrow> (e, g\<lparr>g_ProxyConn := Some c'\<rparr>)) (g_ProxyConn g)"

text \<open>The keys of the two ends of a \<^verbatim>\<open>NoiseConn\<close>.\<close>

definition RemotePub :: "('sk, 'pk) Machine \<Rightarrow> 'pk option" where
  "RemotePub b = remoteStatic (m_hs b)"

definition LocalPub :: "('sk, 'pk) prims \<Rightarrow> ('sk, 'pk) Machine \<Rightarrow> 'pk" where
  "LocalPub P b = ec_pub P (localStatic (m_hs b))"

subsection \<open>Handshakes between credentials\<close>

text \<open>Credentials for connection data \<open>d\<close> that allow all versions, as \<^verbatim>\<open>NewNoiseGrpcConn\<close> makes them.\<close>

definition creds :: "('sk, 'pk) ConnData \<Rightarrow> ('sk, 'pk, 'c) NoiseGrpcConn \<Rightarrow> bool" where
  "creds d g \<longleftrightarrow> g_connData g = d \<and> minHandshakeVersion g = 0 \<and> maxHandshakeVersion g = 2"

lemma creds_New: "creds d (NewNoiseGrpcConn d [])"
  by (simp add: creds_def NewNoiseGrpcConn_def MinHandshakeVersion_def MaxHandshakeVersion_def)

text \<open>
  Whatever credentials a client and a server use for \<open>dI\<close> and \<open>dR\<close>: over connections that
  carry what the other side sends, both handshakes succeed, leave matching channels, and the
  connection data are \<open>dI'\<close> and \<open>dR'\<close> afterwards.
\<close>

definition noise_session :: "('sk, 'pk) prims \<Rightarrow> (nat \<Rightarrow> 'sk option) \<Rightarrow> (nat \<Rightarrow> 'sk option) \<Rightarrow>
    ('sk, 'pk) ConnData \<Rightarrow> ('sk, 'pk) ConnData \<Rightarrow> ('sk, 'pk) ConnData \<Rightarrow> ('sk, 'pk) ConnData \<Rightarrow> bool" where
  "noise_session P gI gR dI dR dI' dR' \<longleftrightarrow> (\<exists>to_client to_server. carried to_client \<and> carried to_server \<and>
     (\<forall>g h cI cR t1 t2 t3 t4. creds dI g \<and> creds dR h \<and> p_buf cI = [] \<and> p_buf cR = [] \<and>
        p_in cI = to_client \<and> p_in cR = to_server \<longrightarrow>
      (\<exists>A B a b ca cb. ClientHandshake P gI 64 queue_gbn t1 t2 (Some cI) g = Inr A \<and>
         ServerHandshake P gR 64 queue_gbn t3 t4 (Some cR) h = Inr B \<and>
         g_ProxyConn A = Some ca \<and> p_out ca = p_out cI @ to_server \<and>
         g_ProxyConn B = Some cb \<and> p_out cb = p_out cR @ to_client \<and>
         g_noise A = Some a \<and> g_noise B = Some b \<and> channels_match a b \<and> creds dI' A \<and> creds dR' B)))"

lemma creds_handshake:
  assumes "creds d g" and "NewBrontideMachine P gen (handshake_cfg init 0 2 d) = Inr b"
    and "handshake_ends P b d ins outs b' d'" and "remoteStatic (m_hs b') \<noteq> None" and "p_buf c = []" and "p_in c = ins"
  obtains g' c' where "grpc_handshake P gen 64 queue_gbn now now' init (Some c) g = Inr g'" and "creds d' g'"
    and "g_noise g' = Some b'" and "g_ProxyConn g' = Some c'" and "p_out c' = p_out c @ outs"
proof -
  have c: "p_in c = ins @ []" using assms(6) by simp
  have g: "g_connData g = d" "minHandshakeVersion g = 0" "maxHandshakeVersion g = 2"
    using assms(1) by (simp_all add: creds_def)
  obtain c' where c': "grpc_handshake P gen 64 queue_gbn now now' init (Some c) g =
      Inr (g\<lparr>g_ProxyConn := Some c', g_noise := Some b', g_connData := d'\<rparr>)" "p_out c' = p_out c @ outs"
    by (rule grpc_handshake_ends [of P gen init g b ins outs b' d' c "[]" now now'])
      (use assms(2-5) g c in auto)
  show thesis by (rule that [OF c'(1)]) (use g c'(2) in \<open>simp_all add: creds_def\<close>)
qed

lemma noise_sessionI:
  assumes "NewBrontideMachine P gI (handshake_cfg True 0 2 dI) = Inr bI"
    and "NewBrontideMachine P gR (handshake_cfg False 0 2 dR) = Inr bR"
    and "handshake_ends P bI dI ins outs bI' dI'" and "handshake_ends P bR dR outs ins bR' dR'"
    and "ends_paired P 2 2 dI dR bI' bR'" and "carried ins" and "carried outs"
  shows "noise_session P gI gR dI dR dI' dR'"
  unfolding noise_session_def
proof (rule exI [of _ ins], rule exI [of _ outs], intro conjI allI impI)
  have e: "remoteStatic (m_hs bI') \<noteq> None" "remoteStatic (m_hs bR') \<noteq> None" "channels_match bI' bR'"
    using assms(5) by (simp_all add: ends_paired_def)
  fix g h :: "('a, 'b, gbn_msgs ProxyConn) NoiseGrpcConn" and cI cR t1 t2 t3 t4
  assume a: "creds dI g \<and> creds dR h \<and> p_buf cI = [] \<and> p_buf cR = [] \<and> p_in cI = ins \<and> p_in cR = outs"
  obtain A ca where A: "grpc_handshake P gI 64 queue_gbn t1 t2 True (Some cI) g = Inr A" "creds dI' A"
    "g_noise A = Some bI'" "g_ProxyConn A = Some ca" "p_out ca = p_out cI @ outs"
    by (rule creds_handshake [OF _ assms(1,3) e(1), of g cI t1 t2]) (use a in blast)+
  obtain B cb where B: "grpc_handshake P gR 64 queue_gbn t3 t4 False (Some cR) h = Inr B" "creds dR' B"
    "g_noise B = Some bR'" "g_ProxyConn B = Some cb" "p_out cb = p_out cR @ ins"
    by (rule creds_handshake [OF _ assms(2,4) e(2), of h cR t3 t4]) (use a in blast)+
  show "\<exists>A B a b ca cb. ClientHandshake P gI 64 queue_gbn t1 t2 (Some cI) g = Inr A \<and>
         ServerHandshake P gR 64 queue_gbn t3 t4 (Some cR) h = Inr B \<and>
         g_ProxyConn A = Some ca \<and> p_out ca = p_out cI @ outs \<and>
         g_ProxyConn B = Some cb \<and> p_out cb = p_out cR @ ins \<and>
         g_noise A = Some a \<and> g_noise B = Some b \<and> channels_match a b \<and> creds dI' A \<and> creds dR' B"
    unfolding ClientHandshake_def ServerHandshake_def using A B e(3) by blast
qed (use assms(6,7) in simp_all)

lemma noise_session_xx:
  assumes "prims_ok P" and "parties_ok gI gR (0, 2) (0, 2) dI dR"
    and "cd_remoteKey dI = None" and "cd_remoteKey dR = None" and "cd_passphraseEntropy dI = cd_passphraseEntropy dR"
    and "scrypt_key P (cd_passphraseEntropy dR) (cd_passphraseEntropy dR) = Some k"
  shows "noise_session P gI gR dI dR
    (dI\<lparr>cd_remoteKey := Some (ec_pub P (cd_localKey dR)), cd_authData := Some (auth_bytes (cd_authData dR))\<rparr>)
    (dR\<lparr>cd_remoteKey := Some (ec_pub P (cd_localKey dI))\<rparr>)"
proof -
  have v: "(0 :: u8) \<le> 2" "(2 :: u8) \<le> 2" "((2 :: u8) = 0) = ((2 :: u8) = 0)" by simp_all
  obtain bI bR m1 m2 m3 bI' bR' where X:
    "NewBrontideMachine P gI (handshake_cfg True 0 2 dI) = Inr bI"
    "NewBrontideMachine P gR (handshake_cfg False 0 2 dR) = Inr bR"
    "handshake_waits P bI dI [] [m1]" "handshake_waits P bR dR [m1] [2 # m2]"
    "handshake_ends P bI dI [2 # m2] [m1, 2 # m3] bI' (stored (m_hs bI') dI)"
    "handshake_ends P bR dR [m1, 2 # m3] [2 # m2] bR' (stored (m_hs bR') dR)"
    "ends_paired P 2 2 dI dR bI' bR'"
    by (rule xx_machines [OF assms(1-6) v(1,2,2,3)])
  have m2: "carried [2 # m2]" using carried_waits X(3,4) by (metis carried_simps(1))
  have s: "stored (m_hs bI') dI = dI\<lparr>cd_remoteKey := Some (ec_pub P (cd_localKey dR)), cd_authData := Some (auth_bytes (cd_authData dR))\<rparr>"
    "stored (m_hs bR') dR = dR\<lparr>cd_remoteKey := Some (ec_pub P (cd_localKey dI))\<rparr>"
    using X(7) by (simp_all add: stored_def ends_paired_def received_exact)
  from noise_sessionI [OF X(1,2,5,6,7) m2 carried_ends [OF X(5) m2]] show ?thesis unfolding s .
qed

lemma noise_session_kk:
  assumes "prims_ok P" and "parties_ok gI gR (0, 2) (0, 2) dI dR"
    and "cd_remoteKey dI = Some (ec_pub P (cd_localKey dR))" and "cd_remoteKey dR = Some (ec_pub P (cd_localKey dI))"
  shows "noise_session P gI gR dI dR (dI\<lparr>cd_authData := Some (auth_bytes (cd_authData dR))\<rparr>) dR"
proof -
  obtain bI bR m1 m2 bI' bR' where X:
    "NewBrontideMachine P gI (handshake_cfg True 0 2 dI) = Inr bI"
    "NewBrontideMachine P gR (handshake_cfg False 0 2 dR) = Inr bR"
    "handshake_waits P bI dI [] [m1]"
    "handshake_ends P bI dI [m2] [m1] bI' (stored (m_hs bI') dI)"
    "handshake_ends P bR dR [m1] [m2] bR' (stored (m_hs bR') dR)"
    "ends_paired P 2 2 dI dR bI' bR'"
    by (rule kk_machines [OF assms])
  have m1: "carried [m1]" by (rule carried_waits [OF X(3)]) simp
  have s: "stored (m_hs bI') dI = dI\<lparr>cd_authData := Some (auth_bytes (cd_authData dR))\<rparr>" "stored (m_hs bR') dR = dR"
    using X(6) by (simp_all add: stored_def ends_paired_def received_exact flip: assms(3,4))
  from noise_sessionI [OF X(1,2,4,5,6) carried_ends [OF X(5) m1] m1] show ?thesis unfolding s .
qed

end
