(* ===== verification/Spec2Isabelle.thy ===== *)
theory Spec2Isabelle
  imports GBN_Stream GBN_Handshake Client_Apps Mailbox_Numsgen Noise_Credentials
begin

text \<open>
  The verification of Lightning Node Connect: two parties, a \<^emph>\<open>client\<close> (a mobile or browser
  application) and a \<^emph>\<open>server\<close> (a node), talk gRPC through a mailbox server that neither trusts.

  \<^bold>\<open>The program and the theories.\<close> From the wire upwards:

  \<^item> \<^verbatim>\<open>gbn/\<close>, a go-back-N protocol that makes a message connection of two lossy byte transports.
    \<^verbatim>\<open>messages.go\<close> is \<open>GBN_Messages\<close>, \<^verbatim>\<open>timeout_manager.go\<close>, \<^verbatim>\<open>config.go\<close> and \<^verbatim>\<open>backoff_wait.go\<close> are
    \<open>GBN_Timeout\<close> (over the floating-point arithmetic of \<open>Go_Float\<close>), \<^verbatim>\<open>syncer.go\<close> is \<open>GBN_Syncer\<close>,
    \<^verbatim>\<open>queue.go\<close> is \<open>GBN_Queue\<close>, \<^verbatim>\<open>ticker.go\<close> is \<open>GBN_Ticker\<close>. \<^verbatim>\<open>gbn_conn.go\<close> is \<open>GBN_Conn\<close>: the record
    \<open>GoBackNConn\<close> with the places of its two goroutines, and \<open>conn_step\<close>, which interleaves the
    pieces of the goroutines between two points of interference. \<open>GBN_Protocol\<close> puts two connections
    together over a transport that keeps the order and may lose or repeat, \<open>GBN_Stream\<close> adds the calls
    \<^verbatim>\<open>Send\<close> and \<^verbatim>\<open>Recv\<close>, \<open>GBN_Handshake\<close> the constructors of \<^verbatim>\<open>gbn_client.go\<close> and \<^verbatim>\<open>gbn_server.go\<close>.
  \<^item> \<^verbatim>\<open>mailbox/\<close>, the connection through the mailbox server. \<open>Mailbox_Transport\<close> has the two transports
    of \<^verbatim>\<open>client_transport.go\<close>; \<open>Mailbox_Conn\<close> and \<open>Mailbox_Transfer\<close> have \<^verbatim>\<open>client_conn.go\<close> and
    \<^verbatim>\<open>server_conn.go\<close>: the functions through which gbn sends and receives, with their retry loops;
    \<open>Mailbox_Interface\<close> has \<^verbatim>\<open>interface.go\<close>: the data message and the byte stream \<^verbatim>\<open>connKit\<close>;
    \<open>Mailbox_ConnData\<close> has \<^verbatim>\<open>conndata.go\<close>; \<open>Mailbox_Session\<close> has \<^verbatim>\<open>client.go\<close> and \<^verbatim>\<open>server.go\<close>: \<^verbatim>\<open>Dial\<close>,
    \<^verbatim>\<open>Accept\<close> and \<^verbatim>\<open>Close\<close> and the life of a session; \<open>Mailbox_Pairing\<close> has \<^verbatim>\<open>crypto.go\<close> and
    \<^verbatim>\<open>create_conn.go\<close>; \<open>Mailbox_Numsgen\<close> has \<^verbatim>\<open>numsgen/main.go\<close>.
  \<^item> the noise protocol in \<^verbatim>\<open>mailbox/\<close>. \<^verbatim>\<open>noise.go\<close> and \<^verbatim>\<open>noise_patterns.go\<close> are \<open>Noise_Cipher\<close>,
    \<open>Noise_Handshake\<close>, \<open>Noise_Machine\<close> and \<open>Noise_Transport\<close>; \<^verbatim>\<open>tcp_noise_conn.go\<close> is \<open>Noise_Conn\<close>,
    \<^verbatim>\<open>tcp_noise_listner.go\<close> is \<open>Noise_Listener\<close>, \<^verbatim>\<open>grpc_noise_conn.go\<close> is \<open>Noise_Grpc\<close> and
    \<open>Noise_Credentials\<close>.
  \<^item> the applications. \<open>Client_Perms\<close> and \<open>Client_Apps\<close> have \<^verbatim>\<open>mobile/mobile.go\<close> and
    \<^verbatim>\<open>cmd/wasm-client/main.go\<close>.

  \<open>LNC_Prelude\<close> and \<open>Go_IO\<close> hold what the components share. A Go struct is a record, an enumeration or
  an interface with known implementations a datatype, a method a function on the state it
  changes; goroutines are step relations whose steps are the pieces under one lock or between two channel
  operations. A panic is \<open>None\<close> or \<open>ErrPanic\<close>; errors are values of a datatype. Unsigned integers are words
  of their width; \<^verbatim>\<open>int\<close> and \<^verbatim>\<open>int64\<close> are integers with the wrap-around written out where it can happen.

  \<^bold>\<open>Interfaces.\<close> A locale states what one component promises another, and is interpreted on the
  definitions that provide it: \<open>wire_format\<close> (encoder and decoder; gbn packets and data messages),
  \<open>send_window\<close> (the abstract window; \<open>ring\<close> is the queue), \<open>message_conn\<close> and \<open>message_control\<close>
  (connections that keep message boundaries; the mailbox connections of both sides, on which the noise
  handshake rests) and \<open>retrying\<close> (one round of a retry loop; the four loops of the mailbox connections).

  \<^bold>\<open>What is shown.\<close>
  \<^item> gbn: the queue refines the abstract window (\<open>resend_spec\<close>, \<open>processACK_cumulative\<close>,
    \<open>processNACK_spec\<close>); packets arrive in order, without gap and repetition (\<open>gbn_safety\<close>), also from the
    handshake on (\<open>handshake_agreement\<close>); messages arrive whole (\<open>message_stream\<close>); timeouts and
    tickers keep their bounds (\<open>resend_timeout_floor\<close>, \<open>pong_time_bounds\<close>, \<open>reset_full_interval\<close>).
  \<^item> mailbox: what the connections send and receive belongs to their own mailboxes, whatever
    fails in between (\<open>mailbox_recv_sound\<close>, \<open>mailbox_send_sound\<close>), and the loops return once the
    faults end (\<open>mailbox_transfers_return\<close>); \<^verbatim>\<open>Dial\<close> and \<^verbatim>\<open>Accept\<close> of one session meet
    (\<open>dial_meets_accept\<close>), and a session stays well-formed (\<open>session_wf\<close>).
  \<^item> noise: both patterns take the two ends to matching channels and to each other's key
    (\<open>noise_xx_agreement\<close>, \<open>noise_kk_agreement\<close>); the ciphers stay in step and reuse no nonce
    (\<open>cipher_lock_step\<close>); partial writes resume (\<open>flush_resumes\<close>); the streams return what was written
    (\<open>noise_stream_roundtrip\<close>, \<open>grpc_session\<close>); the listener is bounded (\<open>listener_bounded\<close>).
  \<^item> applications: stored keys are accepted again (\<open>stored_keys_reconnect\<close>), accepted auth data
    become credentials (\<open>auth_data_metadata\<close>), permissions are answered right (\<open>permission_answers\<close>).
  \<^item> across components: the life of a pairing, \<open>pairing_life\<close> below.
  \<^item> defects: \<open>resent_syn_kills_client\<close>, \<open>server_window_255_panics\<close>, \<open>lost_wakeup\<close>,
    \<open>aborted_send_corrupts\<close>, \<open>noise_version_downgrade\<close>, \<open>grpc_stale_bytes\<close>, \<open>expiry_unreadable\<close>; and as
    lemmas of the components \<open>processNACK_out_of_range\<close>, \<open>expectedACK_overflow\<close>, \<open>msgdata_32bit_panic\<close>,
    \<open>permissions_overwritten\<close>.

  \<^bold>\<open>Parameters and hypotheses.\<close> Code of other packages is an argument of the definitions:
  \<open>prims\<close> (AEAD, hashes, scrypt, secp256k1) with \<open>prims_ok\<close>: opening undoes sealing, the two ends of
  a key exchange agree, parsing undoes serializing; no security assumption is made or needed.
  \<open>bstream\<close> and the word list with \<open>bstream_ok\<close> and \<open>words_ok\<close>; \<open>keylib\<close> with \<open>keylib_ok\<close>; \<open>env\<close>, the
  mailbox server and its client libraries, without any assumption except in
  \<open>mailbox_transfers_return\<close>, which needs that only finitely many calls fail; writers with \<open>writer_ok\<close>,
  the contract of \<^verbatim>\<open>io.Writer\<close>. Each hypothesis has a concrete instance (\<open>example_prims\<close>,
  \<open>example_env\<close> and so on) on which the theorems are evaluated.

  \<^bold>\<open>Loops and bounds.\<close> Loops that end have a termination measure, except the loop of \<^verbatim>\<open>resend\<close>, which
  has fuel 256, one more than the labels of a byte can make it run (\<open>resend_spec\<close>); the retry
  loops and the search of \<open>numsgen\<close> may run forever and are partial functions with \<open>None\<close> for that,
  with theorems on when they return. Handshakes of the noise protocol are run over connections whose
  \<^verbatim>\<open>int\<close> has 64 bits. Windows have 1 to 254 packets; \<^verbatim>\<open>NewClientConn\<close> refuses 255.

  \<^bold>\<open>Not modelled.\<close> \<^verbatim>\<open>hashmailrpc/\<close> is generated from a protocol description; its calls are the
  environment \<open>env\<close>. \<^verbatim>\<open>itest/\<close> and the test files are no part of the product. \<^verbatim>\<open>log.go\<close> of each package and
  all logging have no effect on the state. Of the command lines, only the parsed configuration
  appears; of gRPC, the dialling options, the RPC itself and the scheduling of the calls it makes are
  outside. Of the WebAssembly client, the conversion of JavaScript values, and with it the switch that
  turns off the check of certificates for a development server, is left out. The order of reads and
  writes of variables that the code shares without a lock is not considered.
\<close>

section \<open>From the pairing phrase to later sessions\<close>

text \<open>Connection data after the pairing: both sides know each other.\<close>

lemma paired_parties:
  assumes "parties_ok gI gR (0, 2) (0, 2) dI dR" and "\<forall>i. gI' i \<noteq> None" and "\<forall>i. gR' i \<noteq> None"
  shows "parties_ok gI' gR' (0, 2) (0, 2) (dI\<lparr>cd_remoteKey := kR, cd_authData := Some (auth_bytes (cd_authData dR))\<rparr>)
    (dR\<lparr>cd_remoteKey := kI\<rparr>)"
  using assms by (simp add: parties_ok_def no_objection_def auth_bytes_def)

lemma fresh_session_wf:
  assumes "prims_ok P"
  shows "NewClient P host d [] = Inr c \<Longrightarrow> client_wf E host (c\<lparr>cl_connData := d'\<rparr>)"
    and "NewServer P None host e = Inr v \<Longrightarrow> server_wf E host (v\<lparr>sv_connData := e'\<rparr>)"
  using SID_length [OF assms]
  by (auto simp: NewClient_def NewServer_def ebind_def client_wf_def server_wf_def split: sum.splits)

lemma websocket_client:
  assumes "NewClientWebsocketConn P B index host phrase ck rk onR onA = Inr (c, g)"
  shows "cl_connData c = NewConnData ck rk (cd_passphraseEntropy (cl_connData c)) None onR onA"
    and "NewClient P host (cl_connData c) [] = Inr c" and "g = NewNoiseGrpcConn (cl_connData c) []"
  using assms by (auto simp: NewClientWebsocketConn_def NewWebsocketsClient_def NewClient_def Let_def ebind_def
      NewConnData_def NewNoiseGrpcConn_def split: sum.splits)

text \<open>The handshake with the passphrase, and every one after it.\<close>

lemma paired_sessions:
  fixes P :: "('sk, 'pk) prims" and dI dR :: "('sk, 'pk) ConnData"
  defines "dI' \<equiv> dI\<lparr>cd_remoteKey := Some (ec_pub P (cd_localKey dR)), cd_authData := Some (auth_bytes (cd_authData dR))\<rparr>"
  defines "dR' \<equiv> dR\<lparr>cd_remoteKey := Some (ec_pub P (cd_localKey dI))\<rparr>"
  assumes "prims_ok P" and "parties_ok gI gR (0, 2) (0, 2) dI dR" and "cd_remoteKey dI = None" and "cd_remoteKey dR = None"
    and "cd_passphraseEntropy dI = cd_passphraseEntropy dR"
    and "scrypt_key P (cd_passphraseEntropy dR) (cd_passphraseEntropy dR) = Some k"
    and "\<forall>i. gI' i \<noteq> None" and "\<forall>i. gR' i \<noteq> None"
  shows "noise_session P gI gR dI dR dI' dR' \<and> noise_session P gI' gR' dI' dR' dI' dR' \<and> peers P dI' dR'"
proof -
  have p: "parties_ok gI' gR' (0, 2) (0, 2) dI' dR'"
    unfolding dI'_def dR'_def by (rule paired_parties [OF assms(4,9,10)])
  have eq: "dI'\<lparr>cd_authData := Some (auth_bytes (cd_authData dR'))\<rparr> = dI'" by (simp add: dI'_def dR'_def)
  have k: "cd_remoteKey dI' = Some (ec_pub P (cd_localKey dR'))" "cd_remoteKey dR' = Some (ec_pub P (cd_localKey dI'))"
    by (simp_all add: dI'_def dR'_def)
  have "noise_session P gI gR dI dR dI' dR'" unfolding dI'_def dR'_def by (rule noise_session_xx [OF assms(3-8)])
  then show ?thesis using noise_session_kk [OF assms(3) p k] k unfolding eq by (simp add: peers_def)
qed

text \<open>
  C2: the life of a pairing. The server side makes a phrase and waits with it; the user types
  the phrase into a client. Then the client derives the same entropy and the same session
  id, so that its first \<^verbatim>\<open>Dial\<close> and the server's first \<^verbatim>\<open>Accept\<close> use the same mailboxes crosswise; the
  first handshake succeeds, and gives the client the auth data and both sides each
  other's key. From then on the two sides meet in new mailboxes that belong to the two keys, and
  every later handshake succeeds and leaves the data of both sides as they are.
\<close>

theorem pairing_life:
  assumes "prims_ok P" and "bstream_ok bits B" and "words_ok wl index" and "\<forall>w \<in> set wl. 32 \<notin> set w"
    and "length e = 14" and "NewPassphraseEntropy B wl index (Inr e) = Some (ws, entropy, None)"
    and "NewServer P None host dR = Inr v" and "dR = NewConnData sk None entropy auth onR onA"
    and "parties_ok gI gR (0, 2) (0, 2) (NewConnData ck None entropy None onR' onA') dR"
    and "scrypt_key P entropy entropy = Some k" and "\<forall>i. gI' i \<noteq> None" and "\<forall>i. gR' i \<noteq> None"
  shows "\<exists>c (g :: ('sk, 'pk, gbn_msgs ProxyConn) NoiseGrpcConn) dI' dR'.
    NewClientWebsocketConn P B index host (join_words ws) ck None onR' onA' = Inr (c, g) \<and>
    creds (cl_connData c) g \<and>
    noise_session P gI gR (cl_connData c) dR dI' dR' \<and> noise_session P gI' gR' dI' dR' dI' dR' \<and>
    cd_authData dI' = Some (auth_bytes auth) \<and>
    cd_remoteKey dI' = Some (ec_pub P sk) \<and> cd_remoteKey dR' = Some (ec_pub P ck) \<and>
    (\<forall>d d' E F gclose q q' hs hs' pick s t m n c1 v1 s1 t1.
       (d, d') \<in> {(cl_connData c, dR), (dI', dR')} \<longrightarrow>
       Client_Dial P E gclose q hs (c\<lparr>cl_connData := d\<rparr>) s = Some (Inr m, c1, s1) \<longrightarrow>
       Server_Accept P F gclose q' hs' pick (v\<lparr>sv_connData := d'\<rparr>) t = Some (Inr n, v1, t1) \<longrightarrow>
       c_receiveSID m = s_sendSID n \<and> c_sendSID m = s_receiveSID n \<and> c_receiveSID m \<noteq> c_sendSID m)"
proof -
  let ?dI = "NewConnData ck None entropy None onR' onA'"
  obtain c and g :: "('sk, 'pk, gbn_msgs ProxyConn) NoiseGrpcConn" where
    c: "NewClientWebsocketConn P B index host (join_words ws) ck None onR' onA' = Inr (c, g)"
    "peers P (cl_connData c) (sv_connData v)" "g_connData g = cl_connData c"
    using pairing_phrase_meets [OF assms(1-6), of host sk auth onR onA v] assms(7,8) by blast
  note g = websocket_client [OF c(1)]
  have v: "sv_connData v = dR" using assms(7) by (auto simp: NewServer_def ebind_def split: sum.splits)
  have pw: "cd_passphraseEntropy (cl_connData c) = entropy"
    using c(2) g(1) v assms(8) by (auto simp: peers_def NewConnData_def)
  then have dI: "cl_connData c = ?dI" using g(1) by simp
  define dI' where "dI' = ?dI\<lparr>cd_remoteKey := Some (ec_pub P (cd_localKey dR)), cd_authData := Some (auth_bytes (cd_authData dR))\<rparr>"
  define dR' where "dR' = dR\<lparr>cd_remoteKey := Some (ec_pub P (cd_localKey ?dI))\<rparr>"
  have ses: "noise_session P gI gR ?dI dR dI' dR' \<and> noise_session P gI' gR' dI' dR' dI' dR' \<and> peers P dI' dR'"
    unfolding dI'_def dR'_def
    by (rule paired_sessions [OF assms(1,9) _ _ _ _ assms(11,12), of k]) (use assms(8,10) in \<open>simp_all add: NewConnData_def\<close>)
  have peers: "peers P d d'" if "(d, d') \<in> {(cl_connData c, dR), (dI', dR')}" for d d'
    using that c(2) v ses by auto
  have meet: "c_receiveSID m = s_sendSID n \<and> c_sendSID m = s_receiveSID n \<and> c_receiveSID m \<noteq> c_sendSID m"
    if "(d, d') \<in> {(cl_connData c, dR), (dI', dR')}"
      "Client_Dial P E gclose q hs (c\<lparr>cl_connData := d\<rparr>) s = Some (Inr m, c1, s1)"
      "Server_Accept P F gclose q' hs' pick (v\<lparr>sv_connData := d'\<rparr>) t = Some (Inr n, v1, t1)"
    for d d' E F gclose q q' hs hs' pick s t m n c1 v1 s1 t1
  proof -
    have "peers P (cl_connData (c\<lparr>cl_connData := d\<rparr>)) (sv_connData (v\<lparr>sv_connData := d'\<rparr>))"
      using peers [OF that(1)] by simp
    from dial_accept_cross [OF assms(1) fresh_session_wf(1) [OF assms(1) g(2)] fresh_session_wf(2) [OF assms(1,7)] this that(2,3)]
    show ?thesis by blast
  qed
  have l: "cd_authData dI' = Some (auth_bytes auth)" "cd_remoteKey dI' = Some (ec_pub P sk)" "cd_remoteKey dR' = Some (ec_pub P ck)"
    using assms(8) by (simp_all add: dI'_def dR'_def NewConnData_def)
  have cr: "creds (cl_connData c) g" unfolding g(3) by (rule creds_New)
  show ?thesis
    by (intro exI conjI allI impI, rule c(1), rule cr, unfold dI, rule ses [THEN conjunct1], rule ses [THEN conjunct2, THEN conjunct1], (rule l)+)
      (drule meet [unfolded dI]; blast)+
qed

theorem pairing_life_witness:
  "\<exists>ws entropy c (g :: (u8, u8, gbn_msgs ProxyConn) NoiseGrpcConn) v dI' dR' m n x y.
     NewPassphraseEntropy example_bstream example_words example_index (Inr (replicate 14 255)) = Some (ws, entropy, None) \<and>
     NewServer example_prims None ''host'' (NewConnData 7 None entropy (Some [9]) None None) = Inr v \<and>
     NewClientWebsocketConn example_prims example_bstream example_index ''host'' (join_words ws) 5 None None None = Inr (c, g) \<and>
     noise_session example_prims (\<lambda>_. Some 11) (\<lambda>_. Some 13) (cl_connData c) (sv_connData v) dI' dR' \<and>
     noise_session example_prims (\<lambda>_. Some 11) (\<lambda>_. Some 13) dI' dR' dI' dR' \<and>
     cd_authData dI' = Some [9] \<and>
     Client_Dial example_prims example_env quiet_close id Inr (c\<lparr>cl_connData := dI'\<rparr>) ([], 0) = Some (Inr m, x) \<and>
     Server_Accept example_prims example_env quiet_close id Inr False (v\<lparr>sv_connData := dR'\<rparr>) ([], 0) = Some (Inr n, y) \<and>
     c_receiveSID m = s_sendSID n \<and> c_sendSID m = s_receiveSID n"
proof -
  obtain p where p: "PassphraseEntropyToMnemonic example_bstream example_words (replicate 14 255) = Some (p, None)"
    using EntropyToMnemonic_ok [OF example_bstream_ok example_words_ok, of "replicate 14 255"] by (metis length_replicate)
  let ?e = "PassphraseMnemonicToEntropy example_bstream example_index p"
  let ?dR = "NewConnData 7 None ?e (Some [9]) None None"
  have n: "NewPassphraseEntropy example_bstream example_words example_index (Inr (replicate 14 255)) = Some (p, ?e, None)"
    using p by (simp add: NewPassphraseEntropy_def)
  obtain v where v: "NewServer example_prims None ''host'' ?dR = Inr v" "sv_connData v = ?dR" "sv_mailboxConn v = None"
      "\<not> sv_quit v" "\<not> sv_cancelled v"
    by (simp add: NewServer_def SID_def NewConnData_def ebind_def)
  have ok: "parties_ok (\<lambda>_. Some 11) (\<lambda>_. Some 13) (0, 2) (0, 2) (NewConnData 5 None ?e None None None) ?dR"
    by (simp add: parties_ok_def auth_bytes_def no_objection_def call_back_def NewConnData_def MaxInt32_def)
  obtain k where k: "scrypt_key example_prims ?e ?e = Some k" by (simp add: example_prims_def)
  have len: "length (replicate 14 255 :: bytes) = 14" by simp
  have some: "\<forall>i :: nat. Some (11 :: u8) \<noteq> None" "\<forall>i :: nat. Some (13 :: u8) \<noteq> None" by simp_all
  obtain c dI' dR' and g :: "(u8, u8, gbn_msgs ProxyConn) NoiseGrpcConn" where
    C: "NewClientWebsocketConn example_prims example_bstream example_index ''host'' (join_words p) 5 None None None = Inr (c, g)"
    "noise_session example_prims (\<lambda>_. Some 11) (\<lambda>_. Some 13) (cl_connData c) ?dR dI' dR'"
    "noise_session example_prims (\<lambda>_. Some 11) (\<lambda>_. Some 13) dI' dR' dI' dR'"
    "cd_authData dI' = Some (auth_bytes (Some [9]))" "cd_remoteKey dI' = Some (ec_pub example_prims 7)"
    "cd_remoteKey dR' = Some (ec_pub example_prims 5)"
    and M: "\<And>m n x y. Client_Dial example_prims example_env quiet_close id Inr (c\<lparr>cl_connData := dI'\<rparr>) ([], 0) = Some (Inr m, x) \<Longrightarrow>
      Server_Accept example_prims example_env quiet_close id Inr False (v\<lparr>sv_connData := dR'\<rparr>) ([], 0) = Some (Inr n, y) \<Longrightarrow>
      c_receiveSID m = s_sendSID n \<and> c_sendSID m = s_receiveSID n"
    using pairing_life [OF example_prims_ok example_bstream_ok example_words_ok example_words_no_space len n v(1) refl ok k some]
    by (metis (no_types, lifting) insertCI surj_pair)
  have cm: "cl_mailboxConn c = None"
    using C(1) by (auto simp: NewClientWebsocketConn_def NewWebsocketsClient_def NewClient_def Let_def ebind_def split: sum.splits)
  obtain sid sid' where sid: "SID example_prims dI' = Inr sid" "SID example_prims dR' = Inr sid'"
    using C(5,6) by (simp add: SID_def ecdh_def ebind_def example_prims_def)
  obtain m x where D: "Client_Dial example_prims example_env quiet_close id Inr (c\<lparr>cl_connData := dI'\<rparr>) ([], 0) = Some (Inr m, x)"
    using Client_Dial_returns [of "c\<lparr>cl_connData := dI'\<rparr>" example_prims sid Inr example_env quiet_close id "([], 0)", OF _ _ Inr_returns]
      cm sid by auto
  obtain q y where A: "Server_Accept example_prims example_env quiet_close id Inr False (v\<lparr>sv_connData := dR'\<rparr>) ([], 0) = Some (Inr q, y)"
    using Server_Accept_returns [of "v\<lparr>sv_connData := dR'\<rparr>" example_prims sid' Inr example_env quiet_close id False "([], 0)", OF _ _ Inr_returns]
      v sid by auto
  have "cd_authData dI' = Some [9]" using C(4) by (simp add: auth_bytes_def)
  with n v(1,2) C(1,2,3) D A M [OF D A] show ?thesis by metis
qed

end
